(* ===== verification/Go_Prelude.thy ===== *)
theory Go_Prelude
  imports Main "HOL-Library.Word" "HOL-Library.Sublist"
begin

text \<open>
  The prelude of the development: Go's 64-bit \<open>int\<close> arithmetic and the generic facts on
  lists and words that the component theories share.

  A Go \<open>int\<close> (and \<open>time.Duration\<close>) is modelled as an \<^typ>\<open>int\<close> kept in the range
  of a signed 64-bit integer; every arithmetic operation of the source that may leave the range
  is written with \<open>wrap64\<close>, which is two's complement wrap-around. Atomic counters, on
  which the source only adds, are \<open>64 word\<close>.
\<close>

named_theorems go_arith \<open>wrap-around arithmetic and its range facts\<close>

section \<open>Signed 64-bit integers\<close>

definition in_int64 :: "int \<Rightarrow> bool" where
  "in_int64 x \<longleftrightarrow> - (2 ^ 63) \<le> x \<and> x < 2 ^ 63"

definition wrap64 :: "int \<Rightarrow> int" where
  "wrap64 x = (x + 2 ^ 63) mod 2 ^ 64 - 2 ^ 63"

lemma wrap64_in_range [go_arith]: "in_int64 (wrap64 x)"
proof -
  have "0 \<le> (x + 2 ^ 63) mod 2 ^ 64" and "(x + 2 ^ 63) mod 2 ^ 64 < (2 ^ 64 :: int)"
    by simp_all
  then show ?thesis
    by (simp add: in_int64_def wrap64_def)
qed

lemma wrap64_id [simp, go_arith]: "in_int64 x \<Longrightarrow> wrap64 x = x"
  by (simp add: in_int64_def wrap64_def mod_pos_pos_trivial)

lemma wrap64_sint: "wrap64 x = sint (word_of_int x :: 64 word)"
  by (simp add: wrap64_def int_word_sint)

lemma wrap64_small: "0 \<le> x \<Longrightarrow> x < 2 ^ 63 \<Longrightarrow> wrap64 x = x"
  by (simp add: in_int64_def)

section \<open>Counters: 64-bit words that only count\<close>

lemma sint_of_nat_64:
  assumes "n < 2 ^ 63"
  shows "sint (of_nat n :: 64 word) = int n"
proof -
  have "sint (word_of_int (int n) :: 64 word) = wrap64 (int n)"
    by (simp add: wrap64_sint)
  also from assms have "\<dots> = int n"
    by (intro wrap64_small) (simp_all add: nat_less_numeral_power_cancel_iff)
  finally show ?thesis by simp
qed

section \<open>Lists\<close>

lemma prefix_lengthD: "prefix xs ys \<Longrightarrow> length xs \<le> length ys"
  by (rule prefix_length_le)

lemma sublist_appendI2 [intro]: "sublist xs zs \<Longrightarrow> sublist xs (ys @ zs)"
  by (metis sublist_append_leftI sublist_order.order_trans)

end
