(* ===== verification/Go_Strings.thy ===== *)
theory Go_Strings
  imports Go_Prelude
begin

text \<open>
  The parts of Go's \<open>strings\<close>, \<open>strconv\<close> and \<open>fmt\<close> that the queue uses, on byte
  strings: \<open>strings.Split\<close> with a one-byte separator, \<open>strings.Contains\<close>,
  \<open>strings.Replacer\<close> with one-byte keys, \<open>strings.ToLower\<close>, \<open>strconv.Itoa\<close>
  and \<open>strconv.Atoi\<close>, and \<open>fmt.Sprintf\<close> on formats whose only verb is \<open>%s\<close>.
\<close>

section \<open>Splitting\<close>

text \<open>\<open>strings.Split(s, sep)\<close> for a separator of one byte: \<open>n\<close> separators give
  \<open>n + 1\<close> parts, the empty string gives one empty part.\<close>

fun split_on :: "char \<Rightarrow> string \<Rightarrow> string list" where
  "split_on c [] = [[]]"
| "split_on c (x # xs) =
     (if x = c then [] # split_on c xs
      else (case split_on c xs of [] \<Rightarrow> [[x]] | p # ps \<Rightarrow> (x # p) # ps))"

lemma split_on_not_Nil [simp]: "split_on c s \<noteq> []"
  by (induction s) (auto split: list.splits)

lemma split_on_no_sep: "c \<notin> set p \<Longrightarrow> split_on c p = [p]"
  by (induction p) auto

lemma split_on_append: "c \<notin> set p \<Longrightarrow> split_on c (p @ c # s) = p # split_on c s"
  by (induction p) auto

lemma length_split_on: "length (split_on c s) = Suc (count_list s c)"
  by (induction s) (auto split: list.splits)

text \<open>Splitting distributes over a separator even when the part before it has separators.\<close>

lemma split_on_append_sep: "split_on c (p @ c # s) = split_on c p @ split_on c s"
proof (induction p)
  case Nil
  then show ?case by simp
next
  case (Cons x p)
  show ?case
    by (cases "x = c"; cases "split_on c p") (use Cons in auto)
qed

section \<open>Substring test\<close>

definition str_contains :: "string \<Rightarrow> string \<Rightarrow> bool" where
  "str_contains s sub \<longleftrightarrow> sublist sub s"

lemma str_contains_append [simp]: "str_contains s sub \<Longrightarrow> str_contains (p @ s) sub"
  by (auto simp: str_contains_def)

section \<open>Formatting\<close>

text \<open>\<open>fmt.Sprintf\<close> restricted to the verb \<open>%s\<close> with as many arguments as verbs.\<close>

fun sprintf :: "string \<Rightarrow> string list \<Rightarrow> string" where
  "sprintf [] as = []"
| "sprintf [c] as = [c]"
| "sprintf (c # d # t) as =
     (if c = CHR ''%'' \<and> d = CHR ''s''
      then (case as of [] \<Rightarrow> ''%!s(MISSING)'' @ sprintf t [] | a # as' \<Rightarrow> a @ sprintf t as')
      else c # sprintf (d # t) as)"

section \<open>Decimal numbers\<close>

definition digit_char :: "nat \<Rightarrow> char" where
  "digit_char n = char_of (48 + n)"

definition is_digit :: "char \<Rightarrow> bool" where
  "is_digit c \<longleftrightarrow> 48 \<le> (of_char c :: nat) \<and> (of_char c :: nat) \<le> 57"

definition digit_val :: "char \<Rightarrow> nat" where
  "digit_val c = of_char c - 48"

lemma digit_char_0: "digit_char 0 = CHR ''0''"
  by code_simp

lemma is_digit_digit_char [simp]: "n < 10 \<Longrightarrow> is_digit (digit_char n)"
  by (simp add: is_digit_def digit_char_def)

lemma digit_val_digit_char [simp]: "n < 10 \<Longrightarrow> digit_val (digit_char n) = n"
  by (simp add: digit_val_def digit_char_def)

lemma digit_val_less: "is_digit c \<Longrightarrow> digit_val c < 10"
  unfolding is_digit_def digit_val_def by linarith

lemma digit_char_digit_val [simp]: "is_digit c \<Longrightarrow> digit_char (digit_val c) = c"
  by (simp add: is_digit_def digit_val_def digit_char_def)

lemma digit_char_neq:
  assumes "n < 10" and "\<not> is_digit c"
  shows "digit_char n \<noteq> c"
  using assms is_digit_digit_char by auto

fun nat_digits :: "nat \<Rightarrow> string" where
  "nat_digits n = (if n < 10 then [digit_char n] else nat_digits (n div 10) @ [digit_char (n mod 10)])"

declare nat_digits.simps [simp del]

definition itoa :: "int \<Rightarrow> string" where
  "itoa n = (if n < 0 then CHR ''-'' # nat_digits (nat (- n)) else nat_digits (nat n))"

lemma nat_digits_not_Nil [simp]: "nat_digits n \<noteq> []"
  by (subst nat_digits.simps) simp

lemma nat_digits_digits: "c \<in> set (nat_digits n) \<Longrightarrow> is_digit c"
proof (induction n rule: nat_digits.induct)
  case (1 n)
  show ?case
  proof (cases "n < 10")
    case True
    with "1.prems" show ?thesis by (simp add: nat_digits.simps [of n])
  next
    case False
    with "1.prems" have "c \<in> set (nat_digits (n div 10)) \<or> c = digit_char (n mod 10)"
      by (simp add: nat_digits.simps [of n] disj_commute)
    with False "1.IH" show ?thesis by auto
  qed
qed

text \<open>The number a digit string denotes, most significant digit first.\<close>

definition digits_val :: "nat \<Rightarrow> string \<Rightarrow> nat" where
  "digits_val acc s = foldl (\<lambda>a c. 10 * a + digit_val c) acc s"

lemma digits_val_simps [simp]:
  "digits_val acc [] = acc"
  "digits_val acc (c # s) = digits_val (10 * acc + digit_val c) s"
  "digits_val acc (s @ [c]) = 10 * digits_val acc s + digit_val c"
  by (simp_all add: digits_val_def)

lemma digits_val_mono: "acc \<le> digits_val acc s"
proof (induction s arbitrary: acc)
  case Nil
  then show ?case by simp
next
  case (Cons c s)
  have "acc \<le> 10 * acc + digit_val c" by simp
  also have "\<dots> \<le> digits_val (10 * acc + digit_val c) s" by (rule Cons.IH)
  finally show ?case by simp
qed

lemma digits_val_nat_digits: "digits_val 0 (nat_digits n) = n"
proof (induction n rule: nat_digits.induct)
  case (1 n)
  then show ?case by (cases "n < 10") (simp_all add: nat_digits.simps [of n])
qed

text \<open>
  \<open>strconv.ParseUint(s, 10, 64)\<close> on a string whose sign was removed: it stops at the first
  byte that is no digit (syntax error) or that takes the value past 64 bits (range error).
\<close>

datatype num_error = ErrSyntax | ErrRange

fun parse_uint_loop :: "nat \<Rightarrow> string \<Rightarrow> num_error + nat" where
  "parse_uint_loop acc [] = Inr acc"
| "parse_uint_loop acc (c # s) =
     (if \<not> is_digit c then Inl ErrSyntax
      else let n = 10 * acc + digit_val c
           in if n \<ge> 2 ^ 64 then Inl ErrRange else parse_uint_loop n s)"

definition parse_uint :: "string \<Rightarrow> num_error + nat" where
  "parse_uint s = (if s = [] then Inl ErrSyntax else parse_uint_loop 0 s)"

lemma parse_uint_loop_digits:
  assumes "\<And>c. c \<in> set s \<Longrightarrow> is_digit c" and "digits_val acc s < 2 ^ 64"
  shows "parse_uint_loop acc s = Inr (digits_val acc s)"
  using assms
proof (induction s arbitrary: acc)
  case Nil
  then show ?case by simp
next
  case (Cons c s)
  let ?n = "10 * acc + digit_val c"
  have "?n \<le> digits_val ?n s" by (rule digits_val_mono)
  moreover from Cons.prems(2) have lt: "digits_val ?n s < 2 ^ 64" by simp
  ultimately have "?n < 2 ^ 64" by (rule le_less_trans)
  with Cons.prems(1) lt Cons.IH [of ?n] show ?case by (simp add: Let_def)
qed

text \<open>
  \<open>strconv.Atoi\<close>: the value together with the error, since callers that log the error go on
  with the value (0 on a syntax error, the nearest bound on a range error).
\<close>

definition atoi :: "string \<Rightarrow> int \<times> num_error option" where
  "atoi s =
     (let (neg, t) = (case s of [] \<Rightarrow> (False, [])
                      | c # r \<Rightarrow> if c = CHR ''+'' then (False, r)
                                 else if c = CHR ''-'' then (True, r) else (False, s))
      in case parse_uint t of
           Inl ErrSyntax \<Rightarrow> (0, Some ErrSyntax)
         | Inl ErrRange \<Rightarrow> (if neg then - (2 ^ 63) else 2 ^ 63 - 1, Some ErrRange)
         | Inr un \<Rightarrow>
             (if \<not> neg \<and> un \<ge> 2 ^ 63 then (2 ^ 63 - 1, Some ErrRange)
              else if neg \<and> un > 2 ^ 63 then (- (2 ^ 63), Some ErrRange)
              else (if neg then - int un else int un, None)))"

lemma parse_uint_nat_digits: "n < 2 ^ 64 \<Longrightarrow> parse_uint (nat_digits n) = Inr n"
  by (simp add: parse_uint_def parse_uint_loop_digits nat_digits_digits digits_val_nat_digits)

lemma nat_digits_no_sign:
  assumes "nat_digits n = c # r"
  shows "c \<noteq> CHR ''+'' \<and> c \<noteq> CHR ''-''"
proof -
  from assms have "is_digit c" by (intro nat_digits_digits [of c n]) simp
  then show ?thesis by (auto simp: is_digit_def)
qed

lemma atoi_itoa:
  assumes "in_int64 n"
  shows "atoi (itoa n) = (n, None)"
proof (cases "n < 0")
  case True
  with assms have "nat (- n) \<le> 2 ^ 63"
    by (simp add: in_int64_def nat_le_iff)
  moreover from this have "nat (- n) < 2 ^ 64" by simp
  ultimately show ?thesis
    using True by (simp add: itoa_def atoi_def parse_uint_nat_digits)
next
  case False
  with assms have lt: "nat n < 2 ^ 63"
    by (simp add: in_int64_def nat_less_iff)
  then have pu: "parse_uint (nat_digits (nat n)) = Inr (nat n)"
    by (intro parse_uint_nat_digits) simp
  obtain c r where cr: "nat_digits (nat n) = c # r"
    by (cases "nat_digits (nat n)") auto
  from nat_digits_no_sign [OF cr] pu lt False show ?thesis
    by (simp add: itoa_def atoi_def cr)
qed

section \<open>Quoting\<close>

definition is_ascii :: "string \<Rightarrow> bool" where
  "is_ascii s \<longleftrightarrow> list_all (\<lambda>c. (of_char c :: nat) < 128) s"

definition hex_digit :: "nat \<Rightarrow> char" where
  "hex_digit n = ''0123456789abcdef'' ! n"

definition quote_byte :: "char \<Rightarrow> string" where
  "quote_byte c =
     (let n = of_char c :: nat; bs = CHR 0x5C in
      if n = 0x22 \<or> n = 0x5C then [bs, c]
      else if n = 7 then [bs, CHR ''a''] else if n = 8 then [bs, CHR ''b'']
      else if n = 12 then [bs, CHR ''f''] else if n = 10 then [bs, CHR ''n'']
      else if n = 13 then [bs, CHR ''r''] else if n = 9 then [bs, CHR ''t'']
      else if n = 11 then [bs, CHR ''v'']
      else if n < 32 \<or> n = 127 then [bs, CHR ''x'', hex_digit (n div 16), hex_digit (n mod 16)]
      else [c])"

text \<open>The verb \<open>%q\<close>: an ASCII string is quoted byte by byte, any other string by the
  Unicode tables, the parameter \<open>uq\<close>.\<close>

definition go_quote :: "(string \<Rightarrow> string) \<Rightarrow> string \<Rightarrow> string" where
  "go_quote uq s = (if is_ascii s then CHR 0x22 # concat (map quote_byte s) @ [CHR 0x22] else uq s)"

section \<open>Channel names\<close>

text \<open>
  \<open>strings.ToLower\<close> maps ASCII strings byte by byte and hands any other string to the
  Unicode case tables, which are the parameter \<open>ulow\<close>.
\<close>

definition ascii_lower :: "char \<Rightarrow> char" where
  "ascii_lower c =
     (let n = of_char c :: nat in if 65 \<le> n \<and> n \<le> 90 then char_of (n + 32) else c)"

definition to_lower :: "(string \<Rightarrow> string) \<Rightarrow> string \<Rightarrow> string" where
  "to_lower ulow s = (if is_ascii s then map ascii_lower s else ulow s)"

text \<open>\<open>strings.NewReplacer\<close> with the one-byte keys of the queue.\<close>

definition replace_byte :: "char \<Rightarrow> string" where
  "replace_byte c =
     (if c = CHR '':'' then [] else if c = CHR '' '' then ''-''
      else if c = CHR '','' then [] else [c])"

lemma ascii_lower_idem [simp]: "ascii_lower (ascii_lower c) = ascii_lower c"
  by (simp add: ascii_lower_def Let_def)

end
