(* ===== verification/Go_Json.thy ===== *)
theory Go_Json
  imports Go_Strings
begin

text \<open>
  \<open>encoding/json\<close> on a byte slice: \<open>json.Marshal\<close> of a \<open>[]byte\<close> is the JSON
  string of its standard base64 encoding. This is what the memory backend stores as the payload of
  a finished job; \<open>b64_decode_encode\<close> shows that nothing is lost.
\<close>

definition b64_alphabet :: string where
  "b64_alphabet = ''ABCDEFGHIJKLMNOPQRSTUVWXYZabcdefghijklmnopqrstuvwxyz0123456789+/''"

definition b64_char :: "nat \<Rightarrow> char" where
  "b64_char n = b64_alphabet ! n"

definition byte_val :: "char \<Rightarrow> nat" where
  "byte_val c = of_char c"

lemma byte_val_less: "byte_val c < 256"
proof -
  have "(of_char c :: nat) mod 256 = of_char c" by simp
  then show ?thesis
    using mod_less_divisor [of 256 "of_char c :: nat"] by (simp add: byte_val_def)
qed

fun b64_encode :: "string \<Rightarrow> string" where
  "b64_encode [] = []"
| "b64_encode [a] =
     [b64_char (byte_val a div 4), b64_char (byte_val a mod 4 * 16), CHR ''='', CHR ''='']"
| "b64_encode [a, b] =
     [b64_char (byte_val a div 4), b64_char (byte_val a mod 4 * 16 + byte_val b div 16),
      b64_char (byte_val b mod 16 * 4), CHR ''='']"
| "b64_encode (a # b # c # r) =
     b64_char (byte_val a div 4) # b64_char (byte_val a mod 4 * 16 + byte_val b div 16)
     # b64_char (byte_val b mod 16 * 4 + byte_val c div 64) # b64_char (byte_val c mod 64)
     # b64_encode r"

definition json_marshal_bytes :: "string \<Rightarrow> string" where
  "json_marshal_bytes s = CHR 0x22 # b64_encode s @ [CHR 0x22]"

section \<open>Decoding\<close>

fun index_of :: "char \<Rightarrow> string \<Rightarrow> nat" where
  "index_of c [] = 0"
| "index_of c (x # xs) = (if x = c then 0 else Suc (index_of c xs))"

definition b64_val :: "char \<Rightarrow> nat" where
  "b64_val c = index_of c b64_alphabet"

fun b64_decode :: "string \<Rightarrow> string" where
  "b64_decode (p # q # r # s # t) =
     (let a = char_of (b64_val p * 4 + b64_val q div 16);
          b = char_of (b64_val q mod 16 * 16 + b64_val r div 4);
          c = char_of (b64_val r mod 4 * 64 + b64_val s)
      in if r = CHR ''='' then [a] else if s = CHR ''='' then [a, b] else a # b # c # b64_decode t)"
| "b64_decode _ = []"

definition json_unmarshal_bytes :: "string \<Rightarrow> string" where
  "json_unmarshal_bytes s = b64_decode (butlast (tl s))"

lemma b64_table: "list_all (\<lambda>n. b64_val (b64_char n) = n \<and> b64_char n \<noteq> CHR ''='') [0..<64]"
  by code_simp

lemma b64_val_char [simp]: "n < 64 \<Longrightarrow> b64_val (b64_char n) = n"
  and b64_char_not_pad [simp]: "n < 64 \<Longrightarrow> b64_char n \<noteq> CHR ''=''"
  using b64_table by (simp_all add: list_all_iff)

lemma sextets:
  assumes "a < 256" and "b < 256" and "c < (256::nat)"
  shows "a div 4 < 64" and "a mod 4 * 16 + b div 16 < 64" and "b mod 16 * 4 + c div 64 < 64"
    and "a div 4 * 4 + (a mod 4 * 16 + b div 16) div 16 = a"
    and "(a mod 4 * 16 + b div 16) mod 16 * 16 + (b mod 16 * 4 + c div 64) div 4 = b"
    and "(b mod 16 * 4 + c div 64) mod 4 * 64 + c mod 64 = c"
    and "b div 16 mod 16 = b div 16"
proof -
  have "a mod 4 < 4" "b mod 16 < 16" "b div 16 < 16" "c div 64 < 4" using assms by auto
  then show "a div 4 < 64" "a mod 4 * 16 + b div 16 < 64" "b mod 16 * 4 + c div 64 < 64"
    and "a div 4 * 4 + (a mod 4 * 16 + b div 16) div 16 = a"
    and "(a mod 4 * 16 + b div 16) mod 16 * 16 + (b mod 16 * 4 + c div 64) div 4 = b"
    and "(b mod 16 * 4 + c div 64) mod 4 * 64 + c mod 64 = c" and "b div 16 mod 16 = b div 16"
    using assms by simp_all
qed

lemma char_of_byte_val [simp]: "char_of (byte_val c) = c"
  by (simp add: byte_val_def)

lemma b64_decode_encode: "b64_decode (b64_encode s) = s"
proof (induction s rule: b64_encode.induct)
  case (2 a)
  then show ?case
    using sextets [of "byte_val a" 0 0] by (simp add: byte_val_less)
next
  case (3 a b)
  then show ?case
    using sextets [of "byte_val a" "byte_val b" 0] by (simp add: byte_val_less Let_def)
next
  case (4 a b c r)
  then show ?case
    using sextets [of "byte_val a" "byte_val b" "byte_val c"] by (simp add: byte_val_less Let_def)
qed simp

lemma json_unmarshal_marshal: "json_unmarshal_bytes (json_marshal_bytes s) = s"
  by (simp add: json_unmarshal_bytes_def json_marshal_bytes_def b64_decode_encode)

end
