(* ===== verification/Json_Text.thy ===== *)
theory Json_Text
  imports Go_Json
begin

text \<open>
  The text level of \<open>encoding/json\<close>: UTF-8 as \<open>utf8.DecodeRune\<close> sees it, the escaping of
  a string literal by the encoder (HTML escaping on, as \<open>json.Marshal\<close> has it) and the
  unquoting of one by the decoder. The main result is \<open>unquote_escape\<close>: a valid UTF-8 string
  survives the round trip.
\<close>

section \<open>UTF-8\<close>

definition is_cont :: "nat \<Rightarrow> bool" where
  "is_cont b \<longleftrightarrow> 0x80 \<le> b \<and> b \<le> 0xBF"

text \<open>The range of the second byte, which excludes overlong forms, surrogates and values past
  U+10FFFF.\<close>

definition second_ok :: "nat \<Rightarrow> nat \<Rightarrow> bool" where
  "second_ok a b \<longleftrightarrow>
     (if a = 0xE0 then 0xA0 \<le> b \<and> b \<le> 0xBF else if a = 0xED then 0x80 \<le> b \<and> b \<le> 0x9F
      else if a = 0xF0 then 0x90 \<le> b \<and> b \<le> 0xBF else if a = 0xF4 then 0x80 \<le> b \<and> b \<le> 0x8F
      else is_cont b)"

text \<open>The length of the multi-byte sequence a string starts with; 0 where
  \<open>utf8.DecodeRune\<close> reports an encoding error of width 1.\<close>

fun utf8_size :: "string \<Rightarrow> nat" where
  "utf8_size (a # b # r) =
     (let x = byte_val a; y = byte_val b in
      if 0xC2 \<le> x \<and> x \<le> 0xDF then (if is_cont y then 2 else 0)
      else if 0xE0 \<le> x \<and> x \<le> 0xEF
      then (case r of c # _ \<Rightarrow> if second_ok x y \<and> is_cont (byte_val c) then 3 else 0 | [] \<Rightarrow> 0)
      else if 0xF0 \<le> x \<and> x \<le> 0xF4
      then (case r of c # d # _ \<Rightarrow>
              if second_ok x y \<and> is_cont (byte_val c) \<and> is_cont (byte_val d) then 4 else 0 | _ \<Rightarrow> 0)
      else 0)"
| "utf8_size _ = 0"

lemma utf8_size_bounds:
  assumes "utf8_size s \<noteq> 0"
  shows "2 \<le> utf8_size s" and "utf8_size s \<le> 4" and "utf8_size s \<le> length s"
  using assms by (cases s rule: utf8_size.cases; auto simp: Let_def split: if_splits list.splits)+

lemma utf8_size_take:
  assumes "utf8_size s = n" and "n \<noteq> 0"
  shows "utf8_size (take n s @ r) = n"
  using assms by (cases s rule: utf8_size.cases)
    (auto simp: Let_def numeral_eq_Suc split: if_splits list.splits)

text \<open>The runes of a string, as its byte sequences: \<open>range\<close> over a string, and
  \<open>utf8.RuneCountInString\<close> counts them. An invalid byte is a rune of its own.\<close>

function runes :: "string \<Rightarrow> string list" where
  "runes [] = []"
| "runes (c # s) =
     (let k = (if byte_val c < 0x80 then 1 else max 1 (utf8_size (c # s)))
      in take k (c # s) # runes (drop k (c # s)))"
  by pat_completeness auto
termination by (relation "measure length") auto

definition rune_valid :: "string \<Rightarrow> bool" where
  "rune_valid r \<longleftrightarrow>
     (case r of [c] \<Rightarrow> byte_val c < 0x80 | _ \<Rightarrow> utf8_size r \<noteq> 0 \<and> utf8_size r = length r)"

definition valid_utf8 :: "string \<Rightarrow> bool" where
  "valid_utf8 s \<longleftrightarrow> list_all rune_valid (runes s)"

lemma concat_runes [simp]: "concat (runes s) = s"
  by (induction s rule: runes.induct) (simp_all add: Let_def)

lemma valid_utf8_Nil [simp]: "valid_utf8 []"
  by (simp add: valid_utf8_def)

lemma valid_utf8_ascii_Cons:
  "byte_val c < 0x80 \<Longrightarrow> valid_utf8 (c # s) \<longleftrightarrow> valid_utf8 s"
  by (simp add: valid_utf8_def rune_valid_def)

lemma valid_utf8_multi:
  assumes "\<not> byte_val c < 0x80" and "valid_utf8 (c # s)"
  shows "utf8_size (c # s) \<noteq> 0" and "valid_utf8 (drop (utf8_size (c # s)) (c # s))"
proof -
  have "utf8_size (c # s) \<noteq> 0"
  proof
    assume "utf8_size (c # s) = 0"
    with assms show False by (simp add: valid_utf8_def rune_valid_def)
  qed
  then show "utf8_size (c # s) \<noteq> 0" .
  with assms utf8_size_bounds(1) [of "c # s"] show "valid_utf8 (drop (utf8_size (c # s)) (c # s))"
    by (simp add: valid_utf8_def Let_def max_def split: if_splits)
qed

lemma valid_utf8_ascii: "is_ascii s \<Longrightarrow> valid_utf8 s"
  by (induction s) (simp_all add: is_ascii_def valid_utf8_ascii_Cons byte_val_def)

section \<open>Escaping\<close>

definition bs :: char where "bs = CHR 0x5C"
definition dq :: char where "dq = CHR 0x22"

text \<open>\<open>htmlSafeSet\<close>: the ASCII bytes that need no escape.\<close>

definition html_safe :: "char \<Rightarrow> bool" where
  "html_safe c \<longleftrightarrow> 0x20 \<le> byte_val c \<and> byte_val c < 0x80
     \<and> c \<notin> {bs, dq, CHR ''<'', CHR ''>'', CHR ''&''}"

definition escape_byte :: "char \<Rightarrow> string" where
  "escape_byte c =
     (let n = byte_val c in
      if c = bs \<or> c = dq then [bs, c]
      else if n = 8 then [bs, CHR ''b''] else if n = 12 then [bs, CHR ''f'']
      else if n = 10 then [bs, CHR ''n''] else if n = 13 then [bs, CHR ''r'']
      else if n = 9 then [bs, CHR ''t'']
      else [bs, CHR ''u'', CHR ''0'', CHR ''0'', hex_digit (n div 16), hex_digit (n mod 16)])"

text \<open>A rune as the encoder writes it; U+2028 and U+2029 are escaped, an invalid byte becomes
  the escape of U+FFFD.\<close>

definition escape_rune :: "string \<Rightarrow> string" where
  "escape_rune r =
     (case r of
        [c] \<Rightarrow> if byte_val c < 0x80 then (if html_safe c then [c] else escape_byte c)
               else bs # ''ufffd''
      | _ \<Rightarrow> if r = [CHR 0xE2, CHR 0x80, CHR 0xA8] then bs # ''u2028''
             else if r = [CHR 0xE2, CHR 0x80, CHR 0xA9] then bs # ''u2029''
             else r)"

definition escape :: "string \<Rightarrow> string" where
  "escape s = concat (map escape_rune (runes s))"

section \<open>Unquoting\<close>

definition hex_val :: "char \<Rightarrow> nat option" where
  "hex_val c =
     (let n = byte_val c in
      if 48 \<le> n \<and> n \<le> 57 then Some (n - 48) else if 97 \<le> n \<and> n \<le> 102 then Some (n - 87)
      else if 65 \<le> n \<and> n \<le> 70 then Some (n - 55) else None)"

text \<open>\<open>getu4\<close>: the value of an escape \<open>\uXXXX\<close> at the start of a string.\<close>

fun getu4 :: "string \<Rightarrow> nat option" where
  "getu4 (a # u # w # x # y # z # r) =
     (if a = bs \<and> u = CHR ''u''
      then (case (hex_val w, hex_val x, hex_val y, hex_val z) of
              (Some p, Some q, Some s, Some t) \<Rightarrow> Some (((p * 16 + q) * 16 + s) * 16 + t)
            | _ \<Rightarrow> None)
      else None)"
| "getu4 _ = None"

definition utf8_encode :: "nat \<Rightarrow> string" where
  "utf8_encode n =
     (if n < 0x80 then [char_of n]
      else if n < 0x800 then [char_of (0xC0 + n div 64), char_of (0x80 + n mod 64)]
      else if n > 0x10FFFF \<or> 0xD800 \<le> n \<and> n \<le> 0xDFFF then [CHR 0xEF, CHR 0xBF, CHR 0xBD]
      else if n < 0x10000
      then [char_of (0xE0 + n div 4096), char_of (0x80 + n div 64 mod 64), char_of (0x80 + n mod 64)]
      else [char_of (0xF0 + n div 262144), char_of (0x80 + n div 4096 mod 64),
            char_of (0x80 + n div 64 mod 64), char_of (0x80 + n mod 64)])"

definition fffd :: string where "fffd = [CHR 0xEF, CHR 0xBF, CHR 0xBD]"

text \<open>An escape \<open>\uXXXX\<close>, with the low surrogate that follows a high one: the bytes it
  stands for and how many bytes of input it takes.\<close>

definition unescape_u :: "string \<Rightarrow> string \<times> nat" where
  "unescape_u s =
     (case getu4 s of
        None \<Rightarrow> ([], 6)
      | Some n \<Rightarrow>
          if 0xD800 \<le> n \<and> n < 0xE000
          then (case getu4 (drop 6 s) of
                  Some n1 \<Rightarrow> if n < 0xDC00 \<and> 0xDC00 \<le> n1 \<and> n1 < 0xE000
                             then (utf8_encode (0x10000 + (n - 0xD800) * 1024 + (n1 - 0xDC00)), 12)
                             else (fffd, 6)
                | None \<Rightarrow> (fffd, 6))
          else (utf8_encode n, 6))"

definition simple_escape :: "char \<Rightarrow> char" where
  "simple_escape c =
     (if c = CHR ''b'' then char_of (8::nat) else if c = CHR ''f'' then char_of (12::nat)
      else if c = CHR ''n'' then char_of (10::nat) else if c = CHR ''r'' then char_of (13::nat)
      else if c = CHR ''t'' then char_of (9::nat) else c)"

text \<open>\<open>unquote\<close> on the inside of a literal the scanner has accepted.\<close>

function unquote :: "string \<Rightarrow> string" where
  "unquote [] = []"
| "unquote (c # s) =
     (if c = bs
      then (case s of
              [] \<Rightarrow> []
            | d # t \<Rightarrow> if d = CHR ''u''
                       then fst (unescape_u (c # s)) @ unquote (drop (snd (unescape_u (c # s)) - 1) s)
                       else simple_escape d # unquote t)
      else if byte_val c < 0x80 then c # unquote s
      else let k = utf8_size (c # s)
           in if k = 0 then fffd @ unquote s else take k (c # s) @ unquote (drop (k - 1) s))"
  by pat_completeness auto
termination by (relation "measure length") (auto simp: le_imp_less_Suc)

declare unquote.simps [simp del]

section \<open>The round trip\<close>

lemma hex_table:
  "list_all (\<lambda>n. hex_val (hex_digit n) = Some n) [0..<16]"
  by code_simp

lemma hex_val_digit [simp]: "n < 16 \<Longrightarrow> hex_val (hex_digit n) = Some n"
  using hex_table by (simp add: list_all_iff)

lemma bs_dq [simp]: "bs \<noteq> dq" "dq \<noteq> bs"
  by (simp_all add: bs_def dq_def)

lemma byte_bs [simp]: "byte_val bs = 0x5C" "byte_val dq = 0x22"
  by (simp_all add: bs_def dq_def byte_val_def)

lemma unquote_simple: "d \<noteq> CHR ''u'' \<Longrightarrow> unquote (bs # d # r) = simple_escape d # unquote r"
  by (simp add: unquote.simps(2) [of bs])

lemma unquote_u:
  assumes "getu4 (bs # CHR ''u'' # w # x # y # z # []) = Some n" and "\<not> (0xD800 \<le> n \<and> n < 0xE000)"
  shows "unquote (bs # CHR ''u'' # w # x # y # z # r) = utf8_encode n @ unquote r"
proof -
  have "getu4 (bs # CHR ''u'' # w # x # y # z # r) = Some n" using assms(1) by simp
  then have "unescape_u (bs # CHR ''u'' # w # x # y # z # r) = (utf8_encode n, 6)"
    using assms(2) by (auto simp: unescape_u_def simp del: getu4.simps)
  then show ?thesis by (simp add: unquote.simps(2) [of bs] del: getu4.simps)
qed

lemma unquote_plain: "c \<noteq> bs \<Longrightarrow> byte_val c < 0x80 \<Longrightarrow> unquote (c # r) = c # unquote r"
  by (simp add: unquote.simps(2))

lemma unquote_escape_byte:
  assumes "byte_val c < 0x80"
  shows "unquote (escape_byte c @ r) = c # unquote r"
proof -
  have eqs: "simple_escape bs = bs" "simple_escape dq = dq" "bs \<noteq> CHR ''u''" "dq \<noteq> CHR ''u''"
    by (simp_all add: simple_escape_def bs_def dq_def)
  have hex: "hex_val (CHR ''0'') = Some 0" by code_simp
  have u: "unquote ([bs, CHR ''u'', CHR ''0'', CHR ''0'', hex_digit (byte_val c div 16), hex_digit (byte_val c mod 16)] @ r)
      = c # unquote r"
    using assms by (simp add: unquote_u [of _ _ _ _ "byte_val c"] hex utf8_encode_def)
  show ?thesis
  proof (cases "c = bs \<or> c = dq")
    case True
    then show ?thesis by (auto simp: escape_byte_def Let_def unquote_simple eqs)
  next
    case False
    have ch: "char_of k = c" if "byte_val c = k" for k using that by auto
    then show ?thesis
      using False u by (auto simp: escape_byte_def Let_def unquote_simple simple_escape_def simp del: append_Cons)
        (auto simp: unquote_simple simple_escape_def ch)
  qed
qed

lemma unquote_escape_rune:
  assumes "rune_valid x"
  shows "unquote (escape_rune x @ r) = x @ unquote r"
proof (cases "\<exists>c. x = [c]")
  case True
  then obtain c where c: "x = [c]" by blast
  have "utf8_size [c] = 0" by simp
  with assms c have "byte_val c < 0x80" by (auto simp: rune_valid_def)
  then show ?thesis
    using unquote_escape_byte [of c r] unquote_plain [of c r] by (simp add: c escape_rune_def html_safe_def)
next
  case False
  with assms have sz: "utf8_size x \<noteq> 0" "utf8_size x = length x"
    by (auto simp: rune_valid_def split: list.splits)
  then obtain a b t where x: "x = a # b # t" by (cases x rule: utf8_size.cases) auto
  have esc: "escape_rune x = (if x = [CHR 0xE2, CHR 0x80, CHR 0xA8] then bs # ''u2028''
      else if x = [CHR 0xE2, CHR 0x80, CHR 0xA9] then bs # ''u2029'' else x)"
    by (simp add: escape_rune_def x)
  have enc: "utf8_encode 0x2028 = [CHR 0xE2, CHR 0x80, CHR 0xA8]" "utf8_encode 0x2029 = [CHR 0xE2, CHR 0x80, CHR 0xA9]"
    by (simp_all add: utf8_encode_def char_of_def bit_numeral_Bit0_Suc_iff bit_numeral_Bit1_Suc_iff bit_0)
  have u8: "getu4 (bs # ''u2028'') = Some 0x2028" "getu4 (bs # ''u2029'') = Some 0x2029" by code_simp+
  have u: "unquote (bs # ''u2028'' @ r) = [CHR 0xE2, CHR 0x80, CHR 0xA8] @ unquote r"
    "unquote (bs # ''u2029'' @ r) = [CHR 0xE2, CHR 0x80, CHR 0xA9] @ unquote r"
    using unquote_u [OF u8(1)] unquote_u [OF u8(2)] by (simp_all add: enc)
  have big: "\<not> byte_val a < 0x80" using sz(1) by (auto simp: x Let_def split: if_splits)
  then have "a \<noteq> bs" by auto
  moreover have "utf8_size (x @ r) = length x"
    using utf8_size_take [OF sz(2), of r] sz(1) by (simp add: x)
  ultimately have "unquote (x @ r) = x @ unquote r"
    using big sz by (simp add: x unquote.simps(2) [of a] Let_def del: utf8_size.simps)
  with u show ?thesis unfolding esc append_Cons [symmetric] by (simp split: if_split del: append_Cons append.simps)
qed

lemma unquote_escape: "valid_utf8 s \<Longrightarrow> unquote (escape s) = s"
proof -
  have "list_all rune_valid rs \<Longrightarrow> unquote (concat (map escape_rune rs)) = concat rs" for rs
    by (induction rs) (simp_all add: unquote_escape_rune unquote.simps)
  then show "valid_utf8 s \<Longrightarrow> unquote (escape s) = s"
    by (simp add: escape_def valid_utf8_def)
qed

end
