(* ===== verification/Json_Value.thy ===== *)
theory Json_Value
  imports Json_Text
begin

text \<open>
  JSON values as \<open>encoding/json\<close> reads and writes them: the scanner with its error texts
  (\<open>scanner.go\<close> of the standard library), a recursive-descent parser over it, and the compact
  printer. A string value and an object key keep the inside of their literal, a number its text;
  the decoder interprets them. The parser takes fuel; \<open>parse_no_fuel_error\<close> shows that what
  \<open>parse_json\<close> gives it is always enough, \<open>parse_print\<close> that printing and parsing are
  inverse.
\<close>

datatype json =
    JNull
  | JBool bool
  | JNum string
  | JStr string
  | JArr "json list"
  | JObj "(string \<times> json) list"

section \<open>Errors\<close>

datatype jerr = JSyntax string | JFuel

type_synonym 'a presult = "jerr + 'a \<times> string"

definition eof :: jerr where
  "eof = JSyntax ''unexpected end of JSON input''"

text \<open>\<open>quoteChar\<close>: a byte from 0x80 on is shown as the Latin-1 character it would be.\<close>

definition quote_char :: "char \<Rightarrow> string" where
  "quote_char c =
     (let n = byte_val c; sq = CHR 0x27 in
      if c = sq then [sq, bs, sq, sq]
      else if c = dq then [sq, dq, sq]
      else sq # (if n < 0x80 then quote_byte c
                 else if 0xA1 \<le> n \<and> n \<noteq> 0xAD then utf8_encode n
                 else [bs, CHR ''u'', CHR ''0'', CHR ''0'', hex_digit (n div 16), hex_digit (n mod 16)])
           @ [sq])"

definition bad :: "char \<Rightarrow> string \<Rightarrow> jerr" where
  "bad c context = JSyntax (''invalid character '' @ quote_char c @ '' '' @ context)"

section \<open>Scanning\<close>

definition is_space :: "char \<Rightarrow> bool" where
  "is_space c \<longleftrightarrow> c \<in> {CHR '' '', CHR 0x09, CHR 0x0D, CHR 0x0A}"

definition skip_ws :: "string \<Rightarrow> string" where
  "skip_ws s = dropWhile is_space s"

definition push :: "char \<Rightarrow> string presult \<Rightarrow> string presult" where
  "push c r = map_sum id (\<lambda>(x, y). (c # x, y)) r"

datatype sstate = InStr | InEsc | InU nat

fun scan_str :: "sstate \<Rightarrow> string \<Rightarrow> string presult" where
  "scan_str st [] = Inl eof"
| "scan_str InStr (c # s) =
     (if c = dq then Inr ([], s)
      else if c = bs then push c (scan_str InEsc s)
      else if byte_val c < 0x20 then Inl (bad c ''in string literal'')
      else push c (scan_str InStr s))"
| "scan_str InEsc (c # s) =
     (if c \<in> {CHR ''b'', CHR ''f'', CHR ''n'', CHR ''r'', CHR ''t'', bs, CHR 0x2F, dq}
      then push c (scan_str InStr s)
      else if c = CHR ''u'' then push c (scan_str (InU 3) s)
      else Inl (bad c ''in string escape code''))"
| "scan_str (InU n) (c # s) =
     (if hex_val c \<noteq> None then push c (scan_str (if n = 0 then InStr else InU (n - 1)) s)
      else Inl (bad c (''in '' @ [bs] @ ''u hexadecimal character escape'')))"

datatype nstate = NNeg | NZero | NInt | NDot | NFrac | NExp | NExpSign | NExpDigits

definition num_end :: "nstate \<Rightarrow> bool" where
  "num_end st \<longleftrightarrow> st \<in> {NZero, NInt, NFrac, NExpDigits}"

definition nonzero_digit :: "char \<Rightarrow> bool" where
  "nonzero_digit c \<longleftrightarrow> is_digit c \<and> c \<noteq> CHR ''0''"

definition num_context :: "nstate \<Rightarrow> string" where
  "num_context st =
     (if st = NDot then ''after decimal point in numeric literal''
      else if st = NExp \<or> st = NExpSign then ''in exponent of numeric literal''
      else ''in numeric literal'')"

text \<open>The state after a byte, or \<open>None\<close> where the byte is not part of the number.\<close>

definition num_next :: "nstate \<Rightarrow> char \<Rightarrow> nstate option" where
  "num_next st c =
     (case st of
        NNeg \<Rightarrow> if c = CHR ''0'' then Some NZero else if nonzero_digit c then Some NInt else None
      | NDot \<Rightarrow> if is_digit c then Some NFrac else None
      | NExp \<Rightarrow> if c = CHR ''+'' \<or> c = CHR ''-'' then Some NExpSign
                else if is_digit c then Some NExpDigits else None
      | NExpSign \<Rightarrow> if is_digit c then Some NExpDigits else None
      | NExpDigits \<Rightarrow> if is_digit c then Some NExpDigits else None
      | _ \<Rightarrow> if is_digit c \<and> st \<noteq> NZero then Some st
             else if c = CHR ''.'' \<and> st \<noteq> NFrac then Some NDot
             else if c = CHR ''e'' \<or> c = CHR ''E'' then Some NExp else None)"

fun scan_num :: "nstate \<Rightarrow> string \<Rightarrow> string presult" where
  "scan_num st [] = (if num_end st then Inr ([], []) else Inl eof)"
| "scan_num st (c # s) =
     (case num_next st c of
        Some st' \<Rightarrow> push c (scan_num st' s)
      | None \<Rightarrow> if num_end st then Inr ([], c # s) else Inl (bad c (num_context st)))"

fun scan_lit :: "string \<Rightarrow> string \<Rightarrow> string \<Rightarrow> jerr + string" where
  "scan_lit name [] s = Inr s"
| "scan_lit name (x # xs) [] = Inl eof"
| "scan_lit name (x # xs) (c # s) =
     (if c = x then scan_lit name xs s
      else Inl (bad c (''in literal '' @ name @ '' (expecting '' @ CHR 0x27 # x # CHR 0x27 # '')'')))"

section \<open>Parsing\<close>

definition begin_value :: "char \<Rightarrow> string \<Rightarrow> json presult" where
  "begin_value c t =
     (if c = dq then map_sum id (\<lambda>(x, r). (JStr x, r)) (scan_str InStr t)
      else if c = CHR ''-'' then map_sum id (\<lambda>(x, r). (JNum (c # x), r)) (scan_num NNeg t)
      else if c = CHR ''0'' then map_sum id (\<lambda>(x, r). (JNum (c # x), r)) (scan_num NZero t)
      else if nonzero_digit c then map_sum id (\<lambda>(x, r). (JNum (c # x), r)) (scan_num NInt t)
      else if c = CHR ''t'' then map_sum id (Pair (JBool True)) (scan_lit ''true'' ''rue'' t)
      else if c = CHR ''f'' then map_sum id (Pair (JBool False)) (scan_lit ''false'' ''alse'' t)
      else if c = CHR ''n'' then map_sum id (Pair JNull) (scan_lit ''null'' ''ull'' t)
      else Inl (bad c ''looking for beginning of value''))"

text \<open>The key of a member with its colon.\<close>

definition pkey :: "string \<Rightarrow> string presult" where
  "pkey s =
     (case skip_ws s of
        [] \<Rightarrow> Inl eof
      | c # t \<Rightarrow>
          if c \<noteq> dq then Inl (bad c ''looking for beginning of object key string'')
          else (case scan_str InStr t of
                  Inl err \<Rightarrow> Inl err
                | Inr (k, u) \<Rightarrow>
                    (case skip_ws u of
                       [] \<Rightarrow> Inl eof
                     | x # v \<Rightarrow> if x = CHR '':'' then Inr (k, v) else Inl (bad x ''after object key''))))"

fun pvalue :: "nat \<Rightarrow> nat \<Rightarrow> string \<Rightarrow> json presult"
  and pelems :: "nat \<Rightarrow> nat \<Rightarrow> string \<Rightarrow> json list presult"
  and pmembers :: "nat \<Rightarrow> nat \<Rightarrow> string \<Rightarrow> (string \<times> json) list presult" where
  "pvalue 0 d s = Inl JFuel"
| "pvalue (Suc n) d s =
     (case skip_ws s of
        [] \<Rightarrow> Inl eof
      | c # t \<Rightarrow>
          if c = CHR ''{'' then
            (case d of
               0 \<Rightarrow> Inl (bad c ''exceeded max depth'')
             | Suc d' \<Rightarrow>
                 (case skip_ws t of
                    [] \<Rightarrow> Inl eof
                  | x # u \<Rightarrow> if x = CHR ''}'' then Inr (JObj [], u)
                             else map_sum id (\<lambda>(ms, r). (JObj ms, r)) (pmembers n d' (x # u))))
          else if c = CHR ''['' then
            (case d of
               0 \<Rightarrow> Inl (bad c ''exceeded max depth'')
             | Suc d' \<Rightarrow>
                 (case skip_ws t of
                    [] \<Rightarrow> Inl eof
                  | x # u \<Rightarrow> if x = CHR '']'' then Inr (JArr [], u)
                             else map_sum id (\<lambda>(vs, r). (JArr vs, r)) (pelems n d' (x # u))))
          else begin_value c t)"
| "pelems 0 d s = Inl JFuel"
| "pelems (Suc n) d s =
     (case pvalue n d s of
        Inl err \<Rightarrow> Inl err
      | Inr (v, t) \<Rightarrow>
          (case skip_ws t of
             [] \<Rightarrow> Inl eof
           | x # u \<Rightarrow>
               if x = CHR '','' then map_sum id (\<lambda>(vs, r). (v # vs, r)) (pelems n d u)
               else if x = CHR '']'' then Inr ([v], u)
               else Inl (bad x ''after array element'')))"
| "pmembers 0 d s = Inl JFuel"
| "pmembers (Suc n) d s =
     (case pkey s of
        Inl err \<Rightarrow> Inl err
      | Inr (k, t0) \<Rightarrow>
          (case pvalue n d t0 of
             Inl err \<Rightarrow> Inl err
           | Inr (v, t) \<Rightarrow>
               (case skip_ws t of
                  [] \<Rightarrow> Inl eof
                | x # u \<Rightarrow>
                    if x = CHR '','' then map_sum id (\<lambda>(ms, r). ((k, v) # ms, r)) (pmembers n d u)
                    else if x = CHR ''}'' then Inr ([(k, v)], u)
                    else Inl (bad x ''after object key:value pair''))))"

definition max_depth :: nat where "max_depth = 10000"

definition parse_json :: "string \<Rightarrow> jerr + json" where
  "parse_json s =
     (case pvalue (2 * length s + 2) max_depth s of
        Inl err \<Rightarrow> Inl err
      | Inr (j, r) \<Rightarrow>
          (case skip_ws r of
             [] \<Rightarrow> Inr j
           | c # _ \<Rightarrow> Inl (bad c ''after top-level value'')))"

section \<open>Printing\<close>

fun commas :: "string list \<Rightarrow> string" where
  "commas [] = []"
| "commas [x] = x"
| "commas (x # y # r) = x @ CHR '','' # commas (y # r)"

fun print_json :: "json \<Rightarrow> string" where
  "print_json JNull = ''null''"
| "print_json (JBool b) = (if b then ''true'' else ''false'')"
| "print_json (JNum s) = s"
| "print_json (JStr s) = dq # s @ [dq]"
| "print_json (JArr vs) = CHR ''['' # commas (map print_json vs) @ '']''"
| "print_json (JObj ms) =
     CHR ''{'' # commas (map (\<lambda>(k, v). dq # k @ dq # CHR '':'' # print_json v) ms) @ ''}''"

section \<open>The fuel is enough\<close>

lemma push_Inr: "push c r = Inr (x, y) \<longleftrightarrow> (\<exists>x'. x = c # x' \<and> r = Inr (x', y))"
  by (cases r) (auto simp: push_def)

lemma push_Inl [simp]: "push c r = Inl e \<longleftrightarrow> r = Inl e"
  by (cases r) (auto simp: push_def)

lemma map_sum_Inr: "map_sum id f r = Inr y \<longleftrightarrow> (\<exists>x. r = Inr x \<and> f x = y)"
  by (cases r) auto

lemma map_sum_Inl [simp]: "map_sum id f r = Inl e \<longleftrightarrow> r = Inl e"
  by (cases r) auto

lemma skip_ws_length: "length (skip_ws s) \<le> length s"
  by (simp add: skip_ws_def length_dropWhile_le)

lemma skip_ws_Cons_length: "skip_ws s = c # t \<Longrightarrow> Suc (length t) \<le> length s"
  using skip_ws_length [of s] by simp

lemma scan_str_rest: "scan_str st s = Inr (x, y) \<Longrightarrow> s = x @ dq # y"
  by (induction st s arbitrary: x rule: scan_str.induct) (auto simp: push_Inr split: if_splits)

lemma scan_num_rest: "scan_num st s = Inr (x, y) \<Longrightarrow> s = x @ y"
  by (induction st s arbitrary: x rule: scan_num.induct) (auto simp: push_Inr split: if_splits option.splits)

lemma scan_lit_rest: "scan_lit name xs s = Inr y \<Longrightarrow> s = xs @ y"
  by (induction name xs s rule: scan_lit.induct) (auto split: if_splits)

lemma scan_str_no_fuel: "scan_str st s \<noteq> Inl JFuel"
  by (induction st s rule: scan_str.induct) (auto simp: eof_def bad_def)

lemma scan_num_no_fuel: "scan_num st s \<noteq> Inl JFuel"
  by (induction st s rule: scan_num.induct) (auto simp: eof_def bad_def split: option.split)

lemma scan_lit_no_fuel: "scan_lit name xs s \<noteq> Inl JFuel"
  by (induction name xs s rule: scan_lit.induct) (auto simp: eof_def bad_def)

lemmas no_fuel_scan = scan_str_no_fuel scan_num_no_fuel scan_lit_no_fuel

lemma begin_value_rest: "begin_value c t = Inr (v, r) \<Longrightarrow> length r \<le> length t"
  by (auto simp: begin_value_def map_sum_Inr split: if_splits
      dest!: scan_str_rest scan_num_rest scan_lit_rest)

lemma pkey_rest: "pkey s = Inr (k, t) \<Longrightarrow> length t < length s"
  by (auto simp: pkey_def split: list.splits if_splits sum.splits dest!: scan_str_rest skip_ws_Cons_length)

lemma no_fuel_begin: "begin_value c t \<noteq> Inl JFuel" "pkey s \<noteq> Inl JFuel"
  using no_fuel_scan by (auto simp: begin_value_def pkey_def bad_def eof_def split: list.splits sum.splits)

text \<open>Parsing consumes input, so fuel that is twice the input is enough.\<close>

lemma parse_rest:
  "pvalue n d s = Inr (v, r) \<Longrightarrow> length r < length s"
  "pelems n d s = Inr (vs, r) \<Longrightarrow> length r < length s"
  "pmembers n d s = Inr (ms, r) \<Longrightarrow> length r < length s"
proof (induction n d s and n d s and n d s arbitrary: v r and vs r and ms r
    rule: pvalue_pelems_pmembers.induct)
  case (2 n d s)
  then show ?case
    by (auto simp: map_sum_Inr split: list.splits if_splits nat.splits
        dest!: skip_ws_Cons_length begin_value_rest) fastforce+
next
  case (4 n d s)
  then show ?case
    by (auto simp: map_sum_Inr split: list.splits if_splits sum.splits dest!: skip_ws_Cons_length) fastforce+
next
  case (6 n d s)
  then show ?case
    by (auto simp: map_sum_Inr split: list.splits if_splits sum.splits dest!: skip_ws_Cons_length pkey_rest) fastforce+
qed simp_all

lemma parse_no_fuel:
  "2 * length s + 1 \<le> n \<Longrightarrow> pvalue n d s \<noteq> Inl JFuel"
  "2 * length s + 2 \<le> n \<Longrightarrow> pelems n d s \<noteq> Inl JFuel"
  "2 * length s + 2 \<le> n \<Longrightarrow> pmembers n d s \<noteq> Inl JFuel"
proof (induction n d s and n d s and n d s rule: pvalue_pelems_pmembers.induct)
  case (2 n d s)
  show ?case
  proof (cases "skip_ws s")
    case Nil
    then show ?thesis by (simp add: eof_def)
  next
    case (Cons c t)
    have fuel: "2 * length (x # u) + 2 \<le> n" if "skip_ws t = x # u" for x u
      using skip_ws_Cons_length [OF Cons] skip_ws_Cons_length [OF that] "2.prems" by simp
    have obj: "pmembers n d' (x # u) \<noteq> Inl JFuel"
      if "c = CHR ''{''" "d = Suc d'" "skip_ws t = x # u" "x \<noteq> CHR ''}''" for d' x u
      by (rule "2.IH"(1) [OF Cons that fuel [OF that(3)]])
    have arr: "pelems n d' (x # u) \<noteq> Inl JFuel"
      if "c = CHR ''[''" "d = Suc d'" "skip_ws t = x # u" "x \<noteq> CHR '']''" for d' x u
      by (rule "2.IH"(2) [OF Cons _ that fuel [OF that(3)]]) (simp add: that(1))
    show ?thesis
      using obj arr no_fuel_begin(1) by (auto simp: Cons eof_def bad_def split: nat.split list.split)
  qed
next
  case (4 n d s)
  have more: "pelems n d u \<noteq> Inl JFuel" if "pvalue n d s = Inr (v, t)" "skip_ws t = CHR '','' # u" for v t u
    using parse_rest(1) [OF that(1)] skip_ws_Cons_length [OF that(2)] "4.prems"
    by (intro "4.IH"(2) [OF that(1) refl that(2) refl]) simp
  have "pvalue n d s \<noteq> Inl JFuel" using "4.IH"(1) "4.prems" by simp
  with more show ?case
    by (auto simp: eof_def bad_def split: list.splits sum.splits if_splits)
next
  case (6 n d s)
  have val: "pvalue n d t0 \<noteq> Inl JFuel" if "pkey s = Inr (k, t0)" for k t0
    using pkey_rest [OF that] "6.prems" by (intro "6.IH"(1) [OF that refl]) simp
  have more: "pmembers n d u \<noteq> Inl JFuel"
    if "pkey s = Inr (k, t0)" "pvalue n d t0 = Inr (v, t)" "skip_ws t = CHR '','' # u" for k t0 v t u
    using pkey_rest [OF that(1)] parse_rest(1) [OF that(2)] skip_ws_Cons_length [OF that(3)] "6.prems"
    by (intro "6.IH"(2) [OF that(1) refl that(2) refl that(3) refl]) simp
  show ?case
    using val more no_fuel_begin(2) by (auto simp: eof_def bad_def split: list.splits sum.splits if_splits)
qed simp_all

lemma parse_no_fuel_error: "parse_json s \<noteq> Inl JFuel"
  using parse_no_fuel(1) [of s "2 * length s + 2" max_depth]
  by (auto simp: parse_json_def bad_def split: sum.splits list.splits)

section \<open>Printing and parsing are inverse\<close>

text \<open>Values whose literals the scanner accepts and whose nesting is within the limit.\<close>

definition raw_ok :: "string \<Rightarrow> bool" where
  "raw_ok x \<longleftrightarrow> scan_str InStr (x @ [dq]) = Inr (x, [])"

definition num_ok :: "string \<Rightarrow> bool" where
  "num_ok x \<longleftrightarrow> (case x of [] \<Rightarrow> False | c # t \<Rightarrow> begin_value c t = Inr (JNum x, []))"

fun json_ok :: "nat \<Rightarrow> json \<Rightarrow> bool" where
  "json_ok d JNull = True"
| "json_ok d (JBool b) = True"
| "json_ok d (JNum x) = num_ok x"
| "json_ok d (JStr x) = raw_ok x"
| "json_ok d (JArr vs) = (0 < d \<and> list_all (json_ok (d - 1)) vs)"
| "json_ok d (JObj ms) = (0 < d \<and> list_all (\<lambda>(k, v). raw_ok k \<and> json_ok (d - 1) v) ms)"

definition delim :: "string \<Rightarrow> bool" where
  "delim r \<longleftrightarrow> r = [] \<or> hd r \<in> {CHR '','', CHR '']'', CHR ''}''}"

lemma skip_ws_Cons: "\<not> is_space c \<Longrightarrow> skip_ws (c # s) = c # s"
  by (simp add: skip_ws_def)

lemma not_space [simp]:
  "\<not> is_space (CHR '','')" "\<not> is_space (CHR '']'')" "\<not> is_space (CHR ''}'')" "\<not> is_space (CHR '':'')"
  "\<not> is_space (CHR ''['')" "\<not> is_space (CHR ''{'')" "\<not> is_space dq"
  by (simp_all add: is_space_def dq_def)

lemma skip_ws_delim: "delim r \<Longrightarrow> skip_ws r = r"
  by (cases r) (auto simp: delim_def skip_ws_Cons, simp add: skip_ws_def)

lemma push_append: "push c r = Inr (x, y) \<Longrightarrow> push c (map_sum id (\<lambda>(x, y). (x, y @ z)) r) = Inr (x, y @ z)"
  by (cases r) (auto simp: push_def)

lemma scan_str_append: "scan_str st s = Inr (x, y) \<Longrightarrow> scan_str st (s @ r) = Inr (x, y @ r)"
  by (induction st s arbitrary: x rule: scan_str.induct) (auto simp: push_Inr split: if_splits)

lemma scan_num_append: "scan_num st s = Inr (x, []) \<Longrightarrow> delim r \<Longrightarrow> scan_num st (s @ r) = Inr (x, r)"
proof (induction st s arbitrary: x rule: scan_num.induct)
  case (1 st)
  then show ?case
    by (cases r; cases st) (auto simp: delim_def num_next_def num_end_def is_digit_def split: if_splits)
next
  case (2 st c s)
  then show ?case by (auto simp: push_Inr split: option.splits if_splits)
qed

lemma raw_ok_scan: "raw_ok x \<Longrightarrow> scan_str InStr (x @ dq # r) = Inr (x, r)"
  using scan_str_append [of InStr "x @ [dq]" x "[]" r] by (simp add: raw_ok_def)

lemma num_ok_begin:
  assumes "num_ok x" and "delim r"
  obtains c t where "x = c # t" and "c = CHR ''-'' \<or> is_digit c" and "begin_value c (t @ r) = Inr (JNum x, r)"
proof (cases x)
  case (Cons c t)
  have lit: "map_sum id (Pair (JBool b)) y \<noteq> Inr (JNum x, [])" "map_sum id (Pair JNull) y \<noteq> Inr (JNum x, [])"
    "map_sum id (\<lambda>(x, r). (JStr x, r)) z \<noteq> Inr (JNum x, [])" for b y and z :: "string presult"
    by (cases y; cases z; auto)+
  show ?thesis
  proof (rule that [OF Cons])
    show "c = CHR ''-'' \<or> is_digit c" "begin_value c (t @ r) = Inr (JNum x, r)"
      using assms Cons lit unfolding num_ok_def begin_value_def list.case
      by (auto simp: map_sum_Inr nonzero_digit_def split: if_splits dest: scan_num_append [OF _ assms(2)])
        (simp add: is_digit_def)
  qed
qed (use assms in \<open>simp add: num_ok_def\<close>)

lemma print_json_Cons:
  assumes "json_ok d j"
  obtains c t where "print_json j = c # t" and "\<not> is_space c" and "c \<noteq> CHR '']''" and "c \<noteq> CHR ''}''"
proof (cases j)
  case (JNum x)
  with assms have "num_ok x" by simp
  moreover have "delim []" by (simp add: delim_def)
  ultimately obtain c t where ct: "x = c # t" "c = CHR ''-'' \<or> is_digit c" by (rule num_ok_begin)
  then show ?thesis
    by (intro that [of c t]) (auto simp: JNum is_space_def is_digit_def)
next
  case (JBool b)
  then show ?thesis by (cases b) (auto intro!: that simp: is_space_def)
qed (auto intro!: that simp: is_space_def dq_def)

lemma length_commas: "length (commas xs) = sum_list (map length xs) + (length xs - 1)"
  by (induction xs rule: commas.induct) simp_all

text \<open>A list of printed values in brackets, given that each of them parses back.\<close>

lemma pelems_print:
  assumes "vs \<noteq> []" and "\<And>v n r. v \<in> set vs \<Longrightarrow> delim r \<Longrightarrow> 2 * length (print_json v) + 1 \<le> n
      \<Longrightarrow> pvalue n d (print_json v @ r) = Inr (v, r)"
    and "2 * length (commas (map print_json vs)) + 2 \<le> n"
  shows "pelems n d (commas (map print_json vs) @ CHR '']'' # r) = Inr (vs, r)"
  using assms
proof (induction vs arbitrary: n)
  case (Cons v vs)
  then obtain m where n: "n = Suc m" by (cases n) auto
  show ?case
  proof (cases vs)
    case Nil
    have "pvalue m d (print_json v @ CHR '']'' # r) = Inr (v, CHR '']'' # r)"
      by (rule Cons.prems(2)) (use Cons.prems(3) Nil n in \<open>simp_all add: delim_def\<close>)
    then show ?thesis by (simp add: n Nil skip_ws_Cons)
  next
    case (Cons v' vs')
    let ?rest = "commas (map print_json vs) @ CHR '']'' # r"
    have "pvalue m d (print_json v @ CHR '','' # ?rest) = Inr (v, CHR '','' # ?rest)"
      by (rule Cons.prems(2)) (use Cons.prems(3) Cons n in \<open>simp_all add: delim_def\<close>)
    moreover have "pelems m d ?rest = Inr (vs, r)"
      using Cons.IH [of m] Cons.prems(2,3) Cons n by simp
    ultimately show ?thesis using Cons by (simp add: n skip_ws_Cons)
  qed
qed simp

abbreviation print_member :: "string \<times> json \<Rightarrow> string" where
  "print_member \<equiv> \<lambda>(k, v). dq # k @ dq # CHR '':'' # print_json v"

lemma pmembers_print:
  assumes "ms \<noteq> []" and "\<And>k v n r. (k, v) \<in> set ms \<Longrightarrow> delim r \<Longrightarrow> 2 * length (print_json v) + 1 \<le> n
      \<Longrightarrow> pvalue n d (print_json v @ r) = Inr (v, r)"
    and "\<And>k v. (k, v) \<in> set ms \<Longrightarrow> raw_ok k"
    and "2 * length (commas (map print_member ms)) + 2 \<le> n"
  shows "pmembers n d (commas (map print_member ms) @ CHR ''}'' # r) = Inr (ms, r)"
  using assms
proof (induction ms arbitrary: n)
  case (Cons m ms)
  then obtain f where n: "n = Suc f" by (cases n) auto
  obtain k v where m: "m = (k, v)" by (cases m)
  have "raw_ok k" by (rule Cons.prems(3) [of k v]) (simp add: m)
  then have key: "pkey (dq # k @ dq # CHR '':'' # s) = Inr (k, s)" for s
    by (simp add: pkey_def skip_ws_Cons raw_ok_scan)
  show ?case
  proof (cases ms)
    case Nil
    have "pvalue f d (print_json v @ CHR ''}'' # r) = Inr (v, CHR ''}'' # r)"
      by (rule Cons.prems(2) [of k]) (use Cons.prems(4) Nil n m in \<open>simp_all add: delim_def\<close>)
    then show ?thesis by (simp add: n m Nil skip_ws_Cons key)
  next
    case (Cons m' ms')
    let ?rest = "commas (map print_member ms) @ CHR ''}'' # r"
    have "pvalue f d (print_json v @ CHR '','' # ?rest) = Inr (v, CHR '','' # ?rest)"
      by (rule Cons.prems(2) [of k]) (use Cons.prems(4) Cons n m in \<open>simp_all add: delim_def\<close>)
    moreover have "pmembers f d ?rest = Inr (ms, r)"
    proof (rule Cons.IH)
      show "raw_ok k" if "(k, v) \<in> set ms" for k v by (rule Cons.prems(3) [of k v]) (simp add: that)
      show "pvalue n d (print_json v @ r) = Inr (v, r)"
        if "(k, v) \<in> set ms" "delim r" "2 * length (print_json v) + 1 \<le> n" for k v n r
        by (rule Cons.prems(2) [of k]) (use that in simp_all)
    qed (use Cons Cons.prems(4) n m in simp_all)
    ultimately show ?thesis using Cons by (simp add: n m skip_ws_Cons key)
  qed
qed simp

lemma commas_print_Cons:
  assumes "vs \<noteq> []" and "json_ok d (hd vs)"
  obtains c t where "commas (map print_json vs) = c # t" and "\<not> is_space c" and "c \<noteq> CHR '']''"
proof -
  obtain v vs' where vs: "vs = v # vs'" using assms(1) by (cases vs) auto
  have "json_ok d v" using assms(2) vs by simp
  then obtain c t where "print_json v = c # t" "\<not> is_space c" "c \<noteq> CHR '']''" by (rule print_json_Cons)
  then show ?thesis by (cases vs') (auto intro!: that simp: vs)
qed

lemma pvalue_array:
  assumes "json_ok (Suc d) (JArr vs)" and "2 * length (print_json (JArr vs)) + 1 \<le> Suc m"
    and "\<And>v d n r. v \<in> set vs \<Longrightarrow> json_ok d v \<Longrightarrow> delim r \<Longrightarrow> 2 * length (print_json v) + 1 \<le> n
      \<Longrightarrow> pvalue n d (print_json v @ r) = Inr (v, r)"
  shows "pvalue (Suc m) (Suc d) (print_json (JArr vs) @ r) = Inr (JArr vs, r)"
proof (cases "vs = []")
  case True
  then show ?thesis by (simp add: skip_ws_Cons)
next
  case False
  have ok: "json_ok d v" if "v \<in> set vs" for v using assms(1) that by (auto simp: list_all_iff)
  have "pelems m d (commas (map print_json vs) @ CHR '']'' # r) = Inr (vs, r)"
    by (rule pelems_print [OF False]) (use assms(2,3) ok in auto)
  moreover obtain c t where "commas (map print_json vs) = c # t" "\<not> is_space c" "c \<noteq> CHR '']''"
    using commas_print_Cons [OF False ok] False by (metis hd_in_set)
  ultimately show ?thesis by (simp add: skip_ws_Cons)
qed

lemma pvalue_object:
  assumes "json_ok (Suc d) (JObj ms)" and "2 * length (print_json (JObj ms)) + 1 \<le> Suc m"
    and "\<And>k v d n r. (k, v) \<in> set ms \<Longrightarrow> json_ok d v \<Longrightarrow> delim r \<Longrightarrow> 2 * length (print_json v) + 1 \<le> n
      \<Longrightarrow> pvalue n d (print_json v @ r) = Inr (v, r)"
  shows "pvalue (Suc m) (Suc d) (print_json (JObj ms) @ r) = Inr (JObj ms, r)"
proof (cases ms)
  case Nil
  then show ?thesis by (simp add: skip_ws_Cons)
next
  case (Cons kv ms')
  then have ne: "ms \<noteq> []" by simp
  have ok: "json_ok d v" "raw_ok k" if "(k, v) \<in> set ms" for k v
    using assms(1) that by (auto simp: list_all_iff)
  have "pmembers m d (commas (map print_member ms) @ CHR ''}'' # r) = Inr (ms, r)"
    by (rule pmembers_print [OF ne]) (use assms(2,3) ok in auto)
  moreover obtain t where "commas (map print_member ms) = dq # t"
    by (cases kv; cases ms') (auto simp: Cons)
  ultimately show ?thesis by (simp add: skip_ws_Cons) (simp add: dq_def)
qed

lemma pvalue_print:
  "json_ok d j \<Longrightarrow> delim r \<Longrightarrow> 2 * length (print_json j) + 1 \<le> n
     \<Longrightarrow> pvalue n d (print_json j @ r) = Inr (j, r)"
proof (induction j arbitrary: d n r)
  case JNull
  then show ?case by (cases n) (simp_all add: skip_ws_def is_space_def begin_value_def dq_def nonzero_digit_def is_digit_def)
next
  case (JBool b)
  then show ?case by (cases n; cases b)
      (simp_all add: skip_ws_def is_space_def begin_value_def dq_def nonzero_digit_def is_digit_def)
next
  case (JNum x)
  from JNum.prems(1) have "num_ok x" by simp
  from num_ok_begin [OF this JNum.prems(2)] obtain c t where ct: "x = c # t" "c = CHR ''-'' \<or> is_digit c"
    "begin_value c (t @ r) = Inr (JNum x, r)" .
  then have "\<not> is_space c" "c \<noteq> CHR ''{''" "c \<noteq> CHR ''[''" by (auto simp: is_space_def is_digit_def)
  with ct JNum.prems(3) show ?case by (cases n) (simp_all add: skip_ws_Cons)
next
  case (JStr x)
  then show ?case
    by (cases n) (simp_all add: skip_ws_Cons begin_value_def raw_ok_scan, simp add: dq_def)
next
  case (JArr vs)
  then obtain m d' where "n = Suc m" "d = Suc d'" by (cases n; cases d) auto
  with JArr show ?case using pvalue_array [of d' vs m r] by blast
next
  case (JObj ms)
  then obtain m d' where "n = Suc m" "d = Suc d'" by (cases n; cases d) auto
  moreover have "pvalue n d (print_json v @ r) = Inr (v, r)"
    if "(k, v) \<in> set ms" "json_ok d v" "delim r" "2 * length (print_json v) + 1 \<le> n" for k v d n r
    by (rule JObj.IH [OF that(1) _ that(2-4)]) (simp add: snds.intros)
  ultimately show ?case using JObj.prems pvalue_object [of d' ms m r] by blast
qed

lemma parse_print: "json_ok max_depth j \<Longrightarrow> parse_json (print_json j) = Inr j"
  using pvalue_print [of max_depth j "[]" "2 * length (print_json j) + 2"]
  by (simp add: parse_json_def delim_def skip_ws_def)

end
