(* ===== verification/Go_Time.thy ===== *)
theory Go_Time
  imports Go_Strings "HOL-Library.Monad_Syntax"
begin

text \<open>
  Go's \<open>time\<close> package as far as the queue uses it. An instant is the number of nanoseconds
  since the Unix epoch; the queue stores instants as \<open>time.RFC3339\<close> text and reads them back
  with \<open>time.Parse\<close>. Formatting needs the proleptic Gregorian calendar and the zone offset
  of the instant; parsing follows the package's chunk-by-chunk parser, with its leniencies (a
  one-digit hour, a fraction after the seconds, offsets up to 24:60). The main result is
  \<open>parse_format_rfc3339\<close>: a formatted instant parses back to itself, cut to the second.
\<close>

type_synonym time = int
type_synonym duration = int

definition second :: int where
  "second = 1000000000"

section \<open>The calendar\<close>

definition is_leap :: "int \<Rightarrow> bool" where
  "is_leap y \<longleftrightarrow> y mod 4 = 0 \<and> (y mod 100 \<noteq> 0 \<or> y mod 400 = 0)"

definition month_lengths :: "int \<Rightarrow> int list" where
  "month_lengths y = [31, if is_leap y then 29 else 28, 31, 30, 31, 30, 31, 31, 30, 31, 30, 31]"

definition days_in :: "int \<Rightarrow> int \<Rightarrow> int" where
  "days_in m y = (if 1 \<le> m \<and> m \<le> 12 then month_lengths y ! nat (m - 1) else 0)"

text \<open>Days from 1 January of year 1 to 1 January of year \<open>y\<close>.\<close>

definition days_before_year :: "int \<Rightarrow> int" where
  "days_before_year y = (let p = y - 1 in 365 * p + p div 4 - p div 100 + p div 400)"

text \<open>The days of a date counted from the Unix epoch (day 719162 of the count from year 1).\<close>

definition days_of_date :: "int \<Rightarrow> int \<Rightarrow> int \<Rightarrow> int" where
  "days_of_date y m d =
     days_before_year y + sum_list (take (nat (m - 1)) (month_lengths y)) + (d - 1) - 719162"

fun find_month :: "int \<Rightarrow> int list \<Rightarrow> int \<Rightarrow> int \<times> int" where
  "find_month m [] yd = (m, yd + 1)"
| "find_month m (l # ls) yd = (if yd < l then (m, yd + 1) else find_month (m + 1) ls (yd - l))"

text \<open>The year and the day in the year: 400-year, 100-year, 4-year and 1-year cycles, where the
  last century of a 400-year cycle and the last year of a 4-year cycle are one day longer.\<close>

definition year_of_days :: "int \<Rightarrow> int \<times> int" where
  "year_of_days d0 =
     (let q400 = d0 div 146097; r400 = d0 mod 146097;
          n100 = min 3 (r400 div 36524); r100 = r400 - 36524 * n100;
          n4 = r100 div 1461; r4 = r100 mod 1461;
          n1 = min 3 (r4 div 365)
      in (400 * q400 + 100 * n100 + 4 * n4 + n1 + 1, r4 - 365 * n1))"

definition date_of_days :: "int \<Rightarrow> int \<times> int \<times> int" where
  "date_of_days d =
     (let (y, yd) = year_of_days (d + 719162); (m, dd) = find_month 1 (month_lengths y) yd
      in (y, m, dd))"

lemma min3_div:
  fixes r k b :: int
  assumes "0 \<le> r" and "r \<le> 4 * b" and "0 < b" and "k = min 3 (r div b)"
  shows "0 \<le> k" and "k \<le> 3" and "0 \<le> r - b * k" and "r - b * k \<le> b"
    and "r - b * k = b \<Longrightarrow> k = 3 \<and> r = 4 * b"
proof -
  define d m where "d = r div b" and "m = r mod b"
  have r: "r = b * d + m" "0 \<le> m" "m < b"
    using assms(3) by (simp_all add: d_def m_def)
  have d0: "0 \<le> d" using assms(1,3) by (simp add: d_def pos_imp_zdiv_nonneg_iff)
  have d4: "d \<le> 4"
    using zdiv_mono1 [OF assms(2,3)] assms(3) by (simp add: d_def)
  have k: "k = min 3 d" using assms(4) by (simp add: d_def)
  show "0 \<le> k" "k \<le> 3" using k d0 by simp_all
  have "(k = d \<and> d \<le> 3) \<or> (k = 3 \<and> d = 4)" using k d4 by linarith
  then show "0 \<le> r - b * k" and "r - b * k \<le> b" and "r - b * k = b \<Longrightarrow> k = 3 \<and> r = 4 * b"
    using r assms(2,3) by auto
qed

lemma days_before_year_cycles:
  assumes "0 \<le> c" and "c \<le> 3" and "0 \<le> f" and "f \<le> 24" and "0 \<le> n" and "n \<le> (3::int)"
    and y: "y = 400 * q + 100 * c + 4 * f + n + 1"
  shows "days_before_year y = 146097 * q + 36524 * c + 1461 * f + 365 * n"
proof -
  have "(y - 1) div 4 = 100 * q + 25 * c + f"
    by (rule int_div_pos_eq [of _ _ _ n]) (use assms in auto)
  moreover have "(y - 1) div 100 = 4 * q + c"
    by (rule int_div_pos_eq [of _ _ _ "4 * f + n"]) (use assms in auto)
  moreover have "(y - 1) div 400 = q"
    by (rule int_div_pos_eq [of _ _ _ "100 * c + 4 * f + n"]) (use assms in auto)
  ultimately show ?thesis
    using y by (simp add: days_before_year_def Let_def)
qed

lemma is_leap_cycles:
  assumes "0 \<le> c" and "c \<le> 3" and "0 \<le> f" and "f \<le> (24::int)" and "f < 24 \<or> c = 3"
    and y: "y = 400 * q + 100 * c + 4 * f + 4"
  shows "is_leap y"
proof -
  have "y mod 4 = 0"
    by (rule int_mod_pos_eq [of _ _ "100 * q + 25 * c + f + 1"]) (use y in auto)
  moreover have "y mod 100 \<noteq> 0 \<or> y mod 400 = 0"
  proof (cases "f < 24")
    case True
    have "y mod 100 = 4 * f + 4"
      by (rule int_mod_pos_eq [of _ _ "4 * q + c"]) (use assms True in auto)
    with assms(3) show ?thesis by simp
  next
    case False
    have "y mod 400 = 0"
      by (rule int_mod_pos_eq [of _ _ "q + 1"]) (use assms False in auto)
    then show ?thesis by simp
  qed
  ultimately show ?thesis by (simp add: is_leap_def)
qed

lemma year_of_days_correct:
  assumes "year_of_days d0 = (y, yd)"
  shows "days_before_year y + yd = d0" and "0 \<le> yd" and "yd < (if is_leap y then 366 else 365)"
proof -
  define q r where "q = d0 div 146097" and "r = d0 mod 146097"
  define c where "c = min 3 (r div 36524)"
  define r1 where "r1 = r - 36524 * c"
  define f r2 where "f = r1 div 1461" and "r2 = r1 mod 1461"
  define n where "n = min 3 (r2 div 365)"
  have "year_of_days d0 = (400 * q + 100 * c + 4 * f + n + 1, r2 - 365 * n)"
    by (simp only: year_of_days_def Let_def q_def r_def c_def r1_def f_def r2_def n_def)
  with assms have y: "y = 400 * q + 100 * c + 4 * f + n + 1" and yd: "yd = r2 - 365 * n"
    by simp_all
  have d0: "d0 = 146097 * q + r" and r: "0 \<le> r" "r \<le> 4 * 36524"
    using pos_mod_bound [of 146097 d0] by (simp_all add: q_def r_def)
  note c = min3_div [OF r _ c_def, folded r1_def, simplified]
  have r2: "r1 = 1461 * f + r2" "0 \<le> r2" "r2 \<le> 4 * 365"
    using pos_mod_bound [of 1461 r1] by (simp_all add: f_def r2_def)
  have f: "0 \<le> f" "f \<le> 24"
    using c(3) zdiv_mono1 [OF c(4), of 1461] by (simp_all add: f_def pos_imp_zdiv_nonneg_iff)
  note n = min3_div [OF r2(2,3) _ n_def, folded yd, simplified]
  show "days_before_year y + yd = d0"
    using days_before_year_cycles [OF c(1,2) f n(1,2) y] yd d0 r2(1) by (simp add: r1_def)
  show "0 \<le> yd" by (rule n(3))
  show "yd < (if is_leap y then 366 else 365)"
  proof (cases "yd = 365")
    case True
    with n(5) have n3: "n = 3" "r2 = 1460" by simp_all
    have "f = 24 \<Longrightarrow> c = 3"
      using n3(2) r2(1) c(4,5) by simp
    with f have "f < 24 \<or> c = 3" by linarith
    then have "is_leap y"
      by (rule is_leap_cycles [OF c(1,2) f]) (use y n3 in simp)
    with True show ?thesis by simp
  next
    case False
    with n(4) show ?thesis by simp
  qed
qed

lemma find_month_correct:
  assumes "find_month m ls yd = (m', d)" and "0 \<le> yd" and "yd < sum_list ls"
  shows "m \<le> m' \<and> m' < m + int (length ls) \<and> 1 \<le> d \<and> d \<le> ls ! nat (m' - m)
    \<and> sum_list (take (nat (m' - m)) ls) + (d - 1) = yd"
  using assms
proof (induction m ls yd rule: find_month.induct)
  case (1 m yd)
  then show ?case by simp
next
  case (2 m l ls yd)
  show ?case
  proof (cases "yd < l")
    case True
    with 2 show ?thesis by auto
  next
    case False
    with 2 have IH: "m + 1 \<le> m' \<and> m' < m + 1 + int (length ls) \<and> 1 \<le> d \<and> d \<le> ls ! nat (m' - (m + 1))
      \<and> sum_list (take (nat (m' - (m + 1))) ls) + (d - 1) = yd - l"
      by simp
    then have "nat (m' - m) = Suc (nat (m' - (m + 1)))" by linarith
    with IH show ?thesis by simp
  qed
qed

lemma sum_month_lengths: "sum_list (month_lengths y) = (if is_leap y then 366 else 365)"
  by (simp add: month_lengths_def)

lemma length_month_lengths [simp]: "length (month_lengths y) = 12"
  by (simp add: month_lengths_def)

lemma date_of_days_correct:
  assumes "date_of_days n = (y, m, d)"
  shows "1 \<le> m" and "m \<le> 12" and "1 \<le> d" and "d \<le> days_in m y" and "days_of_date y m d = n"
proof -
  obtain yd where yd: "year_of_days (n + 719162) = (y, yd)"
    and md: "find_month 1 (month_lengths y) yd = (m, d)"
    using assms by (auto simp: date_of_days_def Let_def split: prod.splits)
  note year = year_of_days_correct [OF yd]
  have month: "1 \<le> m \<and> m < 1 + int (length (month_lengths y)) \<and> 1 \<le> d
      \<and> d \<le> month_lengths y ! nat (m - 1)
      \<and> sum_list (take (nat (m - 1)) (month_lengths y)) + (d - 1) = yd"
    using year(3) by (intro find_month_correct [OF md year(2)]) (simp add: sum_month_lengths)
  show "1 \<le> m" "m \<le> 12" "1 \<le> d" "d \<le> days_in m y"
    using month by (simp_all add: days_in_def)
  show "days_of_date y m d = n"
    using month year(1) by (simp add: days_of_date_def)
qed

lemma days_in_bound: "days_in m y \<le> 31"
proof -
  have "\<forall>l \<in> set (month_lengths y). l \<le> 31"
    by (simp add: month_lengths_def)
  then show ?thesis
    by (auto simp: days_in_def)
qed

section \<open>RFC 3339 text\<close>

subsection \<open>Formatting\<close>

text \<open>\<open>time.appendInt\<close>: the decimal digits of \<open>x\<close>, padded with zeros to \<open>w\<close> places.\<close>

definition append_int :: "int \<Rightarrow> nat \<Rightarrow> string" where
  "append_int x w =
     (let ds = nat_digits (nat \<bar>x\<bar>)
      in (if x < 0 then ''-'' else []) @ replicate (w - length ds) (CHR ''0'') @ ds)"

text \<open>The zone of \<open>time.RFC3339\<close>: \<open>Z\<close> for offset 0, else sign, hours and minutes.\<close>

definition format_zone :: "int \<Rightarrow> string" where
  "format_zone off =
     (if off = 0 then ''Z''
      else let za = \<bar>off\<bar> div 60
           in (if off < 0 \<and> za \<noteq> 0 then ''-'' else ''+'')
              @ append_int (za div 60) 2 @ '':'' @ append_int (za mod 60) 2)"

text \<open>\<open>t.Format(time.RFC3339)\<close> for an instant \<open>t\<close> in a zone \<open>off\<close> seconds east
  of UTC; the layout \<open>time.RFC3339Nano\<close> has a fraction before the zone.\<close>

definition format_rfc3339_frac :: "string \<Rightarrow> int \<Rightarrow> time \<Rightarrow> string" where
  "format_rfc3339_frac frac off t =
     (let ls = t div second + off;
          (y, m, d) = date_of_days (ls div 86400);
          sod = ls mod 86400
      in append_int y 4 @ ''-'' @ append_int m 2 @ ''-'' @ append_int d 2 @ ''T''
         @ append_int (sod div 3600) 2 @ '':'' @ append_int (sod mod 3600 div 60) 2 @ '':''
         @ append_int (sod mod 60) 2 @ frac @ format_zone off)"

definition format_rfc3339 :: "int \<Rightarrow> time \<Rightarrow> string" where
  "format_rfc3339 off t = format_rfc3339_frac [] off t"

subsection \<open>Parsing\<close>

definition guard_opt :: "bool \<Rightarrow> unit option" where
  "guard_opt b = (if b then Some () else None)"

definition skip :: "char \<Rightarrow> string \<Rightarrow> string option" where
  "skip c s = (case s of [] \<Rightarrow> None | x # r \<Rightarrow> if x = c then Some r else None)"

text \<open>\<open>time.getnum\<close>: two digits, or one when \<open>fixed\<close> is false.\<close>

definition getnum :: "bool \<Rightarrow> string \<Rightarrow> (int \<times> string) option" where
  "getnum fixed s =
     (case s of
        [] \<Rightarrow> None
      | [c] \<Rightarrow> if is_digit c \<and> \<not> fixed then Some (int (digit_val c), []) else None
      | c # d # r \<Rightarrow>
          if \<not> is_digit c then None
          else if is_digit d then Some (int (10 * digit_val c + digit_val d), r)
          else if fixed then None else Some (int (digit_val c), d # r))"

definition getyear :: "string \<Rightarrow> (int \<times> string) option" where
  "getyear s =
     (case s of
        a # b # c # d # r \<Rightarrow>
          if list_all is_digit [a, b, c, d] then Some (int (digits_val 0 [a, b, c, d]), r) else None
      | _ \<Rightarrow> None)"

text \<open>A fraction of a second, which the parser accepts although the layout has none: any number
  of digits after a point or comma, of which the first nine count.\<close>

definition parse_frac :: "string \<Rightarrow> int \<times> string" where
  "parse_frac s =
     (case s of
        c # d # r \<Rightarrow>
          if (c = CHR ''.'' \<or> c = CHR '','') \<and> is_digit d
          then let ds = take 9 (takeWhile is_digit (d # r))
               in (int (digits_val 0 ds) * 10 ^ (9 - length ds), dropWhile is_digit (d # r))
          else (0, s)
      | _ \<Rightarrow> (0, s))"

definition parse_offset :: "char \<Rightarrow> string \<Rightarrow> string \<Rightarrow> int option" where
  "parse_offset sg hs ms = do {
     (hr, _) \<leftarrow> getnum True hs;
     (mm, _) \<leftarrow> getnum True ms;
     guard_opt (hr \<le> 24 \<and> mm \<le> 60);
     (if sg = CHR ''+'' then Some ((hr * 60 + mm) * 60)
      else if sg = CHR ''-'' then Some (- ((hr * 60 + mm) * 60)) else None) }"

definition parse_zone :: "string \<Rightarrow> (int \<times> string) option" where
  "parse_zone s =
     (case s of
        [] \<Rightarrow> None
      | z # r \<Rightarrow>
          if z = CHR ''Z'' then Some (0, r)
          else (case r of
                  h1 # h2 # col # m1 # m2 # r' \<Rightarrow>
                    if col = CHR '':''
                    then map_option (\<lambda>off. (off, r')) (parse_offset z [h1, h2] [m1, m2])
                    else None
                | _ \<Rightarrow> None))"

text \<open>\<open>time.Parse(time.RFC3339, s)\<close>, \<open>None\<close> for every parse error: the instant and the
  offset of its zone.\<close>

definition parse_rfc3339_zone :: "string \<Rightarrow> (time \<times> int) option" where
  "parse_rfc3339_zone s0 = do {
     (y, s1) \<leftarrow> getyear s0;
     s2 \<leftarrow> skip (CHR ''-'') s1;
     (mo, s3) \<leftarrow> getnum True s2;
     guard_opt (1 \<le> mo \<and> mo \<le> 12);
     s4 \<leftarrow> skip (CHR ''-'') s3;
     (d, s5) \<leftarrow> getnum True s4;
     s6 \<leftarrow> skip (CHR ''T'') s5;
     (h, s7) \<leftarrow> getnum False s6;
     guard_opt (h < 24);
     s8 \<leftarrow> skip (CHR '':'') s7;
     (mi, s9) \<leftarrow> getnum True s8;
     guard_opt (mi < 60);
     s10 \<leftarrow> skip (CHR '':'') s9;
     (sec, s11) \<leftarrow> getnum True s10;
     guard_opt (sec < 60);
     (let (ns, s12) = parse_frac s11 in do {
       (off, s13) \<leftarrow> parse_zone s12;
       guard_opt (s13 = []);
       guard_opt (1 \<le> d \<and> d \<le> days_in mo y);
       Some ((days_of_date y mo d * 86400 + h * 3600 + mi * 60 + sec - off) * second + ns, off) }) }"

definition parse_rfc3339 :: "string \<Rightarrow> time option" where
  "parse_rfc3339 s = map_option fst (parse_rfc3339_zone s)"

subsection \<open>A formatted instant parses back\<close>

text \<open>The digits of a number padded to a fixed width, one digit at a time.\<close>

fun pad_digits :: "nat \<Rightarrow> nat \<Rightarrow> string" where
  "pad_digits 0 n = []"
| "pad_digits (Suc w) n = pad_digits w (n div 10) @ [digit_char (n mod 10)]"

lemma pad_digits_0: "pad_digits w 0 = replicate w (CHR ''0'')"
  by (induction w) (simp_all add: digit_char_0 replicate_append_same)

lemma pad_nat_digits:
  assumes "n < 10 ^ w" and "0 < w"
  shows "replicate (w - length (nat_digits n)) (CHR ''0'') @ nat_digits n = pad_digits w n"
  using assms
proof (induction w arbitrary: n)
  case 0
  then show ?case by simp
next
  case (Suc w)
  show ?case
  proof (cases "n < 10")
    case True
    then show ?thesis
      by (simp add: nat_digits.simps [of n] pad_digits_0)
  next
    case False
    with Suc.prems have "n div 10 < 10 ^ w" and "0 < w"
      by (auto intro: gr0I simp: less_mult_imp_div_less)
    with Suc.IH [of "n div 10"] False show ?thesis
      by (simp add: nat_digits.simps [of n])
  qed
qed

lemma append_int_pad:
  assumes "0 \<le> n" and "nat n < 10 ^ w" and "0 < w"
  shows "append_int n w = pad_digits w (nat n)"
  using assms pad_nat_digits [of "nat n" w] by (simp add: append_int_def Let_def)

lemma length_pad_digits [simp]: "length (pad_digits w n) = w"
  by (induction w arbitrary: n) simp_all

lemma pad_digits_digits: "c \<in> set (pad_digits w n) \<Longrightarrow> is_digit c"
  by (induction w arbitrary: n) auto

lemma digits_val_pad_digits: "n < 10 ^ w \<Longrightarrow> digits_val 0 (pad_digits w n) = n"
  by (induction w arbitrary: n) (simp_all add: less_mult_imp_div_less)

lemma getnum_append_int:
  assumes "0 \<le> n" and "n < 100"
  shows "getnum fixed (append_int n 2 @ r) = Some (n, r)"
proof -
  have pad: "append_int n 2 = pad_digits 2 (nat n)"
    using assms by (intro append_int_pad) (simp_all add: nat_less_iff)
  obtain a b where ab: "pad_digits 2 (nat n) = [a, b]"
    using length_pad_digits [of 2 "nat n"] by (auto simp: numeral_2_eq_2 length_Suc_conv)
  then have "is_digit a" "is_digit b"
    using pad_digits_digits [of _ 2 "nat n"] by simp_all
  moreover have "10 * digit_val a + digit_val b = nat n"
    using assms digits_val_pad_digits [of "nat n" 2] by (simp add: ab nat_less_iff)
  then have "int (10 * digit_val a + digit_val b) = n" using assms(1) by linarith
  ultimately show ?thesis
    by (simp add: pad ab getnum_def)
qed

lemma pad_digits_4:
  obtains a b c d where "pad_digits 4 n = [a, b, c, d]"
proof -
  have "pad_digits (Suc (Suc (Suc (Suc 0)))) n
    = [digit_char (n div 10 div 10 div 10 mod 10), digit_char (n div 10 div 10 mod 10),
       digit_char (n div 10 mod 10), digit_char (n mod 10)]"
    by (simp only: pad_digits.simps append.simps)
  moreover have "(4::nat) = Suc (Suc (Suc (Suc 0)))" by simp
  ultimately show ?thesis using that by metis
qed

lemma getyear_append_int:
  assumes "0 \<le> y" and "y < 10000"
  shows "getyear (append_int y 4 @ r) = Some (y, r)"
proof -
  have pad: "append_int y 4 = pad_digits 4 (nat y)"
    using assms by (intro append_int_pad) (simp_all add: nat_less_iff)
  obtain a b c d where abcd: "pad_digits 4 (nat y) = [a, b, c, d]"
    by (rule pad_digits_4)
  then have "list_all is_digit [a, b, c, d]"
    using pad_digits_digits [of _ 4 "nat y"] by simp
  moreover have "digits_val 0 (pad_digits 4 (nat y)) = nat y"
    using assms by (intro digits_val_pad_digits) (simp add: nat_less_iff)
  then have "int (digits_val 0 [a, b, c, d]) = y"
    using assms(1) unfolding abcd by linarith
  ultimately show ?thesis
    by (simp add: pad abcd getyear_def)
qed

lemma skip_Cons [simp]: "skip c (c # r) = Some r"
  by (simp add: skip_def)

lemma guard_opt_True [simp]: "guard_opt True = Some ()"
  by (simp add: guard_opt_def)

text \<open>A zone offset that RFC 3339 can express: whole minutes, at most a day.\<close>

definition zone_ok :: "int \<Rightarrow> bool" where
  "zone_ok off \<longleftrightarrow> off mod 60 = 0 \<and> \<bar>off\<bar> \<le> 86400"

lemma parse_offset_append_int:
  assumes "0 \<le> h" and "h \<le> 24" and "0 \<le> m" and "m < 60" and "sg = CHR ''+'' \<or> sg = CHR ''-''"
  shows "parse_offset sg (append_int h 2) (append_int m 2)
    = Some (if sg = CHR ''+'' then (h * 60 + m) * 60 else - ((h * 60 + m) * 60))"
  using assms getnum_append_int [of h True "[]"] getnum_append_int [of m True "[]"]
  by (auto simp: parse_offset_def)

lemma append_int_2_Cons:
  assumes "0 \<le> n" and "n < 100"
  obtains a b where "append_int n 2 = [a, b]" and "is_digit a" and "is_digit b"
proof -
  have pad: "append_int n 2 = pad_digits 2 (nat n)"
    using assms by (intro append_int_pad) (simp_all add: nat_less_iff)
  obtain a b where ab: "pad_digits 2 (nat n) = [a, b]"
    using length_pad_digits [of 2 "nat n"] by (auto simp: numeral_2_eq_2 length_Suc_conv)
  with pad_digits_digits [of _ 2 "nat n"] that pad show ?thesis by simp
qed

lemma parse_zone_format_zone:
  assumes "zone_ok off"
  shows "parse_zone (format_zone off) = Some (off, [])"
proof (cases "off = 0")
  case True
  then show ?thesis by (simp add: format_zone_def parse_zone_def)
next
  case False
  define za h m where "za = \<bar>off\<bar> div 60" and "h = za div 60" and "m = za mod 60"
  obtain k where k: "off = 60 * k"
    using assms by (auto simp: zone_ok_def)
  then have zak: "za = \<bar>k\<bar>" by (simp add: za_def abs_mult)
  then have off: "\<bar>off\<bar> = za * 60" and "za \<noteq> 0" and za: "0 \<le> za" "za \<le> 1440"
    using assms False k by (simp_all add: zone_ok_def abs_mult)
  have hm: "0 \<le> h" "h \<le> 24" "0 \<le> m" "m < 60" "h * 60 + m = za"
    using za by (simp_all add: h_def m_def pos_imp_zdiv_nonneg_iff)
  then have "h < 100" "m < 100" by linarith+
  then obtain h1 h2 m1 m2 where h12: "append_int h 2 = [h1, h2]" and m12: "append_int m 2 = [m1, m2]"
    using append_int_2_Cons [of h thesis] append_int_2_Cons [of m thesis] hm by blast
  define sg where "sg = (if off < 0 then CHR ''-'' else CHR ''+'')"
  have fmt: "format_zone off = sg # h1 # h2 # CHR '':'' # m1 # m2 # []"
    using False \<open>za \<noteq> 0\<close> h12 m12
    by (simp add: format_zone_def Let_def za_def [symmetric] h_def [symmetric] m_def [symmetric] sg_def)
  have "parse_offset sg [h1, h2] [m1, m2] = Some off"
    using parse_offset_append_int [OF hm(1-4), of sg] off hm(5) False
    by (auto simp: h12 m12 sg_def)
  then show ?thesis
    by (auto simp: fmt parse_zone_def sg_def)
qed

text \<open>The instants \<open>time.RFC3339\<close> can write and read back: a zone of whole minutes and a
  local year of four digits.\<close>

definition rfc3339_ok :: "int \<Rightarrow> time \<Rightarrow> bool" where
  "rfc3339_ok off t \<longleftrightarrow>
     zone_ok off \<and> (let (y, m, d) = date_of_days ((t div second + off) div 86400) in 0 \<le> y \<and> y < 10000)"

lemma parse_frac_format_zone [simp]: "parse_frac (format_zone off) = (0, format_zone off)"
  by (cases "off = 0"; cases "off < 0 \<and> \<bar>off\<bar> div 60 \<noteq> 0")
    (simp_all add: format_zone_def Let_def parse_frac_def split: list.splits)

lemma parse_format_frac:
  assumes "rfc3339_ok off t" and frac: "parse_frac (frac @ format_zone off) = (ns, format_zone off)"
  shows "parse_rfc3339_zone (format_rfc3339_frac frac off t) = Some (t div second * second + ns, off)"
proof -
  define ls where "ls = t div second + off"
  define sod where "sod = ls mod 86400"
  define h mi sec where "h = sod div 3600" and "mi = sod mod 3600 div 60" and "sec = sod mod 60"
  obtain y m d where date: "date_of_days (ls div 86400) = (y, m, d)"
    by (cases "date_of_days (ls div 86400)") auto
  note cal = date_of_days_correct [OF date]
  have y: "0 \<le> y" "y < 10000" and z: "zone_ok off"
    using assms(1) date by (simp_all add: rfc3339_ok_def ls_def [symmetric])
  have d31: "d < 100" using cal(4) days_in_bound [of m y] by linarith
  have sod: "0 \<le> sod" "sod < 86400" by (simp_all add: sod_def)
  then have h: "0 \<le> h" "h < 24" and mi: "0 \<le> mi" "mi < 60" and sec: "0 \<le> sec" "sec < 60"
    by (simp_all add: h_def mi_def sec_def pos_imp_zdiv_nonneg_iff)
  have "sod = h * 3600 + sod mod 3600" and "sod mod 3600 = mi * 60 + sod mod 3600 mod 60"
    unfolding h_def mi_def by (simp_all only: div_mult_mod_eq)
  moreover have "sod mod 3600 mod 60 = sec"
    unfolding sec_def by (rule mod_mod_cancel) simp
  ultimately have split: "h * 3600 + mi * 60 + sec = sod" by linarith
  have fmt: "format_rfc3339_frac frac off t = append_int y 4 @ CHR ''-'' # append_int m 2 @ CHR ''-''
      # append_int d 2 @ CHR ''T'' # append_int h 2 @ CHR '':'' # append_int mi 2 @ CHR '':''
      # append_int sec 2 @ frac @ format_zone off"
    unfolding format_rfc3339_frac_def ls_def [symmetric] Let_def date prod.case
      sod_def [symmetric] h_def [symmetric] mi_def [symmetric] sec_def [symmetric] by simp
  have "ls div 86400 * 86400 + sod = ls"
    unfolding sod_def by (rule div_mult_mod_eq)
  then have "days_of_date y m d * 86400 + h * 3600 + mi * 60 + sec - off = t div second"
    unfolding cal(5) using split ls_def by linarith
  then show ?thesis
    using y cal d31 h mi sec
    by (simp add: fmt parse_rfc3339_zone_def getyear_append_int getnum_append_int frac
        parse_zone_format_zone [OF z])
qed

lemma parse_format_rfc3339:
  "rfc3339_ok off t \<Longrightarrow> parse_rfc3339 (format_rfc3339 off t) = Some (t div second * second)"
  using parse_format_frac [of off t "[]" 0] by (simp add: parse_rfc3339_def format_rfc3339_def)

text \<open>The text of an instant is never empty: an empty field means \<open>no instant\<close> in the
  queue's records, and no formatted instant collides with it.\<close>

lemma format_rfc3339_not_Nil: "format_rfc3339 off t \<noteq> []"
  by (simp add: format_rfc3339_def format_rfc3339_frac_def Let_def split: prod.splits)

lemma parse_rfc3339_Nil [simp]: "parse_rfc3339 [] = None"
  by (simp add: parse_rfc3339_def parse_rfc3339_zone_def getyear_def)

text \<open>\<open>time.RFC3339Nano\<close>: the nanoseconds as nine digits less the trailing zeros, nothing for
  a whole second. It parses back to the same instant.\<close>

definition frac_digits :: "int \<Rightarrow> string" where
  "frac_digits ns = rev (dropWhile (\<lambda>c. c = CHR ''0'') (rev (append_int ns 9)))"

definition format_rfc3339_nano :: "int \<Rightarrow> time \<Rightarrow> string" where
  "format_rfc3339_nano off t =
     format_rfc3339_frac (if t mod second = 0 then [] else CHR ''.'' # frac_digits (t mod second)) off t"

lemma digits_val_append: "digits_val a (s @ t) = digits_val (digits_val a s) t"
  by (simp add: digits_val_def)

lemma digits_val_zeros: "digits_val a (replicate k (CHR ''0'')) = a * 10 ^ k"
proof (induction k arbitrary: a)
  case (Suc k)
  have "digit_val (CHR ''0'') = 0" by code_simp
  with Suc show ?case by simp
qed simp

lemma frac_digits_value:
  assumes "0 < ns" and "ns < second"
  shows "frac_digits ns \<noteq> []" and "length (frac_digits ns) \<le> 9" and "list_all is_digit (frac_digits ns)"
    and "int (digits_val 0 (frac_digits ns)) * 10 ^ (9 - length (frac_digits ns)) = ns"
proof -
  let ?zero = "\<lambda>c. c = CHR ''0''"
  define ds where "ds = append_int ns 9"
  have ns: "nat ns < 10 ^ 9" using assms by (simp add: second_def)
  have ds: "ds = pad_digits 9 (nat ns)" using assms ns by (simp add: ds_def append_int_pad)
  have val: "digits_val 0 ds = nat ns" unfolding ds by (rule digits_val_pad_digits [OF ns])
  define k where "k = length (takeWhile ?zero (rev ds))"
  have k: "takeWhile ?zero (rev ds) = replicate k (CHR ''0'')"
    unfolding k_def by (rule replicate_length_same [symmetric]) (auto dest: set_takeWhileD)
  have "rev ds = replicate k (CHR ''0'') @ rev (frac_digits ns)"
    unfolding frac_digits_def ds_def [symmetric] using takeWhile_dropWhile_id [of ?zero "rev ds"] k by simp
  then have "rev (rev ds) = rev (replicate k (CHR ''0'') @ rev (frac_digits ns))" by simp
  then have split: "ds = frac_digits ns @ replicate k (CHR ''0'')" by simp
  have len: "length ds = 9" by (simp add: ds)
  have v: "nat ns = digits_val 0 (frac_digits ns) * 10 ^ k"
    using val unfolding split by (simp add: digits_val_append digits_val_zeros)
  show "frac_digits ns \<noteq> []" using v assms(1) by auto
  show l9: "length (frac_digits ns) \<le> 9" using len split by simp
  have "k = 9 - length (frac_digits ns)" using len split by simp
  moreover have "ns = int (digits_val 0 (frac_digits ns) * 10 ^ k)"
    using v assms(1) by (metis int_nat_eq less_imp_le)
  ultimately show "int (digits_val 0 (frac_digits ns)) * 10 ^ (9 - length (frac_digits ns)) = ns" by simp
  have "c \<in> set ds \<Longrightarrow> is_digit c" for c unfolding ds by (rule pad_digits_digits)
  then show "list_all is_digit (frac_digits ns)" by (auto simp: list_all_iff split)
qed

lemma parse_frac_text:
  assumes "0 < ns" and "ns < second"
  shows "parse_frac (CHR ''.'' # frac_digits ns @ format_zone off) = (ns, format_zone off)"
proof -
  note fd = frac_digits_value [OF assms]
  obtain d r where dr: "frac_digits ns = d # r" using fd(1) by (cases "frac_digits ns") auto
  have zone: "takeWhile is_digit (format_zone off) = []" "dropWhile is_digit (format_zone off) = format_zone off"
    by (simp_all add: format_zone_def Let_def is_digit_def)
  have tw: "takeWhile is_digit (frac_digits ns @ format_zone off) = frac_digits ns"
    and dw: "dropWhile is_digit (frac_digits ns @ format_zone off) = format_zone off"
    using fd(3) zone by (simp_all add: list_all_iff takeWhile_append dropWhile_append)
  have "is_digit d" using fd(3) by (simp add: dr)
  with tw dw fd(2,4) show ?thesis
    unfolding parse_frac_def dr append_Cons list.case by (simp add: Let_def)
qed

lemma parse_format_nano:
  assumes "rfc3339_ok off t"
  shows "parse_rfc3339_zone (format_rfc3339_nano off t) = Some (t, off)"
proof -
  have ns: "0 \<le> t mod second" "t mod second < second" by (simp_all add: second_def)
  then have "parse_frac ((if t mod second = 0 then [] else CHR ''.'' # frac_digits (t mod second)) @ format_zone off)
      = (t mod second, format_zone off)"
    using parse_frac_text [of "t mod second" off] by (cases "t mod second = 0") simp_all
  from parse_format_frac [OF assms this] show ?thesis
    by (simp add: format_rfc3339_nano_def div_mult_mod_eq)
qed

section \<open>Durations\<close>

text \<open>\<open>t.Sub(u)\<close>: the difference, saturated to the range of \<open>time.Duration\<close>;
  \<open>time.Since\<close> and \<open>time.Until\<close> are this with the current instant.\<close>

definition time_sub :: "time \<Rightarrow> time \<Rightarrow> duration" where
  "time_sub t u = max (- (2 ^ 63)) (min (2 ^ 63 - 1) (t - u))"

text \<open>\<open>time.Duration(n) * time.Second\<close>, in 64-bit arithmetic.\<close>

definition seconds :: "int \<Rightarrow> duration" where
  "seconds n = wrap64 (n * second)"

lemma seconds_exact: "\<bar>n\<bar> \<le> 9223372036 \<Longrightarrow> seconds n = n * second"
  unfolding seconds_def by (rule wrap64_id) (auto simp: second_def in_int64_def)

lemma seconds_overflow: "seconds 9223372037 < 0"
  by (simp add: seconds_def second_def wrap64_def)

lemma time_sub_in_range: "in_int64 (time_sub t u)"
  by (simp add: time_sub_def in_int64_def)

lemma div_second:
  assumes "sec * second < t" and "t < sec * second + second"
  shows "t div second = sec"
  using assms by (simp add: second_def)

end
