(* ===== verification/Json_Decode.thy ===== *)
theory Json_Decode
  imports Json_Value Go_Time Complex_Main
begin

text \<open>
  \<open>json.Marshal\<close> and \<open>json.Unmarshal\<close> for the Go types the program uses them with:
  integers, bytes, strings, floats, instants, slices, maps with string keys, pointers and structs
  with tagged fields. The package walks a value by its reflected type; so do \<open>encode\<close> and
  \<open>decode\<close>, over a type \<open>jtype\<close> and a value \<open>gval\<close>.

  Two things of the standard library are parameters: the shortest decimal text of a \<open>float64\<close>
  and its parser (\<open>fl_format\<close>, \<open>fl_parse\<close>), and the error text of \<open>time.Parse\<close>
  (\<open>time_error\<close>).
\<close>

section \<open>Types and values\<close>

text \<open>A \<open>float64\<close> by its value.\<close>

datatype float64 = NaN | PosInf | NegInf | NegZero | Fin rat

fun fl_rat :: "float64 \<Rightarrow> rat option" where
  "fl_rat (Fin r) = Some r"
| "fl_rat NegZero = Some 0"
| "fl_rat _ = None"

definition fl_less :: "float64 \<Rightarrow> float64 \<Rightarrow> bool" where
  "fl_less a b \<longleftrightarrow>
     (case (fl_rat a, fl_rat b) of
        (Some x, Some y) \<Rightarrow> x < y
      | _ \<Rightarrow> a \<noteq> NaN \<and> b \<noteq> NaN \<and> a \<noteq> b \<and> (a = NegInf \<or> b = PosInf))"

definition fl_le :: "float64 \<Rightarrow> float64 \<Rightarrow> bool" where
  "fl_le a b \<longleftrightarrow> a \<noteq> NaN \<and> b \<noteq> NaN \<and> \<not> fl_less b a"

record json_lib =
  fl_format :: "float64 \<Rightarrow> string"
  fl_parse :: "string \<Rightarrow> float64 option"
  time_error :: "string \<Rightarrow> string"

text \<open>A struct type has its package, its name and its fields: the JSON name, whether the tag says
  \<open>omitempty\<close>, and the type. Fields tagged \<open>"-"\<close> do not appear. An integer type has its
  name, all of them being 64 bits wide here.\<close>

datatype jtype =
    TInt string
  | TUint8
  | TStr
  | TFloat
  | TTime
  | TSlice jtype
  | TMap jtype
  | TPtr jtype
  | TStruct string string "(string \<times> bool \<times> jtype) list"

text \<open>An instant carries the offset of its zone. A slice is nil or has elements, with the stale
  elements its backing array has past the length; a map is nil or has entries in the order of their
  keys.\<close>

datatype gval =
    VInt int
  | VUint8 nat
  | VStr string
  | VFloat float64
  | VTime time int
  | VSlice "gval list option" "gval list"
  | VMap "(string \<times> gval) list option"
  | VPtr "gval option"
  | VStruct "gval list"

fun zero_val :: "jtype \<Rightarrow> gval" where
  "zero_val (TInt tn) = VInt 0"
| "zero_val TUint8 = VUint8 0"
| "zero_val TStr = VStr []"
| "zero_val TFloat = VFloat (Fin 0)"
| "zero_val TTime = VTime (- 62135596800 * second) 0"
| "zero_val (TSlice t) = VSlice None []"
| "zero_val (TMap t) = VMap None"
| "zero_val (TPtr t) = VPtr None"
| "zero_val (TStruct pkg name fs) = VStruct (map (\<lambda>(n, oe, t). zero_val t) fs)"

fun type_name :: "jtype \<Rightarrow> string" where
  "type_name (TInt tn) = tn"
| "type_name TUint8 = ''uint8''"
| "type_name TStr = ''string''"
| "type_name TFloat = ''float64''"
| "type_name TTime = ''time.Time''"
| "type_name (TSlice t) = ''[]'' @ type_name t"
| "type_name (TMap t) = ''map[string]'' @ type_name t"
| "type_name (TPtr t) = CHR ''*'' # type_name t"
| "type_name (TStruct pkg name fs) = pkg @ CHR ''.'' # name"

section \<open>Maps\<close>

text \<open>Byte-wise comparison of keys, and insertion of an entry in key order.\<close>

fun str_less :: "string \<Rightarrow> string \<Rightarrow> bool" where
  "str_less s [] = False"
| "str_less [] (c # t) = True"
| "str_less (a # s) (b # t) = (byte_val a < byte_val b \<or> a = b \<and> str_less s t)"

fun map_put :: "string \<Rightarrow> 'v \<Rightarrow> (string \<times> 'v) list \<Rightarrow> (string \<times> 'v) list" where
  "map_put k v [] = [(k, v)]"
| "map_put k v ((k', v') # m) =
     (if k = k' then (k, v) # m else if str_less k k' then (k, v) # (k', v') # m
      else (k', v') # map_put k v m)"

section \<open>Base64 with its errors\<close>

definition b64_index :: "char \<Rightarrow> nat option" where
  "b64_index c = (let n = b64_val c in if n < 64 then Some n else None)"

definition is_nl :: "char \<Rightarrow> bool" where
  "is_nl c \<longleftrightarrow> c = CHR 0x0A \<or> c = CHR 0x0D"

definition quantum :: "nat list \<Rightarrow> string" where
  "quantum q =
     (case q of
        [p, r] \<Rightarrow> [char_of (p * 4 + r div 16)]
      | [p, r, s] \<Rightarrow> [char_of (p * 4 + r div 16), char_of (r mod 16 * 16 + s div 4)]
      | [p, r, s, t] \<Rightarrow> [char_of (p * 4 + r div 16), char_of (r mod 16 * 16 + s div 4),
                        char_of (s mod 4 * 64 + t)]
      | _ \<Rightarrow> [])"

text \<open>What must follow the padding: nothing but newlines.\<close>

definition b64_finish :: "nat list \<Rightarrow> nat \<Rightarrow> string \<Rightarrow> nat + string" where
  "b64_finish q si s =
     (case dropWhile is_nl s of
        [] \<Rightarrow> Inr (quantum q)
      | r \<Rightarrow> Inl (si + (length s - length r)))"

text \<open>\<open>base64.StdEncoding.Decode\<close> from input position \<open>si\<close>, with the sextets of the
  current quantum; the position of the corrupt byte on error. Newlines are skipped.\<close>

fun b64d :: "nat \<Rightarrow> nat list \<Rightarrow> string \<Rightarrow> nat + string" where
  "b64d si q [] = (if q = [] then Inr [] else Inl (si - length q))"
| "b64d si q (c # s) =
     (case b64_index c of
        Some v \<Rightarrow> if length q = 3 then map_sum id ((@) (quantum (q @ [v]))) (b64d (si + 1) [] s)
                  else b64d (si + 1) (q @ [v]) s
      | None \<Rightarrow>
          if is_nl c then b64d (si + 1) q s
          else if c \<noteq> CHR ''='' \<or> length q < 2 then Inl si
          else if length q = 3 then b64_finish q (si + 1) s
          else (let r = dropWhile is_nl s; si1 = si + 1 + (length s - length r)
                in case r of
                     [] \<Rightarrow> Inl si1
                   | x # t \<Rightarrow> if x = CHR ''='' then b64_finish q (si1 + 1) t else Inl (si1 - 1)))"

definition base64_error :: "nat \<Rightarrow> string" where
  "base64_error n = ''illegal base64 data at input byte '' @ nat_digits n"

section \<open>Decoding\<close>

text \<open>Field names match exactly or after folding: ASCII case, and the two other runes that fold to
  ASCII letters (the Kelvin sign to \<open>K\<close>, the long s to \<open>S\<close>).\<close>

fun fold_name :: "string \<Rightarrow> string" where
  "fold_name [] = []"
| "fold_name (c # s) =
     (if 97 \<le> byte_val c \<and> byte_val c \<le> 122 then char_of (byte_val c - 32) # fold_name s
      else if c = CHR 0xE2 \<and> take 2 s = [CHR 0x84, CHR 0xAA] then CHR ''K'' # fold_name (drop 2 s)
      else if c = CHR 0xC5 \<and> take 1 s = [CHR 0xBF] then CHR ''S'' # fold_name (drop 1 s)
      else c # fold_name s)"

fun find_index :: "('a \<Rightarrow> bool) \<Rightarrow> 'a list \<Rightarrow> nat option" where
  "find_index P [] = None"
| "find_index P (x # xs) = (if P x then Some 0 else map_option Suc (find_index P xs))"

definition find_field :: "(string \<times> bool \<times> jtype) list \<Rightarrow> string \<Rightarrow> nat option" where
  "find_field fs key =
     (case find_index (\<lambda>f. fst f = key) fs of
        Some i \<Rightarrow> Some i
      | None \<Rightarrow> find_index (\<lambda>f. fold_name (fst f) = fold_name key) fs)"

text \<open>The struct and the field path the decoder is at, for error texts.\<close>

type_synonym jctx = "(string \<times> string list) option"

fun join_dots :: "string list \<Rightarrow> string" where
  "join_dots [] = []"
| "join_dots [x] = x"
| "join_dots (x # y # r) = x @ CHR ''.'' # join_dots (y # r)"

definition type_error :: "jctx \<Rightarrow> string \<Rightarrow> jtype \<Rightarrow> string" where
  "type_error cx value T =
     ''json: cannot unmarshal '' @ value @
     (case cx of None \<Rightarrow> '' into Go value of type ''
      | Some (st, path) \<Rightarrow> '' into Go struct field '' @ st @ CHR ''.'' # join_dots path @ '' of type '')
     @ type_name T"

definition enter :: "jctx \<Rightarrow> string \<Rightarrow> string \<Rightarrow> jctx" where
  "enter cx st f = Some (st, (case cx of None \<Rightarrow> [] | Some (_, path) \<Rightarrow> path) @ [f])"

text \<open>The decoder keeps the first type error and goes on (\<open>saveError\<close>); an error of an
  \<open>UnmarshalJSON\<close> method ends it. So a step takes the saved error and returns the value, the
  saved error and the fatal one.\<close>

type_synonym 'a dres = "'a \<times> string option \<times> string option"

definition save :: "string option \<Rightarrow> string \<Rightarrow> string option" where
  "save sv err = (case sv of None \<Rightarrow> Some err | Some x \<Rightarrow> Some x)"

definition not_json_string :: string where
  "not_json_string = ''Time.UnmarshalJSON: input is not a JSON string''"

text \<open>A literal into a type that is no pointer (\<open>literalStore\<close>).\<close>

definition dec_number :: "json_lib \<Rightarrow> jctx \<Rightarrow> jtype \<Rightarrow> string \<Rightarrow> gval \<Rightarrow> string option \<Rightarrow> gval dres" where
  "dec_number L cx T x old sv =
     (let wrong = (old, save sv (type_error cx (''number '' @ x) T), None) in
      case T of
        TInt tn \<Rightarrow> (case atoi x of (n, None) \<Rightarrow> (VInt n, sv, None) | _ \<Rightarrow> wrong)
      | TUint8 \<Rightarrow> (case parse_uint x of Inr n \<Rightarrow> if n < 256 then (VUint8 n, sv, None) else wrong | Inl _ \<Rightarrow> wrong)
      | TFloat \<Rightarrow> (case fl_parse L x of Some f \<Rightarrow> (VFloat f, sv, None) | None \<Rightarrow> wrong)
      | TTime \<Rightarrow> (old, sv, Some not_json_string)
      | _ \<Rightarrow> (old, save sv (type_error cx ''number'' T), None))"

definition dec_string :: "json_lib \<Rightarrow> jctx \<Rightarrow> jtype \<Rightarrow> string \<Rightarrow> gval \<Rightarrow> string option \<Rightarrow> gval dres" where
  "dec_string L cx T x old sv =
     (case T of
        TStr \<Rightarrow> (VStr (unquote x), sv, None)
      | TSlice t \<Rightarrow>
          if t = TUint8
          then (case b64d 0 [] (unquote x) of
                  Inr b \<Rightarrow> (VSlice (Some (map (\<lambda>c. VUint8 (byte_val c)) b)) [], sv, None)
                | Inl n \<Rightarrow> (old, save sv (base64_error n), None))
          else (old, save sv (type_error cx ''string'' T), None)
      | TTime \<Rightarrow>
          (case parse_rfc3339_zone x of
             Some (t, off) \<Rightarrow> (VTime t off, sv, None)
           | None \<Rightarrow> (old, sv, Some (time_error L x)))
      | _ \<Rightarrow> (old, save sv (type_error cx ''string'' T), None))"

definition slice_elems :: "gval \<Rightarrow> gval list" where
  "slice_elems v = (case v of VSlice (Some vs) hid \<Rightarrow> vs @ hid | VSlice None hid \<Rightarrow> hid | _ \<Rightarrow> [])"

definition map_entries :: "gval \<Rightarrow> (string \<times> gval) list" where
  "map_entries v = (case v of VMap (Some m) \<Rightarrow> m | _ \<Rightarrow> [])"

definition struct_fields :: "gval \<Rightarrow> gval list" where
  "struct_fields v = (case v of VStruct vs \<Rightarrow> vs | _ \<Rightarrow> [])"

definition ptr_target :: "jtype \<Rightarrow> gval \<Rightarrow> gval" where
  "ptr_target t v = (case v of VPtr (Some x) \<Rightarrow> x | _ \<Rightarrow> zero_val t)"

function (sequential) decode :: "json_lib \<Rightarrow> jctx \<Rightarrow> jtype \<Rightarrow> json \<Rightarrow> gval \<Rightarrow> string option \<Rightarrow> gval dres"
  and decode_elems :: "json_lib \<Rightarrow> jctx \<Rightarrow> jtype \<Rightarrow> json list \<Rightarrow> gval list \<Rightarrow> string option \<Rightarrow> gval list dres"
  and decode_entries :: "json_lib \<Rightarrow> jctx \<Rightarrow> jtype \<Rightarrow> (string \<times> json) list \<Rightarrow> (string \<times> gval) list
      \<Rightarrow> string option \<Rightarrow> (string \<times> gval) list dres"
  and decode_fields :: "json_lib \<Rightarrow> jctx \<Rightarrow> string \<Rightarrow> (string \<times> bool \<times> jtype) list \<Rightarrow> (string \<times> json) list
      \<Rightarrow> gval list \<Rightarrow> string option \<Rightarrow> gval list dres" where
  "decode L cx T JNull old sv =
     (case T of TSlice t \<Rightarrow> (zero_val T, sv, None) | TMap t \<Rightarrow> (zero_val T, sv, None)
      | TPtr t \<Rightarrow> (zero_val T, sv, None) | _ \<Rightarrow> (old, sv, None))"
| "decode L cx (TPtr t) j old sv =
     (case decode L cx t j (ptr_target t old) sv of (v, sv', ab) \<Rightarrow> (VPtr (Some v), sv', ab))"
| "decode L cx TTime (JStr x) old sv = dec_string L cx TTime x old sv"
| "decode L cx TTime j old sv = (old, sv, Some not_json_string)"
| "decode L cx T (JBool b) old sv = (old, save sv (type_error cx ''bool'' T), None)"
| "decode L cx T (JNum x) old sv = dec_number L cx T x old sv"
| "decode L cx T (JStr x) old sv = dec_string L cx T x old sv"
| "decode L cx (TSlice t) (JArr js) old sv =
     (case decode_elems L cx t js (slice_elems old) sv of
        (vs, sv', ab) \<Rightarrow>
          (VSlice (Some (take (length js) vs)) (if js = [] then [] else drop (length js) vs), sv', ab))"
| "decode L cx T (JArr js) old sv = (old, save sv (type_error cx ''array'' T), None)"
| "decode L cx (TMap t) (JObj ms) old sv =
     (case decode_entries L cx t ms (map_entries old) sv of (m, sv', ab) \<Rightarrow> (VMap (Some m), sv', ab))"
| "decode L cx (TStruct pkg name fs) (JObj ms) old sv =
     (case decode_fields L cx name fs ms (struct_fields old) sv of (vs, sv', ab) \<Rightarrow> (VStruct vs, sv', ab))"
| "decode L cx T (JObj ms) old sv = (old, save sv (type_error cx ''object'' T), None)"
| "decode_elems L cx t [] olds sv = (olds, sv, None)"
| "decode_elems L cx t (j # js) olds sv =
     (case decode L cx t j (if olds = [] then zero_val t else hd olds) sv of
        (v, sv', Some ab) \<Rightarrow> (v # tl olds, sv', Some ab)
      | (v, sv', None) \<Rightarrow>
          (case decode_elems L cx t js (tl olds) sv' of (vs, sv'', ab) \<Rightarrow> (v # vs, sv'', ab)))"
| "decode_entries L cx t [] m sv = (m, sv, None)"
| "decode_entries L cx t ((k, j) # ms) m sv =
     (case decode L cx t j (zero_val t) sv of
        (v, sv', Some ab) \<Rightarrow> (m, sv', Some ab)
      | (v, sv', None) \<Rightarrow> decode_entries L cx t ms (map_put (unquote k) v m) sv')"
| "decode_fields L cx st fs [] vs sv = (vs, sv, None)"
| "decode_fields L cx st fs ((k, j) # ms) vs sv =
     (case find_field fs (unquote k) of
        None \<Rightarrow> decode_fields L cx st fs ms vs sv
      | Some i \<Rightarrow>
          (case decode L (enter cx st (fst (fs ! i))) (snd (snd (fs ! i))) j (vs ! i) sv of
             (v, sv', Some ab) \<Rightarrow> (vs[i := v], sv', Some ab)
           | (v, sv', None) \<Rightarrow> decode_fields L cx st fs ms (vs[i := v]) sv'))"
  by pat_completeness auto
termination
  by (relation "inv_image (less_than <*lex*> less_than)
     (\<lambda>x. case x of
        Inl (Inl (L, cx, T, j, old, sv)) \<Rightarrow> (size j, size T)
      | Inl (Inr (L, cx, t, js, olds, sv)) \<Rightarrow> (size_list size js, 0)
      | Inr (Inl (L, cx, t, ms, m, sv)) \<Rightarrow> (size_list (size_prod (\<lambda>_. 0) size) ms, 0)
      | Inr (Inr (L, cx, st, fs, ms, vs, sv)) \<Rightarrow> (size_list (size_prod (\<lambda>_. 0) size) ms, 0))") auto

text \<open>\<open>json.Unmarshal\<close> into a variable of type \<open>T\<close> at its zero value.\<close>

definition unmarshal :: "json_lib \<Rightarrow> jtype \<Rightarrow> string \<Rightarrow> string + gval" where
  "unmarshal L T data =
     (case parse_json data of
        Inl (JSyntax msg) \<Rightarrow> Inl msg
      | Inl JFuel \<Rightarrow> Inl []
      | Inr j \<Rightarrow>
          (case decode L None T j (zero_val T) None of
             (v, sv, Some err) \<Rightarrow> Inl err
           | (v, Some err, None) \<Rightarrow> Inl err
           | (v, None, None) \<Rightarrow> Inr v))"

section \<open>Encoding\<close>

definition elem_type :: "jtype \<Rightarrow> jtype" where
  "elem_type T = (case T of TSlice t \<Rightarrow> t | TMap t \<Rightarrow> t | TPtr t \<Rightarrow> t | _ \<Rightarrow> T)"

definition field_types :: "jtype \<Rightarrow> (string \<times> bool \<times> jtype) list" where
  "field_types T = (case T of TStruct pkg name fs \<Rightarrow> fs | _ \<Rightarrow> [])"

text \<open>\<open>isEmptyValue\<close>, for fields tagged \<open>omitempty\<close>.\<close>

fun is_empty :: "gval \<Rightarrow> bool" where
  "is_empty (VInt n) \<longleftrightarrow> n = 0"
| "is_empty (VUint8 n) \<longleftrightarrow> n = 0"
| "is_empty (VStr s) \<longleftrightarrow> s = []"
| "is_empty (VFloat x) \<longleftrightarrow> fl_rat x = Some 0"
| "is_empty (VTime t off) \<longleftrightarrow> False"
| "is_empty (VSlice x hid) \<longleftrightarrow> x = None \<or> x = Some []"
| "is_empty (VMap x) \<longleftrightarrow> x = None \<or> x = Some []"
| "is_empty (VPtr x) \<longleftrightarrow> x = None"
| "is_empty (VStruct vs) \<longleftrightarrow> False"

definition uint8_char :: "gval \<Rightarrow> char" where
  "uint8_char v = (case v of VUint8 n \<Rightarrow> char_of n | _ \<Rightarrow> CHR 0x00)"

fun encode :: "json_lib \<Rightarrow> jtype \<Rightarrow> gval \<Rightarrow> json"
  and encode_fields :: "json_lib \<Rightarrow> (string \<times> bool \<times> jtype) list \<Rightarrow> gval list \<Rightarrow> (string \<times> json) list" where
  "encode L T (VInt n) = JNum (itoa n)"
| "encode L T (VUint8 n) = JNum (nat_digits n)"
| "encode L T (VStr s) = JStr (escape s)"
| "encode L T (VFloat x) = JNum (fl_format L x)"
| "encode L T (VTime t off) = JStr (format_rfc3339_nano off t)"
| "encode L T (VSlice None hid) = JNull"
| "encode L T (VSlice (Some vs) hid) =
     (if T = TSlice TUint8 then JStr (b64_encode (map uint8_char vs))
      else JArr (map (encode L (elem_type T)) vs))"
| "encode L T (VMap None) = JNull"
| "encode L T (VMap (Some m)) = JObj (map (\<lambda>(k, v). (escape k, encode L (elem_type T) v)) m)"
| "encode L T (VPtr None) = JNull"
| "encode L T (VPtr (Some v)) = encode L (elem_type T) v"
| "encode L T (VStruct vs) = JObj (encode_fields L (field_types T) vs)"
| "encode_fields L [] vs = []"
| "encode_fields L (f # fs) [] = []"
| "encode_fields L ((n, oe, t) # fs) (v # vs) =
     (if oe \<and> is_empty v then [] else [(n, encode L t v)]) @ encode_fields L fs vs"

text \<open>The first error of an encoding: a float that is no number, an instant JSON has no text for.\<close>

definition first_error :: "string option list \<Rightarrow> string option" where
  "first_error xs = (case filter (\<lambda>x. x \<noteq> None) xs of [] \<Rightarrow> None | x # _ \<Rightarrow> x)"

definition time_marshal_error :: "int \<Rightarrow> time \<Rightarrow> string option" where
  "time_marshal_error off t =
     (let (y, m, d) = date_of_days ((t div second + off) div 86400);
          pre = ''json: error calling MarshalJSON for type time.Time: Time.MarshalJSON: ''
      in if y < 0 \<or> 9999 < y then Some (pre @ ''year outside of range [0,9999]'')
         else if 86400 \<le> \<bar>off\<bar> then Some (pre @ ''timezone hour outside of range [0,23]'') else None)"

fun encode_error :: "gval \<Rightarrow> string option" where
  "encode_error (VFloat NaN) = Some ''json: unsupported value: NaN''"
| "encode_error (VFloat PosInf) = Some ''json: unsupported value: +Inf''"
| "encode_error (VFloat NegInf) = Some ''json: unsupported value: -Inf''"
| "encode_error (VTime t off) = time_marshal_error off t"
| "encode_error (VSlice (Some vs) hid) = first_error (map encode_error vs)"
| "encode_error (VMap (Some m)) = first_error (map (\<lambda>(k, v). encode_error v) m)"
| "encode_error (VPtr (Some v)) = encode_error v"
| "encode_error (VStruct vs) = first_error (map encode_error vs)"
| "encode_error _ = None"

definition marshal :: "json_lib \<Rightarrow> jtype \<Rightarrow> gval \<Rightarrow> string + string" where
  "marshal L T v =
     (case encode_error v of
        Some err \<Rightarrow> Inl err
      | None \<Rightarrow> Inr (print_json (encode L T v)))"

section \<open>Well-typed values\<close>

text \<open>A float whose text is a JSON number that reads back as the float.\<close>

definition float_ok :: "json_lib \<Rightarrow> float64 \<Rightarrow> bool" where
  "float_ok L x \<longleftrightarrow> fl_rat x \<noteq> None \<and> num_ok (fl_format L x) \<and> fl_parse L (fl_format L x) = Some x"

fun sorted_keys :: "string list \<Rightarrow> bool" where
  "sorted_keys [] = True"
| "sorted_keys [k] = True"
| "sorted_keys (k # k' # r) = (str_less k k' \<and> sorted_keys (k' # r))"

text \<open>Values a round trip gives back: no stale elements, strings in UTF-8, integers in range, an
  omitted field at its zero value.\<close>

fun typed :: "json_lib \<Rightarrow> jtype \<Rightarrow> gval \<Rightarrow> bool"
  and typed_fields :: "json_lib \<Rightarrow> (string \<times> bool \<times> jtype) list \<Rightarrow> gval list \<Rightarrow> bool" where
  "typed L T (VInt n) \<longleftrightarrow> (case T of TInt tn \<Rightarrow> in_int64 n | _ \<Rightarrow> False)"
| "typed L T (VUint8 n) \<longleftrightarrow> T = TUint8 \<and> n < 256"
| "typed L T (VStr s) \<longleftrightarrow> T = TStr \<and> valid_utf8 s"
| "typed L T (VFloat x) \<longleftrightarrow> T = TFloat \<and> float_ok L x"
| "typed L T (VTime t off) \<longleftrightarrow> T = TTime \<and> rfc3339_ok off t \<and> \<bar>off\<bar> < 86400"
| "typed L T (VSlice None hid) \<longleftrightarrow> (case T of TSlice t \<Rightarrow> hid = [] | _ \<Rightarrow> False)"
| "typed L T (VSlice (Some vs) hid) \<longleftrightarrow>
     (case T of TSlice t \<Rightarrow> hid = [] \<and> list_all (typed L t) vs | _ \<Rightarrow> False)"
| "typed L T (VMap None) \<longleftrightarrow> (case T of TMap t \<Rightarrow> True | _ \<Rightarrow> False)"
| "typed L T (VMap (Some m)) \<longleftrightarrow>
     (case T of TMap t \<Rightarrow> sorted_keys (map fst m) \<and> list_all (\<lambda>(k, v). valid_utf8 k \<and> typed L t v) m
      | _ \<Rightarrow> False)"
| "typed L T (VPtr None) \<longleftrightarrow> (case T of TPtr t \<Rightarrow> True | _ \<Rightarrow> False)"
| "typed L T (VPtr (Some v)) \<longleftrightarrow>
     (case T of TPtr t \<Rightarrow> typed L t v \<and> encode L t v \<noteq> JNull | _ \<Rightarrow> False)"
| "typed L T (VStruct vs) \<longleftrightarrow> (case T of TStruct pkg name fs \<Rightarrow> typed_fields L fs vs | _ \<Rightarrow> False)"
| "typed_fields L [] vs \<longleftrightarrow> vs = []"
| "typed_fields L (f # fs) [] \<longleftrightarrow> False"
| "typed_fields L ((n, oe, t) # fs) (v # vs) \<longleftrightarrow>
     typed L t v \<and> (oe \<and> is_empty v \<longrightarrow> v = zero_val t) \<and> typed_fields L fs vs"

text \<open>Struct types whose field names are plain and pairwise different.\<close>

definition plain_name :: "string \<Rightarrow> bool" where
  "plain_name n \<longleftrightarrow> n \<noteq> [] \<and> list_all html_safe n"

fun wf_type :: "jtype \<Rightarrow> bool" where
  "wf_type (TStruct pkg name fs) \<longleftrightarrow>
     distinct (map fst fs) \<and> list_all (\<lambda>(n, oe, t). plain_name n \<and> wf_type t) fs"
| "wf_type (TSlice t) \<longleftrightarrow> wf_type t"
| "wf_type (TMap t) \<longleftrightarrow> wf_type t"
| "wf_type (TPtr t) \<longleftrightarrow> wf_type t"
| "wf_type _ \<longleftrightarrow> True"

fun type_depth :: "jtype \<Rightarrow> nat" where
  "type_depth (TStruct pkg name fs) = Suc (fold max (map (\<lambda>(n, oe, t). type_depth t) fs) 0)"
| "type_depth (TSlice t) = Suc (type_depth t)"
| "type_depth (TMap t) = Suc (type_depth t)"
| "type_depth (TPtr t) = type_depth t"
| "type_depth _ = 0"

end
