(* ===== verification/Json_Round_Trip.thy ===== *)
theory Json_Round_Trip
  imports Json_Decode
begin

text \<open>
  The round trip of \<open>encoding/json\<close>: a well-typed value is encoded without error
  (\<open>encode_error_typed\<close>) and what \<open>marshal\<close> writes, \<open>unmarshal\<close> reads back
  (\<open>unmarshal_marshal\<close>).
\<close>

section \<open>Literals\<close>

definition plain_char :: "char \<Rightarrow> bool" where
  "plain_char c \<longleftrightarrow> c \<noteq> dq \<and> c \<noteq> bs \<and> 0x20 \<le> byte_val c"

definition prefixed :: "string \<Rightarrow> string presult \<Rightarrow> string presult" where
  "prefixed x r = map_sum id (\<lambda>(a, b). (x @ a, b)) r"

lemma prefixed_simps [simp]:
  "prefixed [] r = r" "prefixed x (Inr (a, b)) = Inr (x @ a, b)" "push c (prefixed x r) = prefixed (c # x) r"
  "prefixed x (prefixed y r) = prefixed (x @ y) r"
  by (cases r; auto simp: prefixed_def push_def)+

lemma push_prefixed: "push c r = prefixed [c] r"
  by (cases r) (auto simp: prefixed_def push_def)

lemma scan_plain: "list_all plain_char x \<Longrightarrow> scan_str InStr (x @ r) = prefixed x (scan_str InStr r)"
  by (induction x) (auto simp: plain_char_def)

lemma raw_ok_plain: "list_all plain_char x \<Longrightarrow> raw_ok x"
  by (simp add: raw_ok_def scan_plain)

lemma unquote_plain_all:
  "list_all (\<lambda>c. plain_char c \<and> byte_val c < 0x80) x \<Longrightarrow> unquote (x @ r) = x @ unquote r"
  by (induction x) (auto simp: plain_char_def unquote_plain)

lemma html_safe_plain: "html_safe c \<Longrightarrow> plain_char c \<and> byte_val c < 0x80"
  by (auto simp: html_safe_def plain_char_def)

lemma digit_plain: "is_digit c \<Longrightarrow> plain_char c \<and> byte_val c < 0x80"
  by (auto simp: is_digit_def plain_char_def byte_val_def bs_def dq_def)

lemma scan_simple:
  assumes "d \<in> {CHR ''b'', CHR ''f'', CHR ''n'', CHR ''r'', CHR ''t'', bs, dq}"
  shows "scan_str InStr (bs # d # r) = prefixed [bs, d] (scan_str InStr r)"
  using assms by (auto simp: push_prefixed)

lemma scan_u:
  assumes "hex_val w \<noteq> None" and "hex_val x \<noteq> None" and "hex_val y \<noteq> None" and "hex_val z \<noteq> None"
  shows "scan_str InStr (bs # CHR ''u'' # w # x # y # z # r)
    = prefixed [bs, CHR ''u'', w, x, y, z] (scan_str InStr r)"
proof -
  have "CHR ''u'' \<noteq> bs" "CHR ''u'' \<noteq> dq" by (simp_all add: bs_def dq_def)
  with assms show ?thesis by (simp add: push_prefixed numeral_eq_Suc)
qed

lemma scan_escape_byte:
  assumes "byte_val c < 0x80"
  shows "scan_str InStr (escape_byte c @ r) = prefixed (escape_byte c) (scan_str InStr r)"
proof -
  have "hex_val (CHR ''0'') = Some 0" by code_simp
  moreover have "byte_val c div 16 < 16" "byte_val c mod 16 < 16" using assms by simp_all
  ultimately have u: "scan_str InStr (bs # CHR ''u'' # CHR ''0'' # CHR ''0'' # hex_digit (byte_val c div 16) # hex_digit (byte_val c mod 16) # r)
      = prefixed [bs, CHR ''u'', CHR ''0'', CHR ''0'', hex_digit (byte_val c div 16), hex_digit (byte_val c mod 16)] (scan_str InStr r)"
    by (intro scan_u) simp_all
  show ?thesis
    unfolding escape_byte_def Let_def if_distrib [of "\<lambda>x. x @ r"] append_Cons append_Nil
      if_distrib [of "\<lambda>x. prefixed x (scan_str InStr r)"] if_distrib [of "scan_str InStr"] u
    by (simp only: scan_simple insert_iff simp_thms cong: if_cong)
      (rule if_cong [OF refl scan_simple refl], blast)
qed

lemma utf8_size_bytes:
  assumes "utf8_size x \<noteq> 0" and "utf8_size x = length x" and "c \<in> set x"
  shows "0x80 \<le> byte_val c"
  using assms by (cases x rule: utf8_size.cases)
    (auto simp: Let_def is_cont_def second_ok_def split: if_splits list.splits)

lemma scan_escape_rune:
  assumes "rune_valid x"
  shows "scan_str InStr (escape_rune x @ r) = prefixed (escape_rune x) (scan_str InStr r)"
proof (cases "\<exists>c. x = [c]")
  case True
  then obtain c where c: "x = [c]" by blast
  with assms have "byte_val c < 0x80" by (simp add: rune_valid_def)
  then show ?thesis
    using scan_escape_byte [of c r] scan_plain [of "[c]" r] html_safe_plain [of c] by (simp add: c escape_rune_def)
next
  case False
  with assms have sz: "utf8_size x \<noteq> 0" "utf8_size x = length x"
    by (auto simp: rune_valid_def split: list.splits)
  then obtain a b t where x: "x = a # b # t" by (cases x rule: utf8_size.cases) auto
  have "plain_char c" if "c \<in> set x" for c
    using utf8_size_bytes [OF sz that] by (auto simp: plain_char_def)
  then have plain: "list_all plain_char x" by (simp add: list_all_iff)
  have hex: "hex_val (CHR ''2'') = Some 2" "hex_val (CHR ''0'') = Some 0" "hex_val (CHR ''8'') = Some 8"
    "hex_val (CHR ''9'') = Some 9" by code_simp+
  have esc: "escape_rune x = bs # ''u2028'' \<or> escape_rune x = bs # ''u2029'' \<or> escape_rune x = x"
    by (simp add: escape_rune_def x)
  have u: "scan_str InStr ((bs # ''u2028'') @ r) = prefixed (bs # ''u2028'') (scan_str InStr r)"
    "scan_str InStr ((bs # ''u2029'') @ r) = prefixed (bs # ''u2029'') (scan_str InStr r)"
    using scan_u [of "CHR ''2''" "CHR ''0''" "CHR ''2''"] by (simp_all add: hex)
  from esc show ?thesis using u scan_plain [OF plain] by (elim disjE) simp_all
qed

lemma raw_ok_escape: "valid_utf8 s \<Longrightarrow> raw_ok (escape s)"
proof -
  have "list_all rune_valid rs \<Longrightarrow>
      scan_str InStr (concat (map escape_rune rs) @ r) = prefixed (concat (map escape_rune rs)) (scan_str InStr r)" for rs r
    by (induction rs) (simp_all add: scan_escape_rune)
  then show "valid_utf8 s \<Longrightarrow> raw_ok (escape s)"
    by (simp add: raw_ok_def escape_def valid_utf8_def)
qed

lemma scan_num_digits: "list_all is_digit x \<Longrightarrow> scan_num NInt x = Inr (x, [])"
  by (induction x) (simp_all add: num_next_def num_end_def push_def)

lemma nat_digits_head:
  assumes "nat_digits n = c # t"
  shows "c = CHR ''0'' \<longleftrightarrow> n = 0" and "n = 0 \<Longrightarrow> t = []"
proof -
  have zero: "nat_digits 0 = [CHR ''0'']" by (subst nat_digits.simps) (simp add: digit_char_0)
  show "n = 0 \<Longrightarrow> t = []" using assms unfolding zero [symmetric] by (simp add: zero)
  show "c = CHR ''0'' \<longleftrightarrow> n = 0"
  proof -
    have "0 < n \<Longrightarrow> hd (nat_digits n) \<noteq> CHR ''0''"
    proof (induction n rule: nat_digits.induct)
      case (1 n)
      show ?case
      proof (cases "n < 10")
        case True
        have "digit_val (CHR ''0'') = 0" by code_simp
        with True "1.prems" show ?thesis
          by (subst nat_digits.simps) (auto dest!: arg_cong [of _ _ digit_val])
      next
        case False
        then show ?thesis using "1.IH" by (subst nat_digits.simps) simp
      qed
    qed
    with assms zero show ?thesis by auto
  qed
qed

lemma num_ok_nat_digits: "num_ok (nat_digits n)"
proof -
  obtain c t where ct: "nat_digits n = c # t" by (cases "nat_digits n") auto
  have d: "is_digit x" if "x \<in> set (c # t)" for x using nat_digits_digits [of x n] that ct by simp
  have "c \<noteq> dq" "c \<noteq> CHR ''-''" using d [of c] by (auto simp: is_digit_def dq_def)
  moreover have "list_all is_digit t" using d by (simp add: list_all_iff)
  ultimately show ?thesis
    using nat_digits_head [OF ct] d [of c] scan_num_digits [of t] unfolding num_ok_def ct
    by (cases "n = 0") (simp_all add: begin_value_def nonzero_digit_def num_end_def)
qed

lemma num_ok_itoa: "num_ok (itoa n)"
proof (cases "n < 0")
  case True
  obtain c t where ct: "nat_digits (nat (- n)) = c # t" by (cases "nat_digits (nat (- n))") auto
  have d: "is_digit x" if "x \<in> set (c # t)" for x using nat_digits_digits [of x "nat (- n)"] that ct by simp
  have "c \<noteq> CHR ''0''" using nat_digits_head(1) [OF ct] True by simp
  moreover have "list_all is_digit t" using d by (simp add: list_all_iff)
  ultimately show ?thesis
    using True d [of c] scan_num_digits [of t]
    by (simp add: num_ok_def itoa_def ct begin_value_def dq_def num_next_def nonzero_digit_def push_def)
qed (simp add: itoa_def num_ok_nat_digits)

section \<open>Base64 and instants\<close>

lemma b64_index_char [simp]: "n < 64 \<Longrightarrow> b64_index (b64_char n) = Some n"
  by (simp add: b64_index_def Let_def)

lemma b64_index_pad [simp]: "b64_index (CHR ''='') = None"
  by code_simp

lemma b64d_encode: "b64d si [] (b64_encode s) = Inr s"
proof (induction s arbitrary: si rule: b64_encode.induct)
  case (2 a)
  then show ?case
    using sextets [of "byte_val a" 0 0]
    by (simp add: byte_val_less is_nl_def b64_finish_def quantum_def)
next
  case (3 a b)
  then show ?case
    using sextets [of "byte_val a" "byte_val b" 0]
    by (simp add: byte_val_less is_nl_def b64_finish_def quantum_def)
next
  case (4 a b c r)
  then show ?case
    using sextets [of "byte_val a" "byte_val b" "byte_val c"]
    by (simp add: byte_val_less quantum_def)
qed simp

lemma b64_alphabet_plain: "list_all (\<lambda>c. plain_char c \<and> byte_val c < 0x80) (CHR ''='' # b64_alphabet)"
  by code_simp

lemma b64_length: "length b64_alphabet = 64"
  by code_simp

lemma b64_encode_plain: "list_all (\<lambda>c. plain_char c \<and> byte_val c < 0x80) (b64_encode s)"
proof -
  have "n < 64 \<Longrightarrow> b64_char n \<in> set b64_alphabet" for n
    unfolding b64_char_def by (rule nth_mem) (simp add: b64_length)
  then have ch: "plain_char (b64_char n) \<and> byte_val (b64_char n) < 0x80" if "n < 64" for n
    using that b64_alphabet_plain by (simp add: list_all_iff)
  have pad: "plain_char (CHR ''='') \<and> byte_val (CHR ''='') < 0x80" by code_simp
  show ?thesis
  proof (induction s rule: b64_encode.induct)
    case (2 a)
    then show ?case using sextets [of "byte_val a" 0 0] by (simp add: byte_val_less ch pad)
  next
    case (3 a b)
    then show ?case using sextets [of "byte_val a" "byte_val b" 0] by (simp add: byte_val_less ch pad)
  next
    case (4 a b c r)
    then show ?case using sextets [of "byte_val a" "byte_val b" "byte_val c"] by (simp add: byte_val_less ch pad)
  qed simp
qed

lemma append_int_plain: "list_all plain_char (append_int x w)"
proof -
  have "plain_char (CHR ''-'')" "plain_char (CHR ''0'')" by code_simp+
  then show ?thesis
    by (auto simp: append_int_def Let_def list_all_iff dest!: nat_digits_digits digit_plain)
qed

lemma format_nano_plain: "list_all plain_char (format_rfc3339_nano off t)"
proof -
  have ch: "plain_char (CHR ''-'')" "plain_char (CHR '':'')" "plain_char (CHR ''T'')" "plain_char (CHR ''.'')"
    "plain_char (CHR ''Z'')" "plain_char (CHR ''+'')" by code_simp+
  have "list_all plain_char (frac_digits ns)" for ns
    using append_int_plain [of ns 9] unfolding frac_digits_def list_all_iff by (auto dest: set_dropWhileD)
  then show ?thesis
    using append_int_plain ch
    by (auto simp: format_rfc3339_nano_def format_rfc3339_frac_def format_zone_def Let_def split: prod.splits)
qed

section \<open>The encoder's output is JSON\<close>

lemma json_ok_mono: "json_ok d j \<Longrightarrow> d \<le> d' \<Longrightarrow> json_ok d' j"
proof (induction j arbitrary: d d')
  case (JArr vs)
  then show ?case by (auto simp: list_all_iff)
next
  case (JObj ms)
  then show ?case by (fastforce simp: list_all_iff)
qed simp_all

lemma fold_max_le: "x \<in> set xs \<Longrightarrow> x \<le> fold max xs (a :: nat)" and fold_max_init: "a \<le> fold max xs (a :: nat)"
proof (induction xs arbitrary: a)
  case (Cons y ys)
  {
    case 1
    have "y \<le> fold max ys (max y a)" using Cons.IH(2) [of "max y a"] by simp
    with 1 Cons.IH(1) show ?case by auto
  next
    case 2
    show ?case using Cons.IH(2) [of "max y a"] by simp
  }
qed simp_all

lemma field_depth:
  assumes "(n, oe, t) \<in> set fs"
  shows "type_depth t \<le> fold max (map (\<lambda>(n, oe, t). type_depth t) fs) 0"
  using fold_max_le [of "type_depth t" "map (\<lambda>(n, oe, t). type_depth t) fs" 0] assms by force

lemma plain_name_raw: "plain_name n \<Longrightarrow> raw_ok n" "plain_name n \<Longrightarrow> unquote n = n"
  using html_safe_plain unquote_plain_all [of n "[]"]
  by (auto simp: plain_name_def list_all_iff unquote.simps intro!: raw_ok_plain)

lemma encode_json_ok:
  "typed L T v \<Longrightarrow> wf_type T \<Longrightarrow> json_ok (type_depth T) (encode L T v)"
  "typed_fields L fs vs \<Longrightarrow> list_all (\<lambda>(n, oe, t). plain_name n \<and> wf_type t) fs
     \<Longrightarrow> (\<And>n oe t. (n, oe, t) \<in> set fs \<Longrightarrow> type_depth t \<le> d)
     \<Longrightarrow> list_all (\<lambda>(k, j). raw_ok k \<and> json_ok d j) (encode_fields L fs vs)"
proof (induction L T v and L fs vs arbitrary: and d rule: typed_typed_fields.induct)
  case (7 L T vs hid)
  then show ?case
    using b64_encode_plain by (cases T) (auto simp: list_all_iff elem_type_def intro!: raw_ok_plain)
next
  case (9 L T m)
  then show ?case by (cases T) (auto simp: list_all_iff elem_type_def raw_ok_escape)
next
  case (11 L T v)
  then show ?case by (cases T) (simp_all add: elem_type_def)
next
  case (12 L T vs)
  then show ?case by (cases T) (auto simp: field_types_def dest: field_depth)
next
  case (15 L n oe t fs v vs)
  have "type_depth t \<le> d" by (rule "15.prems"(3) [of n oe]) simp
  then have "json_ok d (encode L t v)"
    using 15(1) "15.prems"(1,2) by (auto intro: json_ok_mono [of "type_depth t"])
  moreover have "list_all (\<lambda>(k, j). raw_ok k \<and> json_ok d j) (encode_fields L fs vs)"
    using "15.prems" by (intro 15(2)) auto
  ultimately show ?case using "15.prems"(2) by (simp add: plain_name_raw)
qed (auto simp: num_ok_itoa num_ok_nat_digits raw_ok_escape float_ok_def raw_ok_plain format_nano_plain
    split: jtype.splits)

section \<open>Decoding what was encoded\<close>

lemma str_less_irrefl [simp]: "\<not> str_less s s"
  by (induction s) auto

lemma str_less_trans: "str_less s t \<Longrightarrow> str_less t u \<Longrightarrow> str_less s u"
proof (induction s t arbitrary: u rule: str_less.induct)
  case (2 c t)
  then show ?case by (cases u) auto
next
  case (3 a s b t)
  then show ?case by (cases u) (auto dest: less_trans)
qed simp

lemma sorted_keys_less:
  "sorted_keys (k # ks) \<Longrightarrow> x \<in> set ks \<Longrightarrow> str_less k x"
  by (induction ks arbitrary: k) (auto intro: str_less_trans)

lemma sorted_keys_before:
  "sorted_keys (ks @ k # r) \<Longrightarrow> x \<in> set ks \<Longrightarrow> str_less x k"
proof (induction ks)
  case (Cons y ks)
  then have "sorted_keys (ks @ k # r)" by (cases ks) auto
  with Cons sorted_keys_less [of y "ks @ k # r" k] show ?case by auto
qed simp

lemma map_put_last: "(\<And>x. x \<in> set (map fst m) \<Longrightarrow> str_less x k) \<Longrightarrow> map_put k v m = m @ [(k, v)]"
proof (induction m)
  case (Cons e m)
  obtain k' v' where e: "e = (k', v')" by (cases e)
  have "str_less k' k" using Cons.prems e by simp
  then have "k \<noteq> k'" "\<not> str_less k k'" using str_less_trans [of k k' k] by auto
  with Cons show ?case by (simp add: e)
qed simp

lemma decode_entries_encode:
  assumes "sorted_keys (map fst (m @ m'))" and "\<And>k v. (k, v) \<in> set m' \<Longrightarrow> valid_utf8 k"
    and "\<And>k v sv. (k, v) \<in> set m' \<Longrightarrow> decode L cx t (encode L t v) (zero_val t) sv = (v, sv, None)"
  shows "decode_entries L cx t (map (\<lambda>(k, v). (escape k, encode L t v)) m') m sv = (m @ m', sv, None)"
  using assms
proof (induction m' arbitrary: m)
  case (Cons e m')
  obtain k v where e: "e = (k, v)" by (cases e)
  have "valid_utf8 k" using Cons.prems(2) [of k v] e by simp
  moreover have "decode L cx t (encode L t v) (zero_val t) sv = (v, sv, None)"
    using Cons.prems(3) [of k v] e by simp
  moreover have "map_put k v m = m @ [e]"
    using map_put_last [of m k v] sorted_keys_before [of "map fst m" k] Cons.prems(1) by (simp add: e)
  moreover have "decode_entries L cx t (map (\<lambda>(k, v). (escape k, encode L t v)) m') (m @ [e]) sv
      = ((m @ [e]) @ m', sv, None)"
  proof (rule Cons.IH, goal_cases)
    case 1
    show ?case using Cons.prems(1) by (simp add: e)
  next
    case (2 k v)
    then show ?case using Cons.prems(2) [of k v] by simp
  next
    case (3 k v sv)
    then show ?case using Cons.prems(3) [of k v sv] by simp
  qed
  ultimately show ?case by (simp add: e unquote_escape)
qed simp

lemma decode_elems_encode:
  assumes "\<And>v sv. v \<in> set vs \<Longrightarrow> decode L cx t (encode L t v) (zero_val t) sv = (v, sv, None)"
  shows "decode_elems L cx t (map (encode L t) vs) [] sv = (vs, sv, None)"
  using assms by (induction vs) simp_all

lemma decode_ptr:
  "j \<noteq> JNull \<Longrightarrow> decode L cx (TPtr t) j old sv =
     (case decode L cx t j (ptr_target t old) sv of (v, sv', ab) \<Rightarrow> (VPtr (Some v), sv', ab))"
  by (cases j) simp_all

lemma find_index_append:
  "(\<And>x. x \<in> set xs \<Longrightarrow> \<not> P x) \<Longrightarrow> P y \<Longrightarrow> find_index P (xs @ y # ys) = Some (length xs)"
  by (induction xs) auto

lemma find_field_exact:
  assumes "distinct (map fst (pre @ (n, oe, t) # fs))"
  shows "find_field (pre @ (n, oe, t) # fs) n = Some (length pre)"
proof -
  have "find_index (\<lambda>f. fst f = n) (pre @ (n, oe, t) # fs) = Some (length pre)"
    by (rule find_index_append) (use assms in force)+
  then show ?thesis by (simp add: find_field_def)
qed

lemma bytes_round_trip:
  assumes "list_all (typed L TUint8) vs"
  shows "map (\<lambda>c. VUint8 (byte_val c)) (map uint8_char vs) = vs"
  using assms
proof (induction vs)
  case (Cons v vs)
  then obtain n where "v = VUint8 n" "n < 256" by (cases "(L, TUint8, v)" rule: typed.cases) auto
  with Cons show ?case by (simp add: uint8_char_def byte_val_def)
qed simp

lemma decode_slice:
  assumes "list_all (typed L t) vs" and "\<And>v sv. v \<in> set vs \<Longrightarrow> decode L cx t (encode L t v) (zero_val t) sv = (v, sv, None)"
  shows "decode L cx (TSlice t) (encode L (TSlice t) (VSlice (Some vs) [])) (zero_val (TSlice t)) sv = (VSlice (Some vs) [], sv, None)"
proof (cases "t = TUint8")
  case True
  have "unquote (b64_encode (map uint8_char vs)) = b64_encode (map uint8_char vs)"
    using unquote_plain_all [OF b64_encode_plain, of _ "[]"] by (simp add: unquote.simps)
  with assms(1) True show ?thesis
    using bytes_round_trip [of L vs] by (simp add: dec_string_def b64d_encode)
next
  case False
  with decode_elems_encode [OF assms(2), of vs] show ?thesis by (simp add: elem_type_def slice_elems_def)
qed

lemma decode_field:
  assumes "oe \<Longrightarrow> is_empty v \<Longrightarrow> v = zero_val t"
    and "decode L (enter cx st n) t (encode L t v) (zero_val t) sv = (v, sv, None)"
    and "plain_name n" and "distinct (map fst (pre @ (n, oe, t) # fs))" and "length ws = length pre"
    and rest: "decode_fields L cx st (pre @ (n, oe, t) # fs) (encode_fields L fs vs) (ws @ v # zs) sv = (ws @ v # vs, sv, None)"
  shows "decode_fields L cx st (pre @ (n, oe, t) # fs) (encode_fields L ((n, oe, t) # fs) (v # vs)) (ws @ zero_val t # zs) sv
    = (ws @ v # vs, sv, None)"
proof (cases "oe \<and> is_empty v")
  case True
  then have "v = zero_val t" using assms(1) by simp
  with rest True show ?thesis by simp
next
  case False
  have "find_field (pre @ (n, oe, t) # fs) n = Some (length pre)" by (rule find_field_exact [OF assms(4)])
  moreover have "(ws @ x # zs)[length pre := v] = ws @ v # zs" "(ws @ x # zs) ! length pre = x" for x
    by (simp_all flip: assms(5))
  moreover have "unquote n = n" using assms(3) by (simp add: plain_name_raw)
  moreover have enc: "encode_fields L ((n, oe, t) # fs) (v # vs) = (n, encode L t v) # encode_fields L fs vs"
    using False by auto
  ultimately show ?thesis using rest assms(2) unfolding enc by simp
qed

lemma decode_encode:
  "typed L T v \<Longrightarrow> wf_type T \<Longrightarrow> decode L cx T (encode L T v) (zero_val T) sv = (v, sv, None)"
  "typed_fields L fs vs \<Longrightarrow> list_all (\<lambda>(n, oe, t). plain_name n \<and> wf_type t) fs
     \<Longrightarrow> distinct (map fst (pre @ fs)) \<Longrightarrow> length ws = length pre
     \<Longrightarrow> decode_fields L cx st (pre @ fs) (encode_fields L fs vs) (ws @ map (\<lambda>(n, oe, t). zero_val t) fs) sv
       = (ws @ vs, sv, None)"
proof (induction L T v and L fs vs arbitrary: cx sv and pre ws cx st sv rule: typed_typed_fields.induct)
  case (1 L T n)
  then show ?case by (cases T) (simp_all add: dec_number_def atoi_itoa)
next
  case (2 L T n)
  then have "parse_uint (nat_digits n) = Inr n" by (intro parse_uint_nat_digits) simp
  with 2 show ?case by (simp add: dec_number_def)
next
  case (3 L T s)
  then show ?case by (simp add: dec_string_def unquote_escape)
next
  case (4 L T x)
  then show ?case by (simp add: dec_number_def float_ok_def)
next
  case (5 L T t off)
  then show ?case by (simp add: dec_string_def parse_format_nano)
next
  case (7 L T vs hid)
  then obtain t where T: "T = TSlice t" "hid = []" "list_all (typed L t) vs" by (cases T) auto
  show ?case unfolding T(1,2) by (rule decode_slice [OF T(3)]) (use 7 T in \<open>auto simp: list_all_iff\<close>)
next
  case (9 L T m)
  then obtain t where T: "T = TMap t" "sorted_keys (map fst m)"
    "list_all (\<lambda>(k, v). valid_utf8 k \<and> typed L t v) m" by (cases T) auto
  have "decode_entries L cx t (map (\<lambda>(k, v). (escape k, encode L t v)) m) [] sv = ([] @ m, sv, None)"
    by (rule decode_entries_encode) (use 9 T in \<open>fastforce simp: list_all_iff\<close>)+
  with T show ?case by (simp add: elem_type_def map_entries_def)
next
  case (11 L T v)
  then obtain t where T: "T = TPtr t" "typed L t v" "encode L t v \<noteq> JNull" by (cases T) auto
  with 11 show ?case by (simp add: elem_type_def decode_ptr ptr_target_def)
next
  case (12 L T vs)
  then obtain pkg name fs where T: "T = TStruct pkg name fs" "typed_fields L fs vs" by (cases T) auto
  have "decode_fields L cx name ([] @ fs) (encode_fields L fs vs) ([] @ map (\<lambda>(n, oe, t). zero_val t) fs) sv = ([] @ vs, sv, None)"
    by (rule 12) (use T 12 in auto)
  with T show ?case by (simp add: field_types_def struct_fields_def)
next
  case (15 L n oe t fs v vs)
  have "decode_fields L cx st ((pre @ [(n, oe, t)]) @ fs) (encode_fields L fs vs) ((ws @ [v]) @ map (\<lambda>(n, oe, t). zero_val t) fs) sv
      = ((ws @ [v]) @ vs, sv, None)"
    by (rule 15(2)) (use 15 in auto)
  moreover have "decode L (enter cx st n) t (encode L t v) (zero_val t) sv = (v, sv, None)"
    by (rule 15(1)) (use 15 in auto)
  ultimately show ?case using 15 decode_field [of oe v t L cx st n sv pre fs ws vs] by simp
qed (auto split: jtype.splits)

text \<open>The round trip.\<close>

lemma first_error_None: "(\<And>x. x \<in> set xs \<Longrightarrow> x = None) \<Longrightarrow> first_error xs = None"
  by (auto simp: first_error_def split: list.split dest: filter_eq_ConsD)

lemma rfc3339_ok_marshal: "rfc3339_ok off t \<Longrightarrow> \<bar>off\<bar> < 86400 \<Longrightarrow> time_marshal_error off t = None"
  by (auto simp: rfc3339_ok_def time_marshal_error_def Let_def split: prod.splits)

lemma encode_error_typed:
  "typed L T v \<Longrightarrow> encode_error v = None"
  "typed_fields L fs vs \<Longrightarrow> list_all (\<lambda>v. encode_error v = None) vs"
proof (induction L T v and L fs vs rule: typed_typed_fields.induct)
  case (4 L T x)
  then show ?case by (cases x) (auto simp: float_ok_def)
next
  case (7 L T vs hid)
  then show ?case by (auto simp: list_all_iff split: jtype.splits intro!: first_error_None)
next
  case (9 L T m)
  then show ?case by (fastforce simp: list_all_iff split: jtype.splits intro!: first_error_None)
next
  case (12 L T vs)
  then show ?case by (auto simp: list_all_iff split: jtype.splits intro!: first_error_None)
qed (auto simp: rfc3339_ok_marshal split: jtype.splits)

lemma marshal_typed: "typed L T v \<Longrightarrow> marshal L T v = Inr (print_json (encode L T v))"
  by (simp add: marshal_def encode_error_typed)

theorem unmarshal_marshal:
  assumes "typed L T v" and "wf_type T" and "type_depth T \<le> max_depth"
  shows "\<exists>data. marshal L T v = Inr data \<and> unmarshal L T data = Inr v"
proof -
  have "json_ok max_depth (encode L T v)"
    by (rule json_ok_mono [OF encode_json_ok(1) [OF assms(1,2)] assms(3)])
  then show ?thesis
    using marshal_typed [OF assms(1)] decode_encode(1) [OF assms(1,2), of None None]
    by (simp add: unmarshal_def parse_print)
qed

end
