(* ===== verification/Queue_Types.thy ===== *)
theory Queue_Types
  imports Go_Time "HOL-Library.State_Monad"
begin

text \<open>
  The data of \<open>api/types.go\<close>: configuration, job, handler registration and queue, and the
  environment the queue runs in.

  The type variable \<open>'w\<close> is the world outside the code: the redis server, the database, the
  clock and whatever the application's handlers touch. Code that acts on it is a state monad
  \<open>('w, 'a) state\<close>. Third-party code is a field of \<open>env\<close>: the definitions take
  it as an argument, and what a theorem needs of it is a named hypothesis.
\<close>

section \<open>Handlers\<close>

text \<open>A handler returns nil, returns an error (with its text), or panics (with the value as
  \<open>%v\<close> prints it). The payload is a byte slice, \<open>None\<close> for the nil slice. A
  context-aware handler also gets the lifecycle context; what it can see of it is whether it is
  cancelled.\<close>

datatype hresult = HOk | HErr string | HPanic string

type_synonym bytes = string
type_synonym 'w handler = "bytes option \<Rightarrow> ('w, hresult) state"
type_synonym 'w ctx_handler = "bool \<Rightarrow> bytes option \<Rightarrow> ('w, hresult) state"

record 'w registeredHandler =
  plain :: "'w handler option"
  ctx :: "'w ctx_handler option"

section \<open>Configuration\<close>

record configuration =
  c_Backend :: string
  c_WorkerCount :: int
  c_MaxAttempts :: int
  c_HighWaterMark :: int
  c_QueueChannels :: "string list"
  c_QueueChannelDefault :: string
  c_Debug :: bool
  c_RedisPrefix :: string
  c_RedisScanInterval :: int
  c_LockTimeout :: int
  c_ReaperInterval :: int

definition zero_configuration :: configuration where
  "zero_configuration =
     \<lparr>c_Backend = [], c_WorkerCount = 0, c_MaxAttempts = 0, c_HighWaterMark = 0,
      c_QueueChannels = [], c_QueueChannelDefault = [], c_Debug = False, c_RedisPrefix = [],
      c_RedisScanInterval = 0, c_LockTimeout = 0, c_ReaperInterval = 0\<rparr>"

section \<open>Jobs\<close>

record 'w job =
  j_ID :: string
  j_Handler :: "'w handler option"
  j_Name :: string
  j_Payload :: "bytes option"
  j_Retry :: bool
  j_RetryInSeconds :: int
  j_RetryCounter :: int
  j_ReservedAt :: string
  j_RetryAfter :: string
  j_DispatchAt :: string
  j_CompletedAt :: string
  j_FailedAt :: string
  j_LockedAt :: string
  j_LockFor :: int
  j_Queue :: string
  j_CreatedAt :: time
  j_UpdatedAt :: time
  j_Exception :: string
  j_Status :: string

text \<open>The zero \<open>time.Time\<close> is 1 January of year 1, UTC.\<close>

definition zero_time :: time where
  "zero_time = - 62135596800 * second"

definition zero_job :: "'w job" where
  "zero_job =
     \<lparr>j_ID = [], j_Handler = None, j_Name = [], j_Payload = None, j_Retry = False,
      j_RetryInSeconds = 0, j_RetryCounter = 0, j_ReservedAt = [], j_RetryAfter = [],
      j_DispatchAt = [], j_CompletedAt = [], j_FailedAt = [], j_LockedAt = [], j_LockFor = 0,
      j_Queue = [], j_CreatedAt = zero_time, j_UpdatedAt = zero_time, j_Exception = [],
      j_Status = []\<rparr>"

text \<open>What of a job a redis hash keeps: the fields tagged \<open>redis:"-"\<close> come back zero, and a
  nil payload comes back as the empty slice.\<close>

definition payload_bytes :: "bytes option \<Rightarrow> bytes" where
  "payload_bytes p = (case p of None \<Rightarrow> [] | Some b \<Rightarrow> b)"

definition redis_view :: "'w job \<Rightarrow> 'w job" where
  "redis_view j = j\<lparr>j_Handler := None, j_Payload := Some (payload_bytes (j_Payload j)),
     j_CreatedAt := zero_time, j_UpdatedAt := zero_time\<rparr>"

lemma payload_bytes_Some [simp]: "payload_bytes (Some b) = b"
  by (simp add: payload_bytes_def)

lemma redis_view_idem [simp]: "redis_view (redis_view j) = redis_view j"
  by (simp add: redis_view_def)

section \<open>The queue\<close>

text \<open>
  The fields of \<open>Queue\<close> that the code reads or writes. The redis pool, the database session
  and the lifecycle cancel function are recorded by whether they are set; \<open>q_ctxDone\<close> says
  whether the lifecycle context is cancelled; \<open>q_handlers\<close> is \<open>None\<close> for the nil map.
  The loggers and the cache carry no state of the queue. The channel \<open>Jobs\<close> belongs to the
  concurrent system of \<open>Memory_System\<close>.
\<close>

record 'w queue =
  q_Backend :: string
  q_Debug :: bool
  q_FailedJobs :: "string list"
  q_Pool :: bool
  q_Prefix :: string
  q_ScanInterval :: int
  q_WorkerCount :: int
  q_MaxAttempts :: int
  q_HighWaterMark :: int
  q_QueueChannels :: "string list"
  q_QueueChannelDefault :: string
  q_DB :: bool
  q_LockTimeout :: int
  q_ReaperInterval :: int
  q_handlers :: "(string \<rightharpoonup> 'w registeredHandler) option"
  q_pendingCount :: "64 word"
  q_ctxDone :: bool
  q_hasCancel :: bool

text \<open>Reading the registry: a missing name and the nil map read alike.\<close>

definition lookup_handler :: "'w queue \<Rightarrow> string \<Rightarrow> 'w registeredHandler option" where
  "lookup_handler q name = (case q_handlers q of None \<Rightarrow> None | Some m \<Rightarrow> m name)"

section \<open>The environment\<close>

text \<open>Replies of the redis client: nil, an integer, a status line, a bulk string (a byte slice
  in Go), an array.\<close>

datatype reply = RNil | RInt int | RStatus string | RBulk bytes | RArr "reply list"

text \<open>
  \<^item> \<open>e_Do\<close>: \<open>Conn.Do\<close>, its command and arguments as strings; a reply and an error.
  \<^item> \<open>e_AddFlat\<close>: \<open>redis.Args.AddFlat(&job)\<close>; \<open>e_ScanStruct\<close>: \<open>redis.ScanStruct\<close>;
    \<open>e_Values\<close>, \<open>e_Int\<close>, \<open>e_String\<close>, \<open>e_Strings\<close>: the client's reply converters.
  \<^item> \<open>e_connErr\<close>: \<open>Conn.Err\<close> of a connection fresh from the pool.
  \<^item> \<open>e_Insert\<close>: \<open>Collection(table).Insert(job)\<close> of the database session;
    \<open>e_All\<close>: \<open>Collection(table).Find().OrderBy("id").All\<close>.
  \<^item> \<open>e_Now\<close>: the clock; \<open>e_Local\<close>: the offset of the local zone at an instant;
    \<open>e_Sleep\<close>: \<open>time.Sleep\<close>; \<open>e_UUID\<close>: a fresh random UUID as text.
  \<^item> \<open>e_shutdown\<close>: the package variable \<open>systemShutdown\<close> as the running goroutine
    reads it; \<open>Close\<close> sets it from another goroutine.
  \<^item> \<open>e_ulow\<close>: \<open>strings.ToLower\<close> on a string that is not ASCII; \<open>e_uquote\<close>: the
    verb \<open>%q\<close> on such a string (both need Unicode tables).
\<close>

record 'w env =
  e_Do :: "string list \<Rightarrow> ('w, reply \<times> string option) state"
  e_AddFlat :: "'w job \<Rightarrow> string list"
  e_ScanStruct :: "reply list \<Rightarrow> string + 'w job"
  e_Values :: "reply \<times> string option \<Rightarrow> string + reply list"
  e_Int :: "reply \<times> string option \<Rightarrow> string + int"
  e_String :: "reply \<Rightarrow> string + string"
  e_Strings :: "reply \<Rightarrow> string + string list"
  e_connErr :: "'w \<Rightarrow> string option"
  e_Insert :: "string \<Rightarrow> 'w job \<Rightarrow> ('w, string option) state"
  e_All :: "string \<Rightarrow> 'w \<Rightarrow> string + 'w job list"
  e_Now :: "('w, time) state"
  e_Local :: "time \<Rightarrow> int"
  e_Sleep :: "duration \<Rightarrow> ('w, unit) state"
  e_UUID :: "('w, string) state"
  e_shutdown :: "'w \<Rightarrow> bool"
  e_ulow :: "string \<Rightarrow> string"
  e_uquote :: "string \<Rightarrow> string"

text \<open>\<open>time.Now().UTC().Format(time.RFC3339)\<close>\<close>

definition now_utc :: "'w env \<Rightarrow> ('w, string) state" where
  "now_utc e = do { t \<leftarrow> e_Now e; State_Monad.return (format_rfc3339 0 t) }"

section \<open>Weakest preconditions\<close>

text \<open>
  Effects are reasoned about by weakest preconditions: \<open>wp m Q w\<close> says that running \<open>m\<close>
  from \<open>w\<close> ends in a result and a world that satisfy \<open>Q\<close>. The collection \<open>wp_simps\<close>
  pushes \<open>wp\<close> through the code; the laws of an interface are facts about \<open>wp\<close> of its
  operations.
\<close>

named_theorems wp_simps \<open>weakest preconditions of the language constructs\<close>

definition wp :: "('s, 'a) state \<Rightarrow> ('a \<Rightarrow> 's \<Rightarrow> bool) \<Rightarrow> 's \<Rightarrow> bool" where
  "wp m Q s = (case run_state m s of (a, s') \<Rightarrow> Q a s')"

lemma wp_return [wp_simps]: "wp (State_Monad.return a) Q = Q a"
  by (simp add: wp_def fun_eq_iff)

lemma wp_bind [wp_simps]: "wp (State_Monad.bind m f) Q = wp m (\<lambda>a. wp (f a) Q)"
  by (simp add: wp_def fun_eq_iff split: prod.splits)

lemma wp_if [wp_simps]: "wp (if b then m else n) Q s = (if b then wp m Q s else wp n Q s)"
  by simp

lemma wp_case_option [wp_simps]:
  "wp (case x of None \<Rightarrow> m | Some y \<Rightarrow> f y) Q s = (case x of None \<Rightarrow> wp m Q s | Some y \<Rightarrow> wp (f y) Q s)"
  by (simp split: option.splits)

lemma wp_case_sum [wp_simps]:
  "wp (case x of Inl y \<Rightarrow> f y | Inr z \<Rightarrow> g z) Q s = (case x of Inl y \<Rightarrow> wp (f y) Q s | Inr z \<Rightarrow> wp (g z) Q s)"
  by (simp split: sum.splits)

lemma wp_case_prod [wp_simps]:
  "wp (case x of (y, z) \<Rightarrow> f y z) Q s = (case x of (y, z) \<Rightarrow> wp (f y z) Q s)"
  by (simp split: prod.splits)

lemma wp_let [wp_simps]:
  "wp (let x = y in f x) Q s = wp (f y) Q s"
  by (simp add: Let_def)

lemma wp_conj: "wp m P s \<Longrightarrow> wp m Q s \<Longrightarrow> wp m (\<lambda>a s'. P a s' \<and> Q a s') s"
  by (simp add: wp_def split: prod.splits)

lemma wp_mono: "wp m Q s \<Longrightarrow> (\<And>a s'. Q a s' \<Longrightarrow> R a s') \<Longrightarrow> wp m R s"
  by (auto simp: wp_def split: prod.splits)

lemma wpI: "(\<And>a s'. run_state m s = (a, s') \<Longrightarrow> Q a s') \<Longrightarrow> wp m Q s"
  by (auto simp: wp_def split: prod.splits)

lemma wpD: "wp m Q s \<Longrightarrow> run_state m s = (a, s') \<Longrightarrow> Q a s'"
  by (auto simp: wp_def)

lemma wp_snd: "wp m (\<lambda>_. Q) s \<longleftrightarrow> Q (snd (run_state m s))"
  by (simp add: wp_def split: prod.splits)

end
