(* ===== verification/Job_Json.thy ===== *)
theory Job_Json
  imports Json_Round_Trip Queue_Types
begin

text \<open>
  A job as JSON (\<open>UnmarshalPayload\<close> in \<open>api/queue.go\<close>, with the field tags of
  \<open>Job\<close> in \<open>api/types.go\<close>). Of a job JSON carries what \<open>json_view\<close> keeps: the
  handler, the retry settings and the timestamps of the database row are tagged \<open>json:"-"\<close>.
\<close>

definition Job_type :: jtype where
  "Job_type = TStruct ''api'' ''Job''
     [(''id'', False, TStr), (''name'', False, TStr), (''Payload'', False, TSlice TUint8),
      (''retryCounter'', False, TInt ''int''), (''reservedAt'', False, TStr),
      (''dispatchAt'', True, TStr), (''completedAt'', False, TStr), (''failedAt'', False, TStr),
      (''lockedAt'', True, TStr), (''lockFor'', True, TInt ''int''), (''queue'', False, TStr),
      (''exception'', False, TStr), (''status'', False, TStr)]"

fun val_str :: "gval \<Rightarrow> string" where
  "val_str (VStr s) = s"
| "val_str _ = []"

fun val_int :: "gval \<Rightarrow> int" where
  "val_int (VInt n) = n"
| "val_int _ = 0"

fun val_bytes :: "gval \<Rightarrow> bytes option" where
  "val_bytes (VSlice x hid) = map_option (map uint8_char) x"
| "val_bytes _ = None"

definition bytes_val :: "bytes option \<Rightarrow> gval" where
  "bytes_val x = VSlice (map_option (map (\<lambda>c. VUint8 (byte_val c))) x) []"

text \<open>The struct variable after decoding, read as a job.\<close>

definition val_job :: "gval \<Rightarrow> 'w job" where
  "val_job v =
     (let vs = struct_fields v; str = (\<lambda>i. val_str (vs ! i)); num = (\<lambda>i. val_int (vs ! i))
      in zero_job\<lparr>j_ID := str 0, j_Name := str 1, j_Payload := val_bytes (vs ! 2),
                  j_RetryCounter := num 3, j_ReservedAt := str 4, j_DispatchAt := str 5,
                  j_CompletedAt := str 6, j_FailedAt := str 7, j_LockedAt := str 8,
                  j_LockFor := num 9, j_Queue := str 10, j_Exception := str 11,
                  j_Status := str 12\<rparr>)"

definition job_val :: "'w job \<Rightarrow> gval" where
  "job_val j = VStruct
     [VStr (j_ID j), VStr (j_Name j), bytes_val (j_Payload j), VInt (j_RetryCounter j),
      VStr (j_ReservedAt j), VStr (j_DispatchAt j), VStr (j_CompletedAt j), VStr (j_FailedAt j),
      VStr (j_LockedAt j), VInt (j_LockFor j), VStr (j_Queue j), VStr (j_Exception j),
      VStr (j_Status j)]"

definition UnmarshalPayload :: "json_lib \<Rightarrow> bytes \<Rightarrow> string + 'w job" where
  "UnmarshalPayload L cachedJob =
     (case unmarshal L Job_type cachedJob of
        Inl err \<Rightarrow> Inl err
      | Inr v \<Rightarrow> Inr (val_job v))"

section \<open>What JSON keeps of a job\<close>

definition json_view :: "'w job \<Rightarrow> 'w job" where
  "json_view j = j\<lparr>j_Handler := None, j_Retry := False, j_RetryInSeconds := 0, j_RetryAfter := [],
     j_CreatedAt := zero_time, j_UpdatedAt := zero_time\<rparr>"

definition json_job :: "'w job \<Rightarrow> bool" where
  "json_job j \<longleftrightarrow> list_all valid_utf8
       [j_ID j, j_Name j, j_ReservedAt j, j_DispatchAt j, j_CompletedAt j, j_FailedAt j, j_LockedAt j,
        j_Queue j, j_Exception j, j_Status j]
     \<and> in_int64 (j_RetryCounter j) \<and> in_int64 (j_LockFor j)"

lemma Job_type_wf: "wf_type Job_type" "type_depth Job_type \<le> max_depth"
  by code_simp (simp add: Job_type_def max_depth_def)

lemma typed_bytes_val: "typed L (TSlice TUint8) (bytes_val x)"
  using byte_val_less by (cases x) (auto simp: bytes_val_def list_all_iff)

lemma val_bytes_val [simp]: "val_bytes (bytes_val x) = x"
  by (cases x) (simp_all add: bytes_val_def uint8_char_def comp_def)

lemma typed_job_val: "json_job j \<Longrightarrow> typed L Job_type (job_val j)"
  using typed_bytes_val [of L "j_Payload j"]
  by (simp add: json_job_def Job_type_def job_val_def)

lemma val_job_val: "val_job (job_val j) = json_view j"
  by (simp add: val_job_def job_val_def json_view_def struct_fields_def Let_def zero_job_def)

lemma UnmarshalPayload_marshal:
  assumes "json_job j"
  shows "\<exists>data. marshal L Job_type (job_val j) = Inr data \<and> UnmarshalPayload L data = Inr (json_view j)"
  using unmarshal_marshal [OF typed_job_val [OF assms, of L] Job_type_wf]
  by (auto simp: UnmarshalPayload_def val_job_val)

end
