(* ===== verification/Queue_Config.thy ===== *)
theory Queue_Config
  imports Queue_Types
begin

text \<open>
  Construction of a queue (\<open>api/queue.go\<close>, lines 35 to 226): the defaults of
  \<open>setConfigDefaults\<close>, the assembly in \<open>buildQueue\<close>, the configuration file of
  \<open>loadConfig\<close> and the two constructors \<open>New\<close> and \<open>NewWithConfig\<close>. The
  configuration after the defaults satisfies \<open>wf_config\<close>; a built queue satisfies
  \<open>wf_queue\<close>, the invariant the component theories preserve.
\<close>

section \<open>The application\<close>

text \<open>What \<open>buildQueue\<close> reads of the framework's application: whether it has a logger and
  a database, its cache (a redis cache with its pool and prefix, possibly a nil pointer, or
  another cache) and its root path.\<close>

datatype cache = RedisCache "(bool \<times> string) option" | OtherCache

record app =
  a_Log :: bool
  a_Cache :: "cache option"
  a_DB :: bool
  a_RootPath :: string

section \<open>Defaults\<close>

text \<open>Each statement of \<open>setConfigDefaults\<close> updates one field from its own old value;
  only the last one, the clamp of the reaper interval, also reads the lock timeout, after its own
  default.\<close>

definition default_int :: "int \<Rightarrow> int \<Rightarrow> int" where
  "default_int d v = (if v = 0 then d else v)"

definition default_pos :: "int \<Rightarrow> int \<Rightarrow> int" where
  "default_pos d v = (if v \<le> 0 then d else v)"

definition clamp_reaper :: "int \<Rightarrow> int \<Rightarrow> int" where
  "clamp_reaper lock reaper =
     (if reaper \<ge> lock then (let r = lock div 2 in if r < 1 then 1 else r) else reaper)"

definition setConfigDefaults :: "configuration \<Rightarrow> configuration" where
  "setConfigDefaults c =
     c\<lparr>c_Backend := (if c_Backend c = '''' then ''memory''
                     else if c_Backend c \<noteq> ''memory'' \<and> c_Backend c \<noteq> ''redis'' then ''memory''
                     else c_Backend c),
       c_WorkerCount := default_int 1 (c_WorkerCount c),
       c_MaxAttempts := default_int 3 (c_MaxAttempts c),
       c_HighWaterMark := default_int 10000 (c_HighWaterMark c),
       c_RedisScanInterval := default_int 1 (c_RedisScanInterval c),
       c_QueueChannelDefault := (if c_QueueChannelDefault c = '''' then ''job''
                                 else c_QueueChannelDefault c),
       c_LockTimeout := default_pos 300 (c_LockTimeout c),
       c_ReaperInterval := clamp_reaper (default_pos 300 (c_LockTimeout c))
                                        (default_pos 30 (c_ReaperInterval c))\<rparr>"

text \<open>A configuration in which every default has been applied.\<close>

definition wf_config :: "configuration \<Rightarrow> bool" where
  "wf_config c \<longleftrightarrow>
     (c_Backend c = ''memory'' \<or> c_Backend c = ''redis'') \<and> c_WorkerCount c \<noteq> 0
     \<and> c_MaxAttempts c \<noteq> 0 \<and> c_HighWaterMark c \<noteq> 0 \<and> c_RedisScanInterval c \<noteq> 0
     \<and> c_QueueChannelDefault c \<noteq> [] \<and> 1 \<le> c_LockTimeout c \<and> 1 \<le> c_ReaperInterval c
     \<and> (c_ReaperInterval c < c_LockTimeout c \<or> c_LockTimeout c = 1 \<and> c_ReaperInterval c = 1)"

lemma default_int_nz [simp]: "d \<noteq> 0 \<Longrightarrow> default_int d v \<noteq> 0"
  by (simp add: default_int_def)

lemma default_pos_pos [simp]: "0 < d \<Longrightarrow> 0 < default_pos d v"
  by (simp add: default_pos_def)

lemma clamp_reaper_bounds:
  assumes "0 < lock" and "0 < reaper"
  shows "1 \<le> clamp_reaper lock reaper"
    and "clamp_reaper lock reaper < lock \<or> lock = 1 \<and> clamp_reaper lock reaper = 1"
  using assms by (auto simp: clamp_reaper_def Let_def)

lemma setConfigDefaults_wf [simp]: "wf_config (setConfigDefaults c)"
  using clamp_reaper_bounds [of "default_pos 300 (c_LockTimeout c)" "default_pos 30 (c_ReaperInterval c)"]
  by (simp add: setConfigDefaults_def wf_config_def int_one_le_iff_zero_less)

lemma setConfigDefaults_id:
  assumes "wf_config c"
  shows "setConfigDefaults c = c"
proof -
  have "clamp_reaper (c_LockTimeout c) (c_ReaperInterval c) = c_ReaperInterval c"
    using assms by (auto simp: clamp_reaper_def wf_config_def)
  with assms show ?thesis
    by (auto simp: setConfigDefaults_def wf_config_def default_int_def default_pos_def)
qed

section \<open>Building\<close>

text \<open>\<open>make([]string, 0, n)\<close> panics unless the capacity is in range: not negative, and at
  16 bytes a string within the address space of the 64-bit runtime.\<close>

definition makeslice_ok :: "int \<Rightarrow> bool" where
  "makeslice_ok n \<longleftrightarrow> 0 \<le> n \<and> n * 16 \<le> 2 ^ 48"

datatype 'a go = Ret 'a | Panicked string

definition resolve_redis :: "app option \<Rightarrow> 'w queue \<Rightarrow> 'w queue" where
  "resolve_redis a q =
     (if q_Backend q = ''redis''
      then (case a of
              None \<Rightarrow> q
            | Some a' \<Rightarrow>
                (case a_Cache a' of
                   Some (RedisCache (Some (pool, pre))) \<Rightarrow>
                     (let q1 = q\<lparr>q_Pool := pool\<rparr>
                      in if q_Prefix q1 = '''' then q1\<lparr>q_Prefix := pre\<rparr> else q1)
                 | _ \<Rightarrow> q))
      else q)"

definition buildQueue :: "app option \<Rightarrow> configuration \<Rightarrow> 'w queue go" where
  "buildQueue a cfg0 =
     (let cfg = setConfigDefaults cfg0;
          q1 = \<lparr>q_Backend = c_Backend cfg, q_Debug = c_Debug cfg, q_FailedJobs = [],
                q_Pool = False, q_Prefix = c_RedisPrefix cfg,
                q_ScanInterval = c_RedisScanInterval cfg, q_WorkerCount = c_WorkerCount cfg,
                q_MaxAttempts = c_MaxAttempts cfg, q_HighWaterMark = c_HighWaterMark cfg,
                q_QueueChannels = c_QueueChannels cfg,
                q_QueueChannelDefault = c_QueueChannelDefault cfg, q_DB = False,
                q_LockTimeout = c_LockTimeout cfg, q_ReaperInterval = c_ReaperInterval cfg,
                q_handlers = None, q_pendingCount = 0, q_ctxDone = False, q_hasCancel = False\<rparr>;
          q2 = (case a of None \<Rightarrow> q1 | Some a' \<Rightarrow> if a_DB a' then q1\<lparr>q_DB := True\<rparr> else q1);
          q3 = resolve_redis a q2
      in if \<not> makeslice_ok (q_HighWaterMark q3) then Panicked ''makeslice: cap out of range''
         else let q4 = q3\<lparr>q_FailedJobs := [], q_handlers := Some Map.empty, q_ctxDone := False,
                          q_hasCancel := True\<rparr>
              in Ret (if q_QueueChannelDefault q4 \<notin> set (q_QueueChannels q4)
                      then q4\<lparr>q_QueueChannels := q_QueueChannels q4 @ [q_QueueChannelDefault q4]\<rparr>
                      else q4))"

text \<open>An entry of the registry holds exactly one of the two handler shapes.\<close>

definition one_shape :: "'w registeredHandler \<Rightarrow> bool" where
  "one_shape r \<longleftrightarrow> (plain r \<noteq> None) \<noteq> (ctx r \<noteq> None)"

definition wf_registry :: "'w queue \<Rightarrow> bool" where
  "wf_registry q \<longleftrightarrow>
     (case q_handlers q of None \<Rightarrow> True
      | Some m \<Rightarrow> \<forall>name r. m name = Some r \<longrightarrow> name \<noteq> [] \<and> one_shape r)"

definition wf_failed :: "'w queue \<Rightarrow> bool" where
  "wf_failed q \<longleftrightarrow> 1 \<le> q_HighWaterMark q \<and> int (length (q_FailedJobs q)) \<le> q_HighWaterMark q"

definition wf_queue :: "'w queue \<Rightarrow> bool" where
  "wf_queue q \<longleftrightarrow>
     (q_Backend q = ''memory'' \<or> q_Backend q = ''redis'') \<and> q_MaxAttempts q \<noteq> 0
     \<and> q_QueueChannelDefault q \<in> set (q_QueueChannels q) \<and> q_QueueChannelDefault q \<noteq> []
     \<and> 1 \<le> q_LockTimeout q \<and> 1 \<le> q_ReaperInterval q \<and> q_ReaperInterval q \<le> q_LockTimeout q
     \<and> wf_failed q \<and> wf_registry q"

lemma resolve_redis_fields [simp]:
  "q_Backend (resolve_redis a q) = q_Backend q"
  "q_HighWaterMark (resolve_redis a q) = q_HighWaterMark q"
  "q_MaxAttempts (resolve_redis a q) = q_MaxAttempts q"
  "q_QueueChannels (resolve_redis a q) = q_QueueChannels q"
  "q_QueueChannelDefault (resolve_redis a q) = q_QueueChannelDefault q"
  "q_LockTimeout (resolve_redis a q) = q_LockTimeout q"
  "q_ReaperInterval (resolve_redis a q) = q_ReaperInterval q"
  "q_WorkerCount (resolve_redis a q) = q_WorkerCount q"
  "q_pendingCount (resolve_redis a q) = q_pendingCount q"
  "q_DB (resolve_redis a q) = q_DB q"
  by (simp_all add: resolve_redis_def Let_def split: option.splits cache.splits prod.splits)

lemma buildQueue_fields:
  assumes "buildQueue a cfg0 = Ret q"
  defines "cfg \<equiv> setConfigDefaults cfg0"
  shows "q_Backend q = c_Backend cfg" and "q_WorkerCount q = c_WorkerCount cfg"
    and "q_MaxAttempts q = c_MaxAttempts cfg" and "q_HighWaterMark q = c_HighWaterMark cfg"
    and "q_QueueChannelDefault q = c_QueueChannelDefault cfg"
    and "q_LockTimeout q = c_LockTimeout cfg" and "q_ReaperInterval q = c_ReaperInterval cfg"
    and "set (q_QueueChannels q) = insert (c_QueueChannelDefault cfg) (set (c_QueueChannels cfg))"
    and "q_handlers q = Some Map.empty" and "q_FailedJobs q = []" and "q_pendingCount q = 0"
    and "q_ctxDone q = False" and "q_hasCancel q" and "makeslice_ok (c_HighWaterMark cfg)"
  using assms by (auto simp: buildQueue_def Let_def split: if_splits option.splits)

lemma buildQueue_wf:
  assumes "buildQueue a cfg = Ret q"
  shows "wf_queue q"
proof -
  note f = buildQueue_fields [OF assms]
  have c: "wf_config (setConfigDefaults cfg)" by simp
  then have "1 \<le> q_HighWaterMark q"
    using f(4,14) by (simp add: wf_config_def makeslice_ok_def)
  with f c show ?thesis
    by (auto simp: wf_queue_def wf_config_def wf_failed_def wf_registry_def)
qed

lemma buildQueue_panics:
  "(\<exists>p. buildQueue a cfg = Panicked p) \<longleftrightarrow> \<not> makeslice_ok (c_HighWaterMark (setConfigDefaults cfg))"
  by (auto simp: buildQueue_def Let_def split: option.splits)

section \<open>The configuration file\<close>

text \<open>The operating system as \<open>loadConfig\<close> sees it: whether a path is missing, and the
  outcome of each call; \<open>os_Dir\<close> is \<open>filepath.Dir\<close>.\<close>

record 'w os =
  os_IsNotExist :: "string \<Rightarrow> 'w \<Rightarrow> bool"
  os_MkdirAll :: "string \<Rightarrow> ('w, string option) state"
  os_WriteFile :: "string \<Rightarrow> string \<Rightarrow> ('w, string option) state"
  os_ReadFile :: "string \<Rightarrow> ('w, string + string) state"
  os_Dir :: "string \<Rightarrow> string"

definition seed_config :: "'w os \<Rightarrow> string + string \<Rightarrow> string \<Rightarrow> ('w, string option) state" where
  "seed_config os tmpl configPath =
     (case tmpl of
        Inl err \<Rightarrow> State_Monad.return
          (Some (''failed to read package queue config from embedded file system: '' @ err))
      | Inr data \<Rightarrow> do {
          e1 \<leftarrow> os_MkdirAll os (os_Dir os configPath);
          (case e1 of
             Some err \<Rightarrow> State_Monad.return (Some (''queue: create config dir: '' @ err))
           | None \<Rightarrow> do {
               e2 \<leftarrow> os_WriteFile os configPath data;
               State_Monad.return
                 (map_option (\<lambda>err. ''failed to write package queue config to disk: '' @ err) e2) }) })"

definition loadConfig ::
  "'w os \<Rightarrow> string + string \<Rightarrow> (string \<Rightarrow> string + configuration) \<Rightarrow> app option
   \<Rightarrow> ('w, string + configuration) state" where
  "loadConfig os tmpl unmarshal a =
     (case a of
        None \<Rightarrow> State_Monad.return
          (case tmpl of
             Inl err \<Rightarrow> Inl (''failed to read embedded queue config: '' @ err)
           | Inr data \<Rightarrow>
               (case unmarshal data of
                  Inl err \<Rightarrow> Inl (''failed to parse embedded queue config: '' @ err)
                | Inr cfg \<Rightarrow> Inr cfg))
      | Some a' \<Rightarrow> do {
          let configPath = a_RootPath a' @ ''/config/queue.yml'';
          missing \<leftarrow> State (\<lambda>w. (os_IsNotExist os configPath w, w));
          seeded \<leftarrow> (if missing then seed_config os tmpl configPath else State_Monad.return None);
          (case seeded of
             Some err \<Rightarrow> State_Monad.return (Inl err)
           | None \<Rightarrow> do {
               file \<leftarrow> os_ReadFile os configPath;
               State_Monad.return
                 (case file of
                    Inl err \<Rightarrow> Inl (''failed to read queue config file: '' @ err)
                  | Inr data \<Rightarrow>
                      (case unmarshal data of
                         Inl err \<Rightarrow> Inl (''failed to parse queue config file: '' @ err)
                       | Inr cfg \<Rightarrow> Inr cfg)) }) })"

definition New ::
  "'w os \<Rightarrow> string + string \<Rightarrow> (string \<Rightarrow> string + configuration) \<Rightarrow> app option
   \<Rightarrow> ('w, string + 'v queue go) state" where
  "New os tmpl unmarshal a = do {
     r \<leftarrow> loadConfig os tmpl unmarshal a;
     State_Monad.return
       (case r of Inl err \<Rightarrow> Inl (''queue: load config: '' @ err) | Inr cfg \<Rightarrow> Inr (buildQueue a cfg)) }"

definition NewWithConfig :: "app option \<Rightarrow> configuration \<Rightarrow> string + 'w queue go" where
  "NewWithConfig a config = Inr (buildQueue a config)"

text \<open>The files as a map from paths to contents: the reading of the operating system the
  configuration loader relies on.\<close>

locale config_files =
  fixes os :: "'w os" and files :: "'w \<Rightarrow> string \<rightharpoonup> string"
  assumes missing_iff: "os_IsNotExist os p w \<longleftrightarrow> files w p = None"
    and mkdir_files: "wp (os_MkdirAll os d) (\<lambda>r w'. files w' = files w) w"
    and write_files: "wp (os_WriteFile os p s)
      (\<lambda>r w'. (r = None \<longrightarrow> files w' = (files w)(p \<mapsto> s)) \<and> (r \<noteq> None \<longrightarrow> files w' = files w)) w"
    and read_files: "wp (os_ReadFile os p)
      (\<lambda>r w'. files w' = files w \<and> (\<forall>s. r = Inr s \<longrightarrow> files w p = Some s)) w"
begin

lemma seed_config_files:
  "wp (seed_config os tmpl p)
     (\<lambda>r w'. (r = None \<longrightarrow> (\<exists>data. tmpl = Inr data \<and> files w' = (files w)(p \<mapsto> data)))
           \<and> (r \<noteq> None \<longrightarrow> files w' = files w)) w"
proof (cases tmpl)
  case (Inl err)
  then show ?thesis by (simp add: seed_config_def wp_simps)
next
  case (Inr data)
  show ?thesis
    unfolding seed_config_def Inr sum.case wp_bind
  proof (rule wp_mono [OF mkdir_files], goal_cases)
    case (1 r w1)
    show ?case
    proof (cases r)
      case None
      then show ?thesis
        unfolding None option.case wp_bind wp_return
        by (intro wp_mono [OF write_files]) (auto simp: 1)
    next
      case (Some err)
      with 1 show ?thesis by (simp add: wp_simps)
    qed
  qed
qed

lemma read_step:
  "wp (do { file \<leftarrow> os_ReadFile os p;
            State_Monad.return
              (case file of
                 Inl err \<Rightarrow> Inl (msg1 @ err)
               | Inr data \<Rightarrow> (case unmarshal data of Inl err \<Rightarrow> Inl (msg2 @ err) | Inr cfg \<Rightarrow> Inr cfg)) })
     (\<lambda>r w'. files w' = files w
        \<and> (\<forall>cfg. r = Inr cfg \<longrightarrow> (\<exists>data. files w p = Some data \<and> unmarshal data = Inr cfg))) w"
  unfolding wp_bind wp_return
  by (rule wp_mono [OF read_files]) (auto split: sum.splits)

lemma loadConfig_file:
  assumes "p = a_RootPath a @ ''/config/queue.yml''"
  shows "wp (loadConfig os tmpl unmarshal (Some a))
     (\<lambda>r w'. \<forall>cfg. r = Inr cfg \<longrightarrow>
        (\<exists>data. files w' = (files w)(p \<mapsto> data) \<and> unmarshal data = Inr cfg
           \<and> (files w p = None \<longrightarrow> tmpl = Inr data) \<and> (files w p \<noteq> None \<longrightarrow> files w p = Some data))) w"
proof -
  have get: "wp (State (\<lambda>w. (os_IsNotExist os p w, w))) Q w = Q (files w p = None) w" for Q
    by (simp add: wp_def missing_iff)
  show ?thesis
  proof (cases "files w p = None")
    case True
    show ?thesis
      unfolding loadConfig_def option.case Let_def assms [symmetric] wp_bind get if_P [OF True]
    proof (rule wp_mono [OF seed_config_files], goal_cases)
      case (1 r w1)
      show ?case
      proof (cases r)
        case None
        with 1 obtain data where "tmpl = Inr data" "files w1 = (files w)(p \<mapsto> data)" by auto
        then show ?thesis
          unfolding None option.case by (intro wp_mono [OF read_step]) (auto simp: True)
      next
        case (Some err)
        then show ?thesis by (simp add: wp_simps)
      qed
    qed
  next
    case False
    have "wp (do { file \<leftarrow> os_ReadFile os p; State_Monad.return (f file) })
        (\<lambda>r w'. \<forall>cfg. r = Inr cfg \<longrightarrow>
          (\<exists>data. files w' = (files w)(p \<mapsto> data) \<and> unmarshal data = Inr cfg
           \<and> (files w p = None \<longrightarrow> tmpl = Inr data) \<and> (files w p \<noteq> None \<longrightarrow> files w p = Some data))) w"
      if "\<And>x. f x = (case x of Inl err \<Rightarrow> Inl (''failed to read queue config file: '' @ err)
        | Inr data \<Rightarrow> (case unmarshal data of
             Inl err \<Rightarrow> Inl (''failed to parse queue config file: '' @ err) | Inr cfg \<Rightarrow> Inr cfg))" for f
      unfolding that by (rule wp_mono [OF read_step]) (auto simp: False map_upd_triv)
    then show ?thesis
      unfolding loadConfig_def option.case Let_def assms [symmetric] wp_bind get
        if_not_P [OF False] wp_return by simp
  qed
qed

end

text \<open>The laws hold of a file system that is just such a map, on which every call succeeds and
  \<open>ReadFile\<close> reports a missing file.\<close>

definition map_os :: "(string \<rightharpoonup> string) os" where
  "map_os =
     \<lparr>os_IsNotExist = (\<lambda>p fs. fs p = None),
      os_MkdirAll = (\<lambda>d. State_Monad.return None),
      os_WriteFile = (\<lambda>p s. State (\<lambda>fs. (None, fs(p \<mapsto> s)))),
      os_ReadFile = (\<lambda>p. State (\<lambda>fs. (case fs p of None \<Rightarrow> Inl ''no such file or directory''
                                         | Some s \<Rightarrow> Inr s, fs))),
      os_Dir = (\<lambda>p. p)\<rparr>"

interpretation map_files: config_files map_os "\<lambda>fs. fs"
  by unfold_locales (auto simp: map_os_def wp_def split: option.splits)

end
