(* ===== verification/Handler_Registry.thy ===== *)
theory Handler_Registry
  imports Queue_Config
begin

text \<open>
  The handler registry (\<open>api/queue.go\<close>, lines 345 to 357 and 406 to 468):
  \<open>RegisterHandler\<close>, \<open>RegisterHandlerCtx\<close> and \<open>hasRegisteredHandler\<close>. The two
  registration functions keep one contract, stated as the locale \<open>registration\<close> and
  interpreted for each of them: a name is bound once and for all, to one handler shape.
\<close>

datatype reg_error = EmptyName | NilFunction string | AlreadyRegistered string

section \<open>Operations\<close>

definition RegisterHandler ::
  "'w queue \<Rightarrow> string \<Rightarrow> 'w handler option \<Rightarrow> reg_error option \<times> 'w queue" where
  "RegisterHandler q name fn =
     (if name = '''' then (Some EmptyName, q)
      else case fn of
        None \<Rightarrow> (Some (NilFunction name), q)
      | Some f \<Rightarrow>
          (let q1 = (if q_handlers q = None then q\<lparr>q_handlers := Some Map.empty\<rparr> else q);
               m = the (q_handlers q1)
           in if m name \<noteq> None then (Some (AlreadyRegistered name), q1)
              else (None, q1\<lparr>q_handlers := Some (m(name \<mapsto> \<lparr>plain = Some f, ctx = None\<rparr>))\<rparr>)))"

definition RegisterHandlerCtx ::
  "'w queue \<Rightarrow> string \<Rightarrow> 'w ctx_handler option \<Rightarrow> reg_error option \<times> 'w queue" where
  "RegisterHandlerCtx q name fn =
     (if name = '''' then (Some EmptyName, q)
      else case fn of
        None \<Rightarrow> (Some (NilFunction name), q)
      | Some f \<Rightarrow>
          (let q1 = (if q_handlers q = None then q\<lparr>q_handlers := Some Map.empty\<rparr> else q);
               m = the (q_handlers q1)
           in if m name \<noteq> None then (Some (AlreadyRegistered name), q1)
              else (None, q1\<lparr>q_handlers := Some (m(name \<mapsto> \<lparr>plain = None, ctx = Some f\<rparr>))\<rparr>)))"

definition hasRegisteredHandler :: "'w queue \<Rightarrow> string \<Rightarrow> bool" where
  "hasRegisteredHandler q name =
     (case lookup_handler q name of None \<Rightarrow> False | Some reg \<Rightarrow> plain reg \<noteq> None \<or> ctx reg \<noteq> None)"

section \<open>The contract\<close>

text \<open>A registration operation, with \<open>entry f\<close> the record it stores for a function \<open>f\<close>.\<close>

locale registration =
  fixes reg :: "'w queue \<Rightarrow> string \<Rightarrow> 'f option \<Rightarrow> reg_error option \<times> 'w queue"
    and entry :: "'f \<Rightarrow> 'w registeredHandler"
  assumes entry_shape: "one_shape (entry f)"
    and reg_ok: "reg q name fn = (None, q') \<Longrightarrow>
      name \<noteq> [] \<and> lookup_handler q name = None
      \<and> (\<exists>f. fn = Some f \<and> lookup_handler q' = (lookup_handler q)(name \<mapsto> entry f))"
    and reg_err: "reg q name fn = (Some err, q') \<Longrightarrow> lookup_handler q' = lookup_handler q"
    and reg_err_iff: "fst (reg q name fn) = None \<longleftrightarrow>
      name \<noteq> [] \<and> fn \<noteq> None \<and> lookup_handler q name = None"
    and reg_frame: "(snd (reg q name fn))\<lparr>q_handlers := q_handlers q\<rparr> = q"
begin

lemma reg_monotone: "lookup_handler q n = Some r \<Longrightarrow> lookup_handler (snd (reg q name fn)) n = Some r"
proof (cases "reg q name fn")
  case (Pair res q')
  assume n: "lookup_handler q n = Some r"
  show ?thesis
  proof (cases res)
    case None
    with Pair reg_ok [of q name fn q'] n show ?thesis by auto
  next
    case (Some err)
    with Pair reg_err [of q name fn err q'] n show ?thesis by simp
  qed
qed

lemma reg_twice:
  assumes "reg q name fn = (None, q')"
  shows "fst (reg q' name fn') \<noteq> None"
proof -
  from reg_ok [OF assms] have "lookup_handler q' name \<noteq> None" by auto
  then show ?thesis by (simp add: reg_err_iff)
qed

lemma reg_wf_registry:
  assumes "wf_registry q"
  shows "wf_registry (snd (reg q name fn))"
proof (cases "reg q name fn")
  case (Pair res q')
  have wf: "wf_registry p \<longleftrightarrow> (\<forall>n r. lookup_handler p n = Some r \<longrightarrow> n \<noteq> [] \<and> one_shape r)"
    for p :: "'w queue"
    by (auto simp: wf_registry_def lookup_handler_def split: option.splits)
  show ?thesis
  proof (cases res)
    case None
    with Pair reg_ok [of q name fn q'] assms entry_shape show ?thesis
      by (auto simp: wf split: if_splits) blast
  next
    case (Some err)
    with Pair reg_err [of q name fn err q'] assms show ?thesis by (simp add: wf)
  qed
qed

lemma reg_wf_queue:
  assumes "wf_queue q"
  shows "wf_queue (snd (reg q name fn))"
proof -
  define q' where "q' = snd (reg q name fn)"
  have "wf_registry q'"
    using assms reg_wf_registry by (simp add: wf_queue_def q'_def)
  moreover have "wf_queue (q'\<lparr>q_handlers := q_handlers q\<rparr>)"
    using assms by (simp add: q'_def reg_frame)
  ultimately show ?thesis
    by (simp add: q'_def [symmetric] wf_queue_def wf_failed_def)
qed

end

lemma lookup_handler_map: "lookup_handler q = (case q_handlers q of None \<Rightarrow> Map.empty | Some m \<Rightarrow> m)"
  by (auto simp: lookup_handler_def split: option.splits)

interpretation plain_reg: registration RegisterHandler "\<lambda>f. \<lparr>plain = Some f, ctx = None\<rparr>"
  by unfold_locales
    (auto simp: RegisterHandler_def one_shape_def lookup_handler_map Let_def
      split: if_splits option.splits)

interpretation ctx_reg: registration RegisterHandlerCtx "\<lambda>f. \<lparr>plain = None, ctx = Some f\<rparr>"
  by unfold_locales
    (auto simp: RegisterHandlerCtx_def one_shape_def lookup_handler_map Let_def
      split: if_splits option.splits)

lemma hasRegisteredHandler_iff:
  assumes "wf_registry q"
  shows "hasRegisteredHandler q name \<longleftrightarrow> lookup_handler q name \<noteq> None"
  using assms by (auto simp: hasRegisteredHandler_def wf_registry_def one_shape_def lookup_handler_def
      split: option.splits)

end
