(* ===== verification/Memory_Backend.thy ===== *)
theory Memory_Backend
  imports Handler_Registry Go_Json
begin

text \<open>
  The memory backend (\<open>api/memory.go\<close> and \<open>runHandler\<close>, \<open>worker\<close> of
  \<open>api/queue.go\<close>): recording a failed job and scheduling its retry, recording a completed
  job, running a handler with panic recovery, and the body of the worker loop. A goroutine the code
  starts is part of the result: the delay it sleeps and the job it then sends.

  \<open>process_job\<close> follows one job through all its retries; it returns
  (\<open>process_job_total\<close>), and an always-failing job runs \<open>MaxAttempts + 1\<close> times.
\<close>

section \<open>Failure and completion\<close>

type_synonym 'w spawn = "(duration \<times> 'w job) option"

definition retry_delay :: "'w job \<Rightarrow> duration" where
  "retry_delay job =
     (if j_RetryInSeconds job \<noteq> 0
      then let backoff = wrap64 (j_RetryInSeconds job * j_RetryCounter job);
               backoff' = (if backoff = 0 then j_RetryInSeconds job else backoff)
           in seconds backoff'
      else seconds (j_RetryCounter job))"

definition push_failed :: "'w queue \<Rightarrow> string \<Rightarrow> 'w queue" where
  "push_failed q i =
     (let q1 = (if int (length (q_FailedJobs q)) \<ge> q_HighWaterMark q then q\<lparr>q_FailedJobs := []\<rparr> else q)
      in q1\<lparr>q_FailedJobs := q_FailedJobs q1 @ [i]\<rparr>)"

definition failed_record :: "'w job \<Rightarrow> 'w job" where
  "failed_record job =
     zero_job\<lparr>j_Name := j_Name job, j_ID := j_ID job,
              j_Payload := map_option json_marshal_bytes (j_Payload job)\<rparr>"

definition addFailedJob :: "'w env \<Rightarrow> 'w queue \<Rightarrow> 'w job \<Rightarrow> ('w, 'w queue \<times> 'w spawn) state" where
  "addFailedJob e q job =
     (let q' = push_failed q (j_ID job)
      in if j_Retry job \<and> j_RetryCounter job < q_MaxAttempts q
         then State_Monad.return
           (q', Some (retry_delay job, job\<lparr>j_RetryCounter := wrap64 (j_RetryCounter job + 1)\<rparr>))
         else do {
           _ \<leftarrow> (if q_DB q then e_Insert e ''failed_jobs'' (failed_record job)
                else State_Monad.return None);
           State_Monad.return (q', None) })"

definition completed_record :: "'w job \<Rightarrow> 'w job" where
  "completed_record job = job\<lparr>j_Payload := map_option json_marshal_bytes (j_Payload job)\<rparr>"

definition addCompletedJob :: "'w env \<Rightarrow> 'w queue \<Rightarrow> 'w job \<Rightarrow> ('w, unit) state" where
  "addCompletedJob e q job = do {
     _ \<leftarrow> (if q_DB q then e_Insert e ''jobs'' (completed_record job) else State_Monad.return None);
     State_Monad.return () }"

definition GetFailedJobsFromMemory :: "'w queue \<Rightarrow> string list" where
  "GetFailedJobsFromMemory q = q_FailedJobs q"

definition GetCompletedJobs :: "'w env \<Rightarrow> 'w queue \<Rightarrow> 'w \<Rightarrow> string + 'w job list" where
  "GetCompletedJobs e q w = (if \<not> q_DB q then Inr [] else e_All e ''jobs'' w)"

definition GetFailedJobs :: "'w env \<Rightarrow> 'w queue \<Rightarrow> 'w \<Rightarrow> string + 'w job list" where
  "GetFailedJobs e q w = (if \<not> q_DB q then Inr [] else e_All e ''failed_jobs'' w)"

section \<open>Running a handler\<close>

definition nil_call :: string where
  "nil_call = ''runtime error: invalid memory address or nil pointer dereference''"

text \<open>The choice among the registered context-aware handler, the registered plain handler and
  the job's own handler; calling a nil function panics.\<close>

definition invoke_handler :: "'w queue \<Rightarrow> 'w job \<Rightarrow> ('w, hresult) state" where
  "invoke_handler q job =
     (let own = (case j_Handler job of None \<Rightarrow> State_Monad.return (HPanic nil_call)
                 | Some h \<Rightarrow> h (j_Payload job))
      in case lookup_handler q (j_Name job) of
           None \<Rightarrow> own
         | Some reg \<Rightarrow>
             (case ctx reg of
                Some f \<Rightarrow> f (q_ctxDone q) (j_Payload job)
              | None \<Rightarrow>
                  (case plain reg of Some f \<Rightarrow> f (j_Payload job) | None \<Rightarrow> own)))"

definition runHandler :: "'w env \<Rightarrow> 'w queue \<Rightarrow> 'w job \<Rightarrow> ('w, 'w queue \<times> 'w spawn) state" where
  "runHandler e q job = do {
     r \<leftarrow> invoke_handler q job;
     (case r of
        HPanic p \<Rightarrow> addFailedJob e q (job\<lparr>j_Exception := ''panic: '' @ p\<rparr>)
      | HErr m \<Rightarrow> addFailedJob e q (job\<lparr>j_Exception := m\<rparr>)
      | HOk \<Rightarrow> do { addCompletedJob e q job; State_Monad.return (q, None) }) }"

text \<open>The body of the memory worker's loop, for one job received from the channel.\<close>

definition runnable :: "'w queue \<Rightarrow> 'w job \<Rightarrow> bool" where
  "runnable q job \<longleftrightarrow> j_Handler job \<noteq> None \<or> hasRegisteredHandler q (j_Name job)"

definition worker_body :: "'w env \<Rightarrow> 'w queue \<Rightarrow> 'w job \<Rightarrow> ('w, 'w queue \<times> 'w spawn) state" where
  "worker_body e q job = do {
     (q1, sp) \<leftarrow> (if runnable q job then runHandler e q job else State_Monad.return (q, None));
     State_Monad.return (q1\<lparr>q_pendingCount := q_pendingCount q1 - 1\<rparr>, sp) }"

section \<open>The failure cache\<close>

lemma push_failed_fields [simp]:
  "q_Backend (push_failed q i) = q_Backend q" "q_MaxAttempts (push_failed q i) = q_MaxAttempts q"
  "q_HighWaterMark (push_failed q i) = q_HighWaterMark q"
  "q_handlers (push_failed q i) = q_handlers q" "q_DB (push_failed q i) = q_DB q"
  "q_ctxDone (push_failed q i) = q_ctxDone q"
  "q_pendingCount (push_failed q i) = q_pendingCount q"
  "q_QueueChannels (push_failed q i) = q_QueueChannels q"
  "q_QueueChannelDefault (push_failed q i) = q_QueueChannelDefault q"
  "q_LockTimeout (push_failed q i) = q_LockTimeout q"
  "q_ReaperInterval (push_failed q i) = q_ReaperInterval q"
  by (simp_all add: push_failed_def Let_def)

lemma push_failed_last: "i \<in> set (q_FailedJobs (push_failed q i))"
  by (simp add: push_failed_def Let_def)

lemma push_failed_wf: "wf_queue q \<Longrightarrow> wf_queue (push_failed q i)"
  by (auto simp: wf_queue_def wf_failed_def wf_registry_def push_failed_def Let_def)

section \<open>What a worker step does to the queue\<close>

text \<open>The configuration part of a queue, which no worker step changes.\<close>

definition setup_of :: "'w queue \<Rightarrow> 'w queue" where
  "setup_of q = q\<lparr>q_FailedJobs := [], q_pendingCount := 0\<rparr>"

lemma setup_of_updates [simp]:
  "setup_of (q\<lparr>q_pendingCount := n\<rparr>) = setup_of q"
  "setup_of (q\<lparr>q_FailedJobs := l\<rparr>) = setup_of q"
  "setup_of (push_failed q i) = setup_of q"
  by (simp_all add: setup_of_def push_failed_def Let_def)

lemma setup_ofD:
  assumes "setup_of q' = setup_of q"
  shows "q_MaxAttempts q' = q_MaxAttempts q" and "q_handlers q' = q_handlers q"
    and "q_ctxDone q' = q_ctxDone q" and "q_DB q' = q_DB q" and "q_Backend q' = q_Backend q"
    and "q_HighWaterMark q' = q_HighWaterMark q"
  using arg_cong [OF assms, of q_MaxAttempts] arg_cong [OF assms, of q_handlers]
    arg_cong [OF assms, of q_ctxDone] arg_cong [OF assms, of q_DB] arg_cong [OF assms, of q_Backend]
    arg_cong [OF assms, of q_HighWaterMark]
  by (simp_all add: setup_of_def)

text \<open>The effect of a failure on the queue and the goroutine it starts, whatever the world.\<close>

definition failure_effect :: "'w queue \<Rightarrow> 'w job \<Rightarrow> 'w queue \<times> 'w spawn" where
  "failure_effect q job =
     (push_failed q (j_ID job),
      if j_Retry job \<and> j_RetryCounter job < q_MaxAttempts q
      then Some (retry_delay job, job\<lparr>j_RetryCounter := wrap64 (j_RetryCounter job + 1)\<rparr>)
      else None)"

lemma addFailedJob_effect: "fst (run_state (addFailedJob e q job) w) = failure_effect q job"
  by (simp add: addFailedJob_def failure_effect_def Let_def split: prod.splits)

lemma addFailedJob_spawns_no_insert:
  assumes "j_Retry job" and "j_RetryCounter job < q_MaxAttempts q"
  shows "snd (run_state (addFailedJob e q job) w) = w"
  using assms by (simp add: addFailedJob_def Let_def)

text \<open>The job with the exception text a handler result leaves on it.\<close>

fun with_exception :: "'w job \<Rightarrow> hresult \<Rightarrow> 'w job" where
  "with_exception job HOk = job"
| "with_exception job (HErr m) = job\<lparr>j_Exception := m\<rparr>"
| "with_exception job (HPanic p) = job\<lparr>j_Exception := ''panic: '' @ p\<rparr>"

lemma with_exception_fields [simp]:
  "j_ID (with_exception job r) = j_ID job \<and> j_Retry (with_exception job r) = j_Retry job
   \<and> j_RetryCounter (with_exception job r) = j_RetryCounter job
   \<and> j_Name (with_exception job r) = j_Name job \<and> j_Payload (with_exception job r) = j_Payload job
   \<and> j_Handler (with_exception job r) = j_Handler job
   \<and> retry_delay (with_exception job r) = retry_delay job"
  by (cases r) (simp_all add: retry_delay_def Let_def)

lemma with_exception_update:
  assumes "r \<noteq> HOk"
  shows "\<exists>x. with_exception job r = job\<lparr>j_Exception := x\<rparr>"
proof (cases r)
  case (HErr m)
  show ?thesis unfolding HErr with_exception.simps by (rule exI) (rule refl)
next
  case (HPanic p)
  show ?thesis unfolding HPanic with_exception.simps by (rule exI) (rule refl)
qed (use assms in simp)

lemma runHandler_effect:
  assumes "run_state (invoke_handler q job) w = (r, w1)"
  shows "fst (run_state (runHandler e q job) w)
    = (if r = HOk then (q, None) else failure_effect q (with_exception job r))"
  using assms by (cases r) (simp_all add: runHandler_def addFailedJob_effect split: prod.splits)

text \<open>The outcome of a worker step: the queue apart from its failure cache and counter is kept,
  the counter goes down by one, and a retry is started exactly when the handler ran, failed, and
  the job may be retried.\<close>

lemma worker_body_effect:
  assumes "run_state (worker_body e q job) w = ((q', sp), w')"
    and "run_state (invoke_handler q job) w = (r, w1)"
  shows "setup_of q' = setup_of q"
    and "q_pendingCount q' = q_pendingCount q - 1"
    and "sp = (if runnable q job \<and> r \<noteq> HOk then snd (failure_effect q (with_exception job r)) else None)"
    and "q_FailedJobs q' = (if runnable q job \<and> r \<noteq> HOk then q_FailedJobs (push_failed q (j_ID job))
                            else q_FailedJobs q)"
proof -
  obtain q1 where q1: "q' = q1\<lparr>q_pendingCount := q_pendingCount q1 - 1\<rparr>"
    and eff: "(q1, sp) = (if runnable q job then fst (run_state (runHandler e q job) w) else (q, None))"
    using assms(1) by (auto simp: worker_body_def split: prod.splits if_splits)
  note eff' = eff [unfolded runHandler_effect [OF assms(2)]]
  show "setup_of q' = setup_of q" and "q_pendingCount q' = q_pendingCount q - 1"
    and "sp = (if runnable q job \<and> r \<noteq> HOk then snd (failure_effect q (with_exception job r)) else None)"
    and "q_FailedJobs q' = (if runnable q job \<and> r \<noteq> HOk then q_FailedJobs (push_failed q (j_ID job))
                            else q_FailedJobs q)"
    using eff' by (auto simp: q1 failure_effect_def split: if_splits)
qed

lemma worker_body_wf:
  assumes "wf_queue q" and "run_state (worker_body e q job) w = ((q', sp), w')"
  shows "wf_queue q'"
proof -
  obtain r w1 where r: "run_state (invoke_handler q job) w = (r, w1)"
    by (cases "run_state (invoke_handler q job) w")
  obtain q1 where q1: "q' = q1\<lparr>q_pendingCount := q_pendingCount q1 - 1\<rparr>"
    and eff: "(q1, sp) = (if runnable q job then fst (run_state (runHandler e q job) w) else (q, None))"
    using assms(2) by (auto simp: worker_body_def split: prod.splits if_splits)
  have "q1 = q \<or> q1 = push_failed q (j_ID job)"
    using eff [unfolded runHandler_effect [OF r]] by (auto simp: failure_effect_def split: if_splits)
  then have "wf_queue q1" using assms(1) push_failed_wf by auto
  then show ?thesis by (simp add: q1 wf_queue_def wf_failed_def wf_registry_def)
qed

section \<open>One job through all its retries\<close>

text \<open>
  A worker runs the job; while that starts a retry, the retry goroutine sleeps, counts the job as
  pending again and hands it to a worker. The result counts the worker passes. That the sequence
  ends is \<open>process_job_total\<close>.
\<close>

partial_function (option) process_job ::
  "'w env \<Rightarrow> 'w queue \<Rightarrow> 'w job \<Rightarrow> 'w \<Rightarrow> (nat \<times> 'w queue \<times> 'w) option" where
  "process_job e q job w =
     (case run_state (worker_body e q job) w of
        ((q1, sp), w1) \<Rightarrow>
          (case sp of
             None \<Rightarrow> Some (1, q1, w1)
           | Some (d, j) \<Rightarrow>
               Option.bind (process_job e (q1\<lparr>q_pendingCount := q_pendingCount q1 + 1\<rparr>) j
                              (snd (run_state (e_Sleep e d) w1)))
                 (\<lambda>(n, q2, w2). Some (Suc n, q2, w2))))"

lemma invoke_handler_cong:
  assumes "setup_of q' = setup_of q" and "j_Name j = j_Name job" and "j_Payload j = j_Payload job"
    and "j_Handler j = j_Handler job"
  shows "invoke_handler q' j = invoke_handler q job" and "runnable q' j = runnable q job"
  using setup_ofD [OF assms(1)] assms(2-4)
  by (simp_all add: invoke_handler_def runnable_def hasRegisteredHandler_def lookup_handler_def Let_def
      cong: option.case_cong)

lemma failure_effect_retry:
  assumes "snd (failure_effect q job) = Some (d, j)" and "in_int64 (q_MaxAttempts q)"
    and "in_int64 (j_RetryCounter job)"
  shows "j_Retry job" and "j_RetryCounter job < q_MaxAttempts q"
    and "j = job\<lparr>j_RetryCounter := j_RetryCounter job + 1\<rparr>" and "d = retry_delay job"
proof -
  from assms(1) show r: "j_Retry job" "j_RetryCounter job < q_MaxAttempts q" "d = retry_delay job"
    by (auto simp: failure_effect_def split: if_splits)
  with assms(2,3) have "wrap64 (j_RetryCounter job + 1) = j_RetryCounter job + 1"
    by (intro wrap64_id) (auto simp: in_int64_def)
  with assms(1) r show "j = job\<lparr>j_RetryCounter := j_RetryCounter job + 1\<rparr>"
    by (auto simp: failure_effect_def)
qed

text \<open>One pass either ends the job or leads to a retry of the same job with the counter one up.\<close>

lemma worker_body_cases:
  assumes "run_state (worker_body e q job) w = ((q1, sp), w1)"
    and "in_int64 (q_MaxAttempts q)" and "in_int64 (j_RetryCounter job)"
  obtains (finished) "sp = None"
  | (retry) d x where "sp = Some (d, job\<lparr>j_Exception := x, j_RetryCounter := j_RetryCounter job + 1\<rparr>)"
      and "j_Retry job" and "j_RetryCounter job < q_MaxAttempts q"
proof -
  obtain r w2 where r: "run_state (invoke_handler q job) w = (r, w2)"
    by (cases "run_state (invoke_handler q job) w")
  note sp = worker_body_effect(3) [OF assms(1) r]
  show ?thesis
  proof (cases sp)
    case None
    then show ?thesis by (rule finished)
  next
    case (Some dj)
    obtain d j where dj: "dj = (d, j)" by (cases dj)
    from sp Some dj have "snd (failure_effect q (with_exception job r)) = Some (d, j)" and nok: "r \<noteq> HOk"
      by (auto split: if_splits)
    moreover have rc: "j_RetryCounter (with_exception job r) = j_RetryCounter job"
      and rt': "j_Retry (with_exception job r) = j_Retry job" by simp_all
    ultimately have rt: "j_Retry job" "j_RetryCounter job < q_MaxAttempts q"
      and j: "j = with_exception job r\<lparr>j_RetryCounter := j_RetryCounter job + 1\<rparr>"
      using failure_effect_retry [OF _ assms(2), of "with_exception job r", unfolded rc rt'] assms(3)
      by blast+
    obtain x where x: "with_exception job r = job\<lparr>j_Exception := x\<rparr>"
      using with_exception_update [OF nok] by blast
    have "sp = Some (d, job\<lparr>j_Exception := x, j_RetryCounter := j_RetryCounter job + 1\<rparr>)"
      unfolding Some dj j x by (rule refl)
    from this rt show ?thesis by (rule retry)
  qed
qed

lemma process_job_total:
  assumes "in_int64 (q_MaxAttempts q)" and "in_int64 (j_RetryCounter job)"
  shows "\<exists>n q' w'. process_job e q job w = Some (n, q', w')
    \<and> int n \<le> 1 + max 0 (q_MaxAttempts q - j_RetryCounter job)
    \<and> setup_of q' = setup_of q \<and> q_pendingCount q' = q_pendingCount q - 1"
  using assms
proof (induction "nat (q_MaxAttempts q - j_RetryCounter job)" arbitrary: q job w rule: less_induct)
  case less
  obtain q1 sp w1 where step: "run_state (worker_body e q job) w = ((q1, sp), w1)"
    by (metis prod.exhaust)
  obtain r w2 where r: "run_state (invoke_handler q job) w = (r, w2)"
    by (cases "run_state (invoke_handler q job) w")
  note q1 = worker_body_effect(1,2) [OF step r] and max1 = setup_ofD(1) [OF worker_body_effect(1) [OF step r]]
  from step less.prems show ?case
  proof (cases rule: worker_body_cases)
    case finished
    then show ?thesis using q1 step by (subst process_job.simps) simp
  next
    case (retry d x)
    let ?j = "job\<lparr>j_Exception := x, j_RetryCounter := j_RetryCounter job + 1\<rparr>"
    let ?q = "q1\<lparr>q_pendingCount := q_pendingCount q1 + 1\<rparr>"
    have in64: "in_int64 (j_RetryCounter job + 1)"
      using retry(3) less.prems by (simp add: in_int64_def)
    obtain n q' w' where "process_job e ?q ?j (snd (run_state (e_Sleep e d) w1)) = Some (n, q', w')"
      and "int n \<le> 1 + max 0 (q_MaxAttempts q - (j_RetryCounter job + 1))"
      and "setup_of q' = setup_of q" and "q_pendingCount q' = q_pendingCount q1"
      using less.hyps [of ?q ?j "snd (run_state (e_Sleep e d) w1)"] retry(3) less.prems(1) in64 q1 max1
      by auto
    with retry step q1 show ?thesis by (subst process_job.simps) simp
  qed
qed

text \<open>A handler that fails in every world.\<close>

definition always_fails :: "'w queue \<Rightarrow> 'w job \<Rightarrow> bool" where
  "always_fails q job \<longleftrightarrow> (\<forall>w. fst (run_state (invoke_handler q job) w) \<noteq> HOk)"

lemma worker_body_always_fails:
  assumes "runnable q job" and "always_fails q job"
    and "run_state (worker_body e q job) w = ((q1, sp), w1)"
  shows "sp \<noteq> None \<longleftrightarrow> j_Retry job \<and> j_RetryCounter job < q_MaxAttempts q"
    and "j_ID job \<in> set (q_FailedJobs q1)"
proof -
  obtain r w2 where r: "run_state (invoke_handler q job) w = (r, w2)"
    by (cases "run_state (invoke_handler q job) w")
  with assms(2) have "r \<noteq> HOk" unfolding always_fails_def by (metis fst_conv)
  with worker_body_effect(3,4) [OF assms(3) r] assms(1)
  show "sp \<noteq> None \<longleftrightarrow> j_Retry job \<and> j_RetryCounter job < q_MaxAttempts q"
    and "j_ID job \<in> set (q_FailedJobs q1)"
    by (simp_all add: failure_effect_def push_failed_last)
qed

lemma process_job_always_fails:
  assumes "in_int64 (q_MaxAttempts q)" and "in_int64 (j_RetryCounter job)"
    and "j_Retry job" and "j_RetryCounter job \<le> q_MaxAttempts q"
    and "runnable q job" and "always_fails q job"
  shows "\<exists>n q' w'. process_job e q job w = Some (n, q', w')
    \<and> int n = q_MaxAttempts q - j_RetryCounter job + 1 \<and> j_ID job \<in> set (q_FailedJobs q')"
  using assms
proof (induction "nat (q_MaxAttempts q - j_RetryCounter job)" arbitrary: q job w rule: less_induct)
  case less
  obtain q1 sp w1 where step: "run_state (worker_body e q job) w = ((q1, sp), w1)"
    by (metis prod.exhaust)
  obtain r w2 where r: "run_state (invoke_handler q job) w = (r, w2)"
    by (cases "run_state (invoke_handler q job) w")
  note setup1 = worker_body_effect(1) [OF step r]
  note fail = worker_body_always_fails [OF less.prems(5,6) step]
  from step less.prems(1,2) show ?case
  proof (cases rule: worker_body_cases)
    case finished
    with fail less.prems have "j_RetryCounter job = q_MaxAttempts q" by auto
    with finished fail(2) step show ?thesis by (subst process_job.simps) simp
  next
    case (retry d x)
    let ?j = "job\<lparr>j_Exception := x, j_RetryCounter := j_RetryCounter job + 1\<rparr>"
    let ?q = "q1\<lparr>q_pendingCount := q_pendingCount q1 + 1\<rparr>"
    have su: "setup_of ?q = setup_of q" using setup1 by simp
    have "in_int64 (j_RetryCounter job + 1)"
      using retry(3) less.prems(1,2) by (simp add: in_int64_def)
    moreover have "runnable ?q ?j" and "always_fails ?q ?j"
      using invoke_handler_cong [OF su, of ?j job] less.prems(5,6) by (simp_all add: always_fails_def)
    moreover have "q_MaxAttempts ?q = q_MaxAttempts q" by (rule setup_ofD(1) [OF su])
    ultimately obtain n q' w'
      where "process_job e ?q ?j (snd (run_state (e_Sleep e d) w1)) = Some (n, q', w')"
        and "int n = q_MaxAttempts q - (j_RetryCounter job + 1) + 1" and "j_ID job \<in> set (q_FailedJobs q')"
      using less.hyps [of ?q ?j "snd (run_state (e_Sleep e d) w1)"] retry(3) less.prems(1,3) by auto
    with retry step show ?thesis by (subst process_job.simps) simp
  qed
qed

end
