(* ===== verification/Bench_Jobs.thy ===== *)
theory Bench_Jobs
  imports Job_Json Memory_Backend
begin

text \<open>
  The benchmark jobs (\<open>internal/bench/benchjobs\<close>): for each job its payload type, its handler
  and its constructor. The package's state is the record \<open>bench\<close>: the counters of the flaky
  jobs, the total of the always-failing job, and the lines printed, each as the format and the
  arguments of its \<open>Printf\<close>. It is a part of the world, reached through \<open>b_get\<close> and
  \<open>b_put\<close>.

  The queue calls a handler with the job's payload, a byte slice, so the handlers' check that the
  dynamic type of their argument is \<open>[]byte\<close> always succeeds; their type here says so.
\<close>

section \<open>State and environment\<close>

datatype arg = AInt int | AStr string | AUint "64 word" | ADur duration | AFloat float64
  | AStrs "string list" | ARate int duration

record bench =
  flakyAttempts :: "string \<rightharpoonup> int"
  alwaysErrorAttempts :: int
  printed :: "(string \<times> arg list) list"

text \<open>\<open>b_Float64\<close> and \<open>b_IntN\<close> are \<open>math/rand\<close>, \<open>b_NumGoroutine\<close> is
  \<open>runtime.NumGoroutine\<close>.\<close>

record 'w benv =
  b_env :: "'w env"
  b_json :: json_lib
  b_get :: "'w \<Rightarrow> bench"
  b_put :: "bench \<Rightarrow> 'w \<Rightarrow> 'w"
  b_Float64 :: "('w, float64) state"
  b_IntN :: "int \<Rightarrow> ('w, int) state"
  b_NumGoroutine :: "('w, int) state"

definition modify :: "'w benv \<Rightarrow> (bench \<Rightarrow> 'a \<times> bench) \<Rightarrow> ('w, 'a) state" where
  "modify b f = State (\<lambda>w. case f (b_get b w) of (a, s) \<Rightarrow> (a, b_put b s w))"

definition printf :: "'w benv \<Rightarrow> string \<Rightarrow> arg list \<Rightarrow> ('w, unit) state" where
  "printf b format args = modify b (\<lambda>s. ((), s\<lparr>printed := printed s @ [(format, args)]\<rparr>))"

definition millisecond :: duration where "millisecond = 1000000"

definition u8 :: "nat list \<Rightarrow> string" where "u8 ns = map char_of ns"

definition nl :: string where "nl = [CHR 0x0A]"

text \<open>The dash in some of the messages, U+2014.\<close>

definition em_dash :: string where "em_dash = u8 [0xE2, 0x80, 0x94]"

section \<open>Payloads\<close>

text \<open>The common start of a handler: decode the payload or return the wrapped error.\<close>

definition with_payload ::
  "'w benv \<Rightarrow> string \<Rightarrow> jtype \<Rightarrow> bytes option \<Rightarrow> (gval \<Rightarrow> ('w, hresult) state) \<Rightarrow> ('w, hresult) state" where
  "with_payload b label T payload k =
     (case unmarshal (b_json b) T (payload_bytes payload) of
        Inl err \<Rightarrow> State_Monad.return (HErr (label @ '': unmarshal: '' @ err))
      | Inr p \<Rightarrow> k p)"

text \<open>The common end of a constructor: marshal the payload, build the job for channel
  \<open>job\<close>; the retrying jobs have \<open>RetryInSeconds\<close> 1.\<close>

definition new_job ::
  "'w benv \<Rightarrow> jtype \<Rightarrow> gval \<Rightarrow> string \<Rightarrow> 'w handler \<Rightarrow> bool \<Rightarrow> string + 'w job" where
  "new_job b T p name h retry =
     (case marshal (b_json b) T p of
        Inl err \<Rightarrow> Inl err
      | Inr raw \<Rightarrow> Inr (zero_job\<lparr>j_Name := name, j_Payload := Some raw, j_Handler := Some h,
                                 j_Queue := ''job'', j_Retry := retry,
                                 j_RetryInSeconds := (if retry then 1 else 0)\<rparr>))"

definition field :: "jtype \<Rightarrow> gval \<Rightarrow> string \<Rightarrow> gval" where
  "field T p n =
     (case find_index (\<lambda>f. fst f = n) (field_types T) of
        Some i \<Rightarrow> struct_fields p ! i
      | None \<Rightarrow> VPtr None)"

definition int_field :: "jtype \<Rightarrow> gval \<Rightarrow> string \<Rightarrow> int" where
  "int_field T p n = val_int (field T p n)"

definition str_field :: "jtype \<Rightarrow> gval \<Rightarrow> string \<Rightarrow> string" where
  "str_field T p n = val_str (field T p n)"

section \<open>Simple jobs\<close>

definition CounterPayload :: jtype where
  "CounterPayload = TStruct ''benchjobs'' ''CounterPayload'' [(''n'', False, TInt ''int'')]"

text \<open>The loop prints \<open>i\<close> to \<open>n\<close>. The source's \<open>int\<close> counter could only leave its
  range for \<open>n = 2\<^sup>6\<^sup>3 - 1\<close>, after 2 to the 63 lines.\<close>

function counter_loop :: "'w benv \<Rightarrow> int \<Rightarrow> int \<Rightarrow> ('w, unit) state" where
  "counter_loop b i n =
     (if i \<le> n then do { printf b (''counter: %d'' @ nl) [AInt i]; counter_loop b (i + 1) n }
      else State_Monad.return ())"
  by pat_completeness auto
termination by (relation "measure (\<lambda>(b, i, n). nat (n + 1 - i))") auto

declare counter_loop.simps [simp del]

definition CounterHandler :: "'w benv \<Rightarrow> 'w handler" where
  "CounterHandler b payload = with_payload b ''counter'' CounterPayload payload (\<lambda>p. do {
     counter_loop b 0 (int_field CounterPayload p ''n'');
     State_Monad.return HOk })"

definition NewCounterJob :: "'w benv \<Rightarrow> int \<Rightarrow> string + 'w job" where
  "NewCounterJob b n =
     new_job b CounterPayload (VStruct [VInt n]) ''simple-counter'' (CounterHandler b) False"

definition HelloPayload :: jtype where
  "HelloPayload = TStruct ''benchjobs'' ''HelloPayload'' [(''name'', False, TStr)]"

definition HelloHandler :: "'w benv \<Rightarrow> 'w handler" where
  "HelloHandler b payload = with_payload b ''hello'' HelloPayload payload (\<lambda>p. do {
     printf b (''hello, %s'' @ nl) [AStr (str_field HelloPayload p ''name'')];
     State_Monad.return HOk })"

definition NewHelloJob :: "'w benv \<Rightarrow> string \<Rightarrow> string + 'w job" where
  "NewHelloJob b name =
     new_job b HelloPayload (VStruct [VStr name]) ''hello-world'' (HelloHandler b) False"

definition SumPayload :: jtype where
  "SumPayload = TStruct ''benchjobs'' ''SumPayload''
     [(''a'', False, TInt ''int''), (''b'', False, TInt ''int'')]"

definition SumHandler :: "'w benv \<Rightarrow> 'w handler" where
  "SumHandler b payload = with_payload b ''sum'' SumPayload payload (\<lambda>p.
     let x = int_field SumPayload p ''a''; y = int_field SumPayload p ''b'' in do {
       printf b (''sum: %d + %d = %d'' @ nl) [AInt x, AInt y, AInt (wrap64 (x + y))];
       State_Monad.return HOk })"

definition NewSumJob :: "'w benv \<Rightarrow> int \<Rightarrow> int \<Rightarrow> string + 'w job" where
  "NewSumJob b x y =
     new_job b SumPayload (VStruct [VInt x, VInt y]) ''simple-sum'' (SumHandler b) False"

section \<open>Slow jobs\<close>

definition BusyLoopPayload :: jtype where
  "BusyLoopPayload = TStruct ''benchjobs'' ''BusyLoopPayload'' [(''iterations'', False, TInt ''int'')]"

text \<open>The loop body on an unsigned 64-bit accumulator; \<open>n\<close> iterations from index
  \<open>i\<close>.\<close>

fun busy_loop :: "nat \<Rightarrow> nat \<Rightarrow> 64 word \<Rightarrow> 64 word" where
  "busy_loop 0 i sink = sink"
| "busy_loop (Suc n) i sink = busy_loop n (Suc i) (sink * 1664525 + of_nat i + 1013904223)"

definition BusyLoopHandler :: "'w benv \<Rightarrow> 'w handler" where
  "BusyLoopHandler b payload = with_payload b ''busyLoop'' BusyLoopPayload payload (\<lambda>p. do {
     let iterations = int_field BusyLoopPayload p ''iterations'';
     start \<leftarrow> e_Now (b_env b);
     let sink = busy_loop (nat iterations) 0 0;
     now \<leftarrow> e_Now (b_env b);
     printf b (''busyLoop: %d iters, sink=%d, elapsed=%s'' @ nl)
       [AInt iterations, AUint sink, ADur (time_sub now start)];
     State_Monad.return HOk })"

definition NewBusyLoopJob :: "'w benv \<Rightarrow> int \<Rightarrow> string + 'w job" where
  "NewBusyLoopJob b iterations =
     new_job b BusyLoopPayload (VStruct [VInt iterations]) ''slow-busy-loop'' (BusyLoopHandler b) False"

definition FanoutPayload :: jtype where
  "FanoutPayload = TStruct ''benchjobs'' ''FanoutPayload''
     [(''workers'', False, TInt ''int''), (''delay_ms'', False, TInt ''int'')]"

text \<open>A negative count makes \<open>wg.Add\<close> panic. The goroutines sleep at the same time and
  \<open>wg.Wait\<close> returns when the last one has, so the handler waits one delay if there are any.\<close>

definition FanoutHandler :: "'w benv \<Rightarrow> 'w handler" where
  "FanoutHandler b payload = with_payload b ''fanout'' FanoutPayload payload (\<lambda>p. do {
     let workers = int_field FanoutPayload p ''workers'';
     let delayMs = int_field FanoutPayload p ''delay_ms'';
     start \<leftarrow> e_Now (b_env b);
     (if workers < 0 then State_Monad.return (HPanic ''sync: negative WaitGroup counter'')
      else do {
        (if 0 < workers then e_Sleep (b_env b) (wrap64 (delayMs * millisecond))
         else State_Monad.return ());
        now \<leftarrow> e_Now (b_env b);
        printf b (''fanout: %d workers, %dms delay, elapsed=%s'' @ nl)
          [AInt workers, AInt delayMs, ADur (time_sub now start)];
        State_Monad.return HOk }) })"

definition NewFanoutJob :: "'w benv \<Rightarrow> int \<Rightarrow> int \<Rightarrow> string + 'w job" where
  "NewFanoutJob b workers delayMs =
     new_job b FanoutPayload (VStruct [VInt workers, VInt delayMs]) ''slow-fanout'' (FanoutHandler b) False"

definition SleepPayload :: jtype where
  "SleepPayload = TStruct ''benchjobs'' ''SleepPayload'' [(''millis'', False, TInt ''int64'')]"

definition SleepHandler :: "'w benv \<Rightarrow> 'w handler" where
  "SleepHandler b payload = with_payload b ''sleep'' SleepPayload payload (\<lambda>p. do {
     let millis = int_field SleepPayload p ''millis'';
     start \<leftarrow> e_Now (b_env b);
     e_Sleep (b_env b) (wrap64 (millis * millisecond));
     now \<leftarrow> e_Now (b_env b);
     printf b (''slept %dms (actual %s)'' @ nl) [AInt millis, ADur (time_sub now start)];
     State_Monad.return HOk })"

text \<open>\<open>d.Milliseconds()\<close> divides towards zero.\<close>

definition go_div :: "int \<Rightarrow> int \<Rightarrow> int" where
  "go_div x y = (if (x < 0) = (y < 0) then \<bar>x\<bar> div \<bar>y\<bar> else - (\<bar>x\<bar> div \<bar>y\<bar>))"

definition NewSleepJob :: "'w benv \<Rightarrow> duration \<Rightarrow> string + 'w job" where
  "NewSleepJob b d =
     new_job b SleepPayload (VStruct [VInt (go_div d millisecond)]) ''slow-sleep'' (SleepHandler b) False"

section \<open>Failing jobs\<close>

definition AlwaysErrorPayload :: jtype where
  "AlwaysErrorPayload = TStruct ''benchjobs'' ''AlwaysErrorPayload'' [(''msg'', False, TStr)]"

definition AlwaysErrorHandler :: "'w benv \<Rightarrow> 'w handler" where
  "AlwaysErrorHandler b payload = with_payload b ''alwaysError'' AlwaysErrorPayload payload (\<lambda>p. do {
     n \<leftarrow> modify b (\<lambda>s. let n = wrap64 (alwaysErrorAttempts s + 1) in (n, s\<lparr>alwaysErrorAttempts := n\<rparr>));
     (if n mod 100 = 0
      then printf b (''alwaysError: %d total handler invocations so far'' @ nl) [AInt n]
      else State_Monad.return ());
     State_Monad.return (HErr (str_field AlwaysErrorPayload p ''msg'')) })"

definition NewAlwaysErrorJob :: "'w benv \<Rightarrow> string \<Rightarrow> string + 'w job" where
  "NewAlwaysErrorJob b msg =
     new_job b AlwaysErrorPayload (VStruct [VStr msg]) ''fail-error'' (AlwaysErrorHandler b) True"

definition NilDerefHandler :: "'w benv \<Rightarrow> 'w handler" where
  "NilDerefHandler b payload = State_Monad.return (HPanic nil_call)"

definition NewNilDerefJob :: "'w benv \<Rightarrow> string + 'w job" where
  "NewNilDerefJob b =
     Inr (zero_job\<lparr>j_Name := ''fail-nil-deref'', j_Payload := Some ''{}'',
                   j_Handler := Some (NilDerefHandler b), j_Queue := ''job'', j_Retry := False\<rparr>)"

definition PanicPayload :: jtype where
  "PanicPayload = TStruct ''benchjobs'' ''PanicPayload'' [(''msg'', False, TStr)]"

definition PanicHandler :: "'w benv \<Rightarrow> 'w handler" where
  "PanicHandler b payload = with_payload b ''panic'' PanicPayload payload (\<lambda>p.
     State_Monad.return (HPanic (str_field PanicPayload p ''msg'')))"

definition NewPanicJob :: "'w benv \<Rightarrow> string \<Rightarrow> string + 'w job" where
  "NewPanicJob b msg =
     new_job b PanicPayload (VStruct [VStr msg]) ''fail-panic'' (PanicHandler b) False"

section \<open>Flaky jobs\<close>

definition maxAttemptsForExhaust :: int where "maxAttemptsForExhaust = 3"

text \<open>The counter of an id, created at zero; the pointer to it is the id. The two steps of the
  source (look up, then store if absent) leave the same map as one.\<close>

definition loadOrCreateCounter :: "'w benv \<Rightarrow> string \<Rightarrow> ('w, string) state" where
  "loadOrCreateCounter b i = modify b (\<lambda>s.
     (i, if flakyAttempts s i = None then s\<lparr>flakyAttempts := (flakyAttempts s)(i \<mapsto> 0)\<rparr> else s))"

text \<open>\<open>atomic.AddInt64(p, 1)\<close>\<close>

definition add_attempt :: "'w benv \<Rightarrow> string \<Rightarrow> ('w, int) state" where
  "add_attempt b p = modify b (\<lambda>s.
     let n = wrap64 ((case flakyAttempts s p of None \<Rightarrow> 0 | Some n \<Rightarrow> n) + 1)
     in (n, s\<lparr>flakyAttempts := (flakyAttempts s)(p \<mapsto> n)\<rparr>))"

definition next_attempt :: "'w benv \<Rightarrow> string \<Rightarrow> ('w, int) state" where
  "next_attempt b i = do { p \<leftarrow> loadOrCreateCounter b i; add_attempt b p }"

definition ExhaustRetriesPayload :: jtype where
  "ExhaustRetriesPayload = TStruct ''benchjobs'' ''ExhaustRetriesPayload'' [(''id'', False, TStr)]"

definition gave_up :: string where
  "gave_up = ''exhaustRetries[%s]: attempt %d '' @ em_dash @ '' giving up (exceeded MaxAttempts=%d)'' @ nl"

definition ExhaustRetriesHandler :: "'w benv \<Rightarrow> 'w handler" where
  "ExhaustRetriesHandler b payload = with_payload b ''exhaustRetries'' ExhaustRetriesPayload payload (\<lambda>p.
     let i = str_field ExhaustRetriesPayload p ''id'' in
     if i = '''' then State_Monad.return (HErr ''exhaustRetries: empty ID'')
     else do {
       attempt \<leftarrow> next_attempt b i;
       (if maxAttemptsForExhaust < attempt
        then printf b gave_up [AStr i, AInt attempt, AInt maxAttemptsForExhaust]
        else printf b (''exhaustRetries[%s]: attempt %d/%d'' @ nl)
               [AStr i, AInt attempt, AInt maxAttemptsForExhaust]);
       State_Monad.return (HErr (''exhaustRetries: permanent failure on attempt '' @ itoa attempt)) })"

definition NewExhaustRetriesJob :: "'w benv \<Rightarrow> string \<Rightarrow> string + 'w job" where
  "NewExhaustRetriesJob b i =
     (if i = '''' then Inl ''id is required''
      else new_job b ExhaustRetriesPayload (VStruct [VStr i]) ''flaky-exhaust-retries''
             (ExhaustRetriesHandler b) True)"

definition FailThenSucceedPayload :: jtype where
  "FailThenSucceedPayload = TStruct ''benchjobs'' ''FailThenSucceedPayload''
     [(''id'', False, TStr), (''fail_times'', False, TInt ''int'')]"

definition FailThenSucceedHandler :: "'w benv \<Rightarrow> 'w handler" where
  "FailThenSucceedHandler b payload = with_payload b ''failThenSucceed'' FailThenSucceedPayload payload (\<lambda>p.
     let i = str_field FailThenSucceedPayload p ''id'' in
     if i = '''' then State_Monad.return (HErr ''failThenSucceed: empty ID'')
     else do {
       attempt \<leftarrow> next_attempt b i;
       (if attempt \<le> int_field FailThenSucceedPayload p ''fail_times''
        then do {
          printf b (''failThenSucceed[%s]: attempt %d '' @ em_dash @ '' forcing failure'' @ nl) [AStr i, AInt attempt];
          State_Monad.return (HErr (''planned failure on attempt '' @ itoa attempt)) }
        else do {
          printf b (''failThenSucceed[%s]: attempt %d '' @ em_dash @ '' success'' @ nl) [AStr i, AInt attempt];
          State_Monad.return HOk }) })"

definition NewFailThenSucceedJob :: "'w benv \<Rightarrow> string \<Rightarrow> int \<Rightarrow> string + 'w job" where
  "NewFailThenSucceedJob b i failTimes =
     (if i = '''' then Inl ''id is required''
      else new_job b FailThenSucceedPayload (VStruct [VStr i, VInt failTimes]) ''flaky-fail-then-succeed''
             (FailThenSucceedHandler b) True)"

definition IntermittentPayload :: jtype where
  "IntermittentPayload = TStruct ''benchjobs'' ''IntermittentPayload''
     [(''id'', False, TStr), (''p'', False, TFloat)]"

fun val_float :: "gval \<Rightarrow> float64" where
  "val_float (VFloat x) = x"
| "val_float _ = Fin 0"

definition IntermittentHandler :: "'w benv \<Rightarrow> 'w handler" where
  "IntermittentHandler b payload = with_payload b ''intermittent'' IntermittentPayload payload (\<lambda>p.
     let i = str_field IntermittentPayload p ''id''; prob = val_float (field IntermittentPayload p ''p'') in
     if i = '''' then State_Monad.return (HErr ''intermittent: empty ID'')
     else do {
       attempt \<leftarrow> next_attempt b i;
       roll \<leftarrow> b_Float64 b;
       (if fl_le prob roll
        then do {
          printf b (''intermittent[%s]: attempt %d, roll=%.3f >= p=%.3f '' @ em_dash @ '' fail'' @ nl)
            [AStr i, AInt attempt, AFloat roll, AFloat prob];
          State_Monad.return (HErr (''RNG failure on attempt '' @ itoa attempt)) }
        else do {
          printf b (''intermittent[%s]: attempt %d, roll=%.3f < p=%.3f '' @ em_dash @ '' success'' @ nl)
            [AStr i, AInt attempt, AFloat roll, AFloat prob];
          State_Monad.return HOk }) })"

definition NewIntermittentJob :: "'w benv \<Rightarrow> string \<Rightarrow> float64 \<Rightarrow> string + 'w job" where
  "NewIntermittentJob b i successProbability =
     (if i = '''' then Inl ''id is required''
      else let p = (if fl_less successProbability (Fin 0) then Fin 0
                    else if fl_less (Fin 1) successProbability then Fin 1
                    else successProbability)
           in new_job b IntermittentPayload (VStruct [VStr i, VFloat p]) ''flaky-intermittent''
                (IntermittentHandler b) True)"

section \<open>Payload edge cases\<close>

definition LargePayload :: jtype where
  "LargePayload = TStruct ''benchjobs'' ''LargePayload'' [(''data'', False, TStr)]"

definition LargePayloadHandler :: "'w benv \<Rightarrow> 'w handler" where
  "LargePayloadHandler b payload = with_payload b ''large'' LargePayload payload (\<lambda>p. do {
     printf b (''large: received %d bytes of data'' @ nl)
       [AInt (int (length (str_field LargePayload p ''data'')))];
     State_Monad.return HOk })"

text \<open>\<open>strings.Repeat\<close> panics on a negative count.\<close>

definition NewLargePayloadJob :: "'w benv \<Rightarrow> int \<Rightarrow> (string + 'w job) go" where
  "NewLargePayloadJob b sizeBytes =
     (if sizeBytes < 0 then Panicked ''strings: negative Repeat count''
      else Ret (new_job b LargePayload (VStruct [VStr (replicate (nat sizeBytes) (CHR ''A''))])
             ''payload-large'' (LargePayloadHandler b) False))"

definition UnicodePayload :: jtype where
  "UnicodePayload = TStruct ''benchjobs'' ''UnicodePayload''
     [(''text'', False, TStr), (''emoji'', False, TStr), (''lang'', False, TStr)]"

definition print_text :: "'w benv \<Rightarrow> string \<Rightarrow> string \<Rightarrow> ('w, unit) state" where
  "print_text b label s =
     printf b (label @ ''%q bytes=%d runes=%d'' @ nl)
       [AStr s, AInt (int (length s)), AInt (int (length (runes s)))]"

definition UnicodeHandler :: "'w benv \<Rightarrow> 'w handler" where
  "UnicodeHandler b payload = with_payload b ''unicode'' UnicodePayload payload (\<lambda>p. do {
     print_text b ''unicode.text  : '' (str_field UnicodePayload p ''text'');
     print_text b ''unicode.emoji : '' (str_field UnicodePayload p ''emoji'');
     print_text b ''unicode.lang  : '' (str_field UnicodePayload p ''lang'');
     State_Monad.return HOk })"

definition unicode_text :: string where
  "unicode_text =
     ''hello '' @ u8 [0xD9, 0x85, 0xD8, 0xB1, 0xD8, 0xAD, 0xD8, 0xA8, 0xD8, 0xA7] @ '' '' @
     u8 [0xE4, 0xBD, 0xA0, 0xE5, 0xA5, 0xBD] @ '' '' @ u8 [0xD0, 0x97, 0xD0, 0xB4, 0xD1, 0x80,
     0xD0, 0xB0, 0xD0, 0xB2, 0xD1, 0x81, 0xD1, 0x82, 0xD0, 0xB2, 0xD1, 0x83, 0xD0, 0xB9, 0xD1,
     0x82, 0xD0, 0xB5] @ '' caf'' @ u8 [0xC3, 0xA9, 0xE2, 0x80, 0x8D]"

definition unicode_emoji :: string where
  "unicode_emoji =
     u8 [0xF0, 0x9F, 0x91, 0xA8, 0xE2, 0x80, 0x8D, 0xF0, 0x9F, 0x91, 0xA9, 0xE2, 0x80, 0x8D,
     0xF0, 0x9F, 0x91, 0xA7] @ '' '' @ u8 [0xF0, 0x9F, 0x8F, 0xB3, 0xEF, 0xB8, 0x8F, 0xE2,
     0x80, 0x8D, 0xF0, 0x9F, 0x8C, 0x88] @ '' '' @ u8 [0xF0, 0x9F, 0x87, 0xBA, 0xF0, 0x9F,
     0x87, 0xB8]"

definition unicode_lang :: string where
  "unicode_lang =
     ''ASCII-1byte/rune; '' @ u8 [0xE6, 0xBC, 0xA2] @ ''=3bytes/1rune; '' @ u8 [0xF0, 0x9F,
     0x87, 0xBA, 0xF0, 0x9F, 0x87, 0xB8] @ ''=8bytes/2runes''"

definition NewUnicodeJob :: "'w benv \<Rightarrow> string + 'w job" where
  "NewUnicodeJob b =
     new_job b UnicodePayload (VStruct [VStr unicode_text, VStr unicode_emoji, VStr unicode_lang])
       ''payload-unicode'' (UnicodeHandler b) False"

definition NestedLevel5 :: jtype where
  "NestedLevel5 = TStruct ''benchjobs'' ''NestedLevel5'' [(''leaf'', True, TStr)]"

definition NestedLevel4 :: jtype where
  "NestedLevel4 = TStruct ''benchjobs'' ''NestedLevel4'' [(''level5'', True, TPtr NestedLevel5)]"

definition NestedLevel3 :: jtype where
  "NestedLevel3 = TStruct ''benchjobs'' ''NestedLevel3''
     [(''level4'', False, NestedLevel4), (''tags'', True, TSlice TStr), (''metric'', True, TMap (TInt ''int''))]"

definition NestedLevel2 :: jtype where
  "NestedLevel2 = TStruct ''benchjobs'' ''NestedLevel2''
     [(''level3'', False, NestedLevel3), (''rows'', True, TSlice (TMap (TInt ''int''))),
      (''int_map'', True, TMap TStr)]"

definition NestedLevel1 :: jtype where
  "NestedLevel1 = TStruct ''benchjobs'' ''NestedLevel1''
     [(''level2'', False, NestedLevel2), (''timestamp'', False, TTime),
      (''null_ptr'', True, TPtr (TInt ''int''))]"

definition NestedPayload :: jtype where
  "NestedPayload = TStruct ''benchjobs'' ''NestedPayload'' [(''level1'', False, NestedLevel1)]"

fun slice_vals :: "gval \<Rightarrow> gval list" where
  "slice_vals (VSlice (Some vs) hid) = vs"
| "slice_vals _ = []"

fun time_text :: "gval \<Rightarrow> string" where
  "time_text (VTime t off) = format_rfc3339 off t"
| "time_text _ = []"

definition NestedHandler :: "'w benv \<Rightarrow> 'w handler" where
  "NestedHandler b payload = with_payload b ''nested'' NestedPayload payload (\<lambda>p. do {
     let l1 = field NestedPayload p ''level1'';
     let l2 = field NestedLevel1 l1 ''level2'';
     let l3 = field NestedLevel2 l2 ''level3'';
     let l5 = field NestedLevel4 (field NestedLevel3 l3 ''level4'') ''level5'';
     let leaf = (case l5 of VPtr (Some x) \<Rightarrow> str_field NestedLevel5 x ''leaf'' | _ \<Rightarrow> []);
     printf b (''nested: ts=%s leaf=%q rows=%d intMapLen=%d tags=%v'' @ nl)
       [AStr (time_text (field NestedLevel1 l1 ''timestamp'')), AStr leaf,
        AInt (int (length (slice_vals (field NestedLevel2 l2 ''rows'')))),
        AInt (int (length (map_entries (field NestedLevel2 l2 ''int_map'')))),
        AStrs (map val_str (slice_vals (field NestedLevel3 l3 ''tags'')))];
     State_Monad.return HOk })"

text \<open>The loop that fills the map with stringified keys, and the value the constructor marshals.\<close>

definition int_map_loop :: "(string \<times> gval) list" where
  "int_map_loop = fold (\<lambda>i. map_put (itoa i) (VStr (''val-'' @ itoa i))) [1, 2, 3] []"

definition nested_value :: "time \<Rightarrow> gval" where
  "nested_value now =
     VStruct [VStruct
       [VStruct
          [VStruct
             [VStruct [VPtr (Some (VStruct [VStr ''bottom'']))],
              VSlice (Some [VStr ''alpha'', VStr ''beta'', VStr ''gamma'']) [],
              VMap (Some [(''hits'', VInt 42), (''misses'', VInt 7)])],
           VSlice (Some [VMap (Some [(''a'', VInt 1), (''b'', VInt 2)]),
                         VMap (Some [(''c'', VInt 3), (''d'', VInt 4)])]) [],
           VMap (Some int_map_loop)],
        VTime now 0, VPtr None]]"

definition NewNestedPayloadJob :: "'w benv \<Rightarrow> ('w, string + 'w job) state" where
  "NewNestedPayloadJob b = do {
     now \<leftarrow> e_Now (b_env b);
     State_Monad.return
       (new_job b NestedPayload (nested_value now) ''payload-nested'' (NestedHandler b) False) }"

end
