(* ===== verification/Bench_Behaviour.thy ===== *)
theory Bench_Behaviour
  imports Bench_Jobs
begin

text \<open>
  What the benchmark jobs do. The locale \<open>bench_state\<close> is the contract of the package's state: it
  is a variable of the world that the clock, sleeping and the database leave alone. A constructed job's
  handler decodes the payload the constructor encoded (\<open>new_job_decodes\<close>), so the handlers'
  effects are stated for the constructors' arguments. \<open>process_job_iterates\<close> follows a job
  with a deterministic effect through its retries on the memory backend.
\<close>

section \<open>A job through its retries\<close>

lemma worker_body_acts:
  assumes "runnable q job" and "j_Retry job"
    and act: "wp (invoke_handler q job) (\<lambda>r w'. A w' = g (A w) \<and> (r = HOk \<longleftrightarrow> ok (A w))) w"
    and ins: "\<And>t j w. wp (e_Insert e t j) (\<lambda>_ w'. A w' = A w) w"
    and step: "run_state (worker_body e q job) w = ((q1, sp), w1)"
  shows "A w1 = g (A w)" and "sp = None \<longleftrightarrow> ok (A w) \<or> \<not> j_RetryCounter job < q_MaxAttempts q"
proof -
  obtain r w2 where r: "run_state (invoke_handler q job) w = (r, w2)"
    by (cases "run_state (invoke_handler q job) w")
  from wpD [OF act r] have A2: "A w2 = g (A w)" and ok: "r = HOk \<longleftrightarrow> ok (A w)" by simp_all
  show "sp = None \<longleftrightarrow> ok (A w) \<or> \<not> j_RetryCounter job < q_MaxAttempts q"
    using worker_body_effect(3) [OF step r] assms(1,2) ok by (simp add: failure_effect_def)
  have fail: "wp (addFailedJob e q j) (\<lambda>_ w'. A w' = A w2) w2" for j
    by (auto simp: addFailedJob_def Let_def wp_simps intro: wp_mono [OF ins])
  have complete: "wp (addCompletedJob e q job) (\<lambda>_ w'. A w' = A w2) w2"
    by (auto simp: addCompletedJob_def wp_simps intro: wp_mono [OF ins])
  have "wp (runHandler e q job) (\<lambda>_ w'. A w' = A w2) w"
    unfolding runHandler_def wp_bind wp_def [of "invoke_handler q job"] r
    by (cases r) (simp_all add: wp_simps fail complete)
  then have "wp (worker_body e q job) (\<lambda>_ w'. A w' = A w2) w"
    using assms(1) by (simp add: worker_body_def wp_simps case_prod_unfold)
  from wpD [OF this step] A2 show "A w1 = g (A w)" by simp
qed

lemma process_job_iterates:
  assumes "in_int64 (q_MaxAttempts q)" and "in_int64 (j_RetryCounter job)"
    and "j_Retry job" and "j_RetryCounter job \<le> q_MaxAttempts q" and "runnable q job"
    and "\<And>w. wp (invoke_handler q job) (\<lambda>r w'. A w' = g (A w) \<and> (r = HOk \<longleftrightarrow> ok (A w))) w"
    and ins: "\<And>t j w. wp (e_Insert e t j) (\<lambda>_ w'. A w' = A w) w"
    and sleep: "\<And>d w. wp (e_Sleep e d) (\<lambda>_ w'. A w' = A w) w"
  shows "\<exists>n q' w'. process_job e q job w = Some (Suc n, q', w') \<and> A w' = (g ^^ Suc n) (A w)
    \<and> (\<forall>i < n. \<not> ok ((g ^^ i) (A w))) \<and> int n \<le> q_MaxAttempts q - j_RetryCounter job
    \<and> (ok ((g ^^ n) (A w)) \<or> int n = q_MaxAttempts q - j_RetryCounter job)"
  using assms(1-6)
proof (induction "nat (q_MaxAttempts q - j_RetryCounter job)" arbitrary: q job w rule: less_induct)
  case less
  obtain q1 sp w1 where step: "run_state (worker_body e q job) w = ((q1, sp), w1)"
    by (metis prod.exhaust)
  obtain r w2 where r: "run_state (invoke_handler q job) w = (r, w2)"
    by (cases "run_state (invoke_handler q job) w")
  note setup1 = worker_body_effect(1) [OF step r]
  note acts = worker_body_acts [of q job A g w ok e, OF less.prems(5,3,6) ins step]
  from step less.prems(1,2) show ?case
  proof (cases rule: worker_body_cases)
    case finished
    with acts less.prems(4) step show ?thesis
      by (subst process_job.simps, intro exI [of _ 0] exI [of _ q1] exI [of _ w1]) auto
  next
    case (retry d x)
    let ?j = "job\<lparr>j_Exception := x, j_RetryCounter := j_RetryCounter job + 1\<rparr>"
    let ?q = "q1\<lparr>q_pendingCount := q_pendingCount q1 + 1\<rparr>"
    let ?w = "snd (run_state (e_Sleep e d) w1)"
    have su: "setup_of ?q = setup_of q" using setup1 by simp
    have Aw: "A ?w = g (A w)" using sleep [of d w1] acts(1) by (simp add: wp_snd)
    have "in_int64 (j_RetryCounter job + 1)"
      using retry(3) less.prems(1,2) by (simp add: in_int64_def)
    moreover have "invoke_handler ?q ?j = invoke_handler q job" and "runnable ?q ?j"
      using invoke_handler_cong [OF su, of ?j job] less.prems(5) by simp_all
    moreover have "q_MaxAttempts ?q = q_MaxAttempts q" by (rule setup_ofD(1) [OF su])
    ultimately obtain n q' w' where n: "process_job e ?q ?j ?w = Some (Suc n, q', w')"
      "A w' = (g ^^ Suc n) (A ?w)" "\<forall>i < n. \<not> ok ((g ^^ i) (A ?w))"
      "int n \<le> q_MaxAttempts q - (j_RetryCounter job + 1)"
      "ok ((g ^^ n) (A ?w)) \<or> int n = q_MaxAttempts q - (j_RetryCounter job + 1)"
      using less.hyps [of ?q ?j ?w] retry(3) less.prems(1,3,6) by auto
    have "\<not> ok ((g ^^ i) (A w))" if "i < Suc n" for i
      using that acts(2) retry(1) n(3) by (cases i) (auto simp: Aw funpow_swap1)
    moreover have "A w' = (g ^^ Suc (Suc n)) (A w)" "(g ^^ n) (A ?w) = (g ^^ Suc n) (A w)"
      using n(2) by (simp_all add: Aw funpow_swap1)
    ultimately show ?thesis
      using n(1,4,5) retry(1) step
      by (subst process_job.simps, intro exI [of _ "Suc n"] exI [of _ q'] exI [of _ w'])
        (auto simp del: funpow.simps)
  qed
qed

section \<open>Constructed jobs decode\<close>

text \<open>The job a constructor makes of its payload bytes.\<close>

definition bench_job :: "string \<Rightarrow> 'w handler \<Rightarrow> bool \<Rightarrow> bytes \<Rightarrow> 'w job" where
  "bench_job name h retry raw =
     zero_job\<lparr>j_Name := name, j_Payload := Some raw, j_Handler := Some h, j_Queue := ''job'',
              j_Retry := retry, j_RetryInSeconds := (if retry then 1 else 0)\<rparr>"

lemma bench_job_fields [simp]:
  "j_Name (bench_job name h retry raw) = name" "j_Payload (bench_job name h retry raw) = Some raw"
  "j_Handler (bench_job name h retry raw) = Some h" "j_Queue (bench_job name h retry raw) = ''job''"
  "j_Retry (bench_job name h retry raw) = retry" "j_RetryCounter (bench_job name h retry raw) = 0"
  "j_DispatchAt (bench_job name h retry raw) = []"
  by (simp_all add: bench_job_def zero_job_def)

lemma new_job_decodes:
  assumes "typed (b_json b) T p" and "wf_type T" and "type_depth T \<le> max_depth"
  obtains raw where "\<And>name h retry. new_job b T p name h retry = Inr (bench_job name h retry raw)"
    and "unmarshal (b_json b) T raw = Inr p"
  using unmarshal_marshal [OF assms] that by (fastforce simp: new_job_def bench_job_def)

text \<open>The payload types.\<close>

lemmas payload_defs = CounterPayload_def HelloPayload_def SumPayload_def BusyLoopPayload_def FanoutPayload_def
  SleepPayload_def AlwaysErrorPayload_def PanicPayload_def ExhaustRetriesPayload_def FailThenSucceedPayload_def
  IntermittentPayload_def LargePayload_def UnicodePayload_def NestedPayload_def NestedLevel1_def NestedLevel2_def
  NestedLevel3_def NestedLevel4_def NestedLevel5_def

definition payload_types :: "jtype list" where
  "payload_types = [CounterPayload, HelloPayload, SumPayload, BusyLoopPayload, FanoutPayload, SleepPayload,
     AlwaysErrorPayload, PanicPayload, ExhaustRetriesPayload, FailThenSucceedPayload, IntermittentPayload,
     LargePayload, UnicodePayload, NestedPayload]"

lemma payload_types_ok: "list_all (\<lambda>T. wf_type T \<and> type_depth T \<le> 10) payload_types"
  by code_simp

lemma payload_type_ok:
  assumes "T \<in> set payload_types"
  shows "wf_type T" and "type_depth T \<le> max_depth"
  using payload_types_ok assms by (auto simp: list_all_iff max_depth_def)

lemmas field_defs = int_field_def str_field_def field_def field_types_def struct_fields_def

section \<open>Counting attempts\<close>

text \<open>One run of a flaky handler: count the attempt and print a line about it.\<close>

definition attempt_of :: "bench \<Rightarrow> string \<Rightarrow> int" where
  "attempt_of s i = wrap64 ((case flakyAttempts s i of None \<Rightarrow> 0 | Some n \<Rightarrow> n) + 1)"

definition count_attempt :: "string \<Rightarrow> (int \<Rightarrow> string \<times> arg list) \<Rightarrow> bench \<Rightarrow> bench" where
  "count_attempt i line s = s\<lparr>flakyAttempts := (flakyAttempts s)(i \<mapsto> attempt_of s i),
     printed := printed s @ [line (attempt_of s i)]\<rparr>"

lemma count_again:
  assumes "int k + 1 < 2 ^ 63"
  shows "count_attempt i line (s\<lparr>flakyAttempts := f(i \<mapsto> int k), printed := l\<rparr>)
    = s\<lparr>flakyAttempts := f(i \<mapsto> int k + 1), printed := l @ [line (int k + 1)]\<rparr>"
  using assms by (simp add: count_attempt_def attempt_of_def in_int64_def)

lemma count_attempts:
  assumes "flakyAttempts s i = None" and "int (Suc n) < 2 ^ 63"
  shows "(count_attempt i line ^^ Suc n) s = s\<lparr>flakyAttempts := (flakyAttempts s)(i \<mapsto> int (Suc n)),
     printed := printed s @ map (line \<circ> int) [1..<Suc (Suc n)]\<rparr>"
  using assms(2)
proof (induction n)
  case 0
  have "attempt_of s i = 1" using assms(1) by (simp add: attempt_of_def in_int64_def)
  then have "count_attempt i line s
      = s\<lparr>flakyAttempts := (flakyAttempts s)(i \<mapsto> 1), printed := printed s @ [line 1]\<rparr>"
    by (simp only: count_attempt_def)
  then show ?case by (simp add: fun_upd_def)
next
  case (Suc n)
  have "(count_attempt i line ^^ Suc n) s = s\<lparr>flakyAttempts := (flakyAttempts s)(i \<mapsto> int (Suc n)),
     printed := printed s @ map (line \<circ> int) [1..<Suc (Suc n)]\<rparr>"
    using Suc.prems by (intro Suc.IH) simp
  moreover have "int (Suc n) + 1 = int (Suc (Suc n))" by simp
  moreover have "map (line \<circ> int) [1..<Suc (Suc (Suc n))]
      = map (line \<circ> int) [1..<Suc (Suc n)] @ [line (int (Suc (Suc n)))]"
    by simp
  moreover have "int (Suc n) + 1 < 2 ^ 63" using Suc.prems by simp
  moreover have "(count_attempt i line ^^ Suc (Suc n)) s = count_attempt i line ((count_attempt i line ^^ Suc n) s)"
    by simp
  ultimately show ?case by (simp only: count_again append_assoc)
qed

lemma attempt_after:
  assumes "flakyAttempts s i = None" and "int (Suc n) < 2 ^ 63"
  shows "attempt_of ((count_attempt i line ^^ n) s) i = int (Suc n)"
proof (cases n)
  case 0
  with assms show ?thesis by (simp add: attempt_of_def in_int64_def)
next
  case (Suc m)
  have "(count_attempt i line ^^ n) s = s\<lparr>flakyAttempts := (flakyAttempts s)(i \<mapsto> int n),
     printed := printed s @ map (line \<circ> int) [1..<Suc n]\<rparr>"
    unfolding Suc using assms(2) by (intro count_attempts [OF assms(1)]) (simp add: Suc)
  then show ?thesis using assms(2) by (simp add: attempt_of_def in_int64_def)
qed

text \<open>What the two deterministic flaky handlers print.\<close>

definition planned_line :: "string \<Rightarrow> int \<Rightarrow> int \<Rightarrow> string \<times> arg list" where
  "planned_line i k n = (''failThenSucceed[%s]: attempt %d '' @ em_dash @ (if n \<le> k then '' forcing failure'' else '' success'') @ nl,
     [AStr i, AInt n])"

definition exhaust_line :: "string \<Rightarrow> int \<Rightarrow> string \<times> arg list" where
  "exhaust_line i n =
     (if maxAttemptsForExhaust < n then gave_up else ''exhaustRetries[%s]: attempt %d/%d'' @ nl,
      [AStr i, AInt n, AInt maxAttemptsForExhaust])"

section \<open>The package state\<close>

locale bench_state =
  fixes b :: "'w benv"
  assumes get_put [simp]: "b_get b (b_put b s w) = s"
    and now_keeps: "wp (e_Now (b_env b)) (\<lambda>_ w'. b_get b w' = b_get b w) w"
    and sleep_keeps: "wp (e_Sleep (b_env b) d) (\<lambda>_ w'. b_get b w' = b_get b w) w"
    and insert_keeps: "wp (e_Insert (b_env b) t j) (\<lambda>_ w'. b_get b w' = b_get b w) w"
    and roll_keeps: "wp (b_Float64 b) (\<lambda>_ w'. b_get b w' = b_get b w) w"
begin

lemma wp_modify [wp_simps]:
  "wp (modify b f) Q w = Q (fst (f (b_get b w))) (b_put b (snd (f (b_get b w))) w)"
  by (simp add: wp_def modify_def split: prod.splits)

lemma wp_printf [wp_simps]:
  "wp (printf b fmt args) Q w =
     Q () (b_put b ((b_get b w)\<lparr>printed := printed (b_get b w) @ [(fmt, args)]\<rparr>) w)"
  by (simp add: printf_def wp_simps)

lemma wp_now: "(\<And>t w'. b_get b w' = b_get b w \<Longrightarrow> Q t w') \<Longrightarrow> wp (e_Now (b_env b)) Q w"
  by (rule wp_mono [OF now_keeps]) auto

lemma wp_sleep: "(\<And>w'. b_get b w' = b_get b w \<Longrightarrow> Q () w') \<Longrightarrow> wp (e_Sleep (b_env b) d) Q w"
  by (rule wp_mono [OF sleep_keeps]) auto

lemma wp_counter_loop:
  "wp (counter_loop b i n) (\<lambda>_ w'. b_get b w' = (b_get b w)\<lparr>printed :=
     printed (b_get b w) @ map (\<lambda>x. (''counter: %d'' @ nl, [AInt x])) [i..n]\<rparr>) w"
proof (induction "nat (n + 1 - i)" arbitrary: i w rule: less_induct)
  case less
  show ?case
  proof (cases "i \<le> n")
    case True
    then have IH: "wp (counter_loop b (i + 1) n) (\<lambda>_ w'. b_get b w' = (b_get b w)\<lparr>printed :=
        printed (b_get b w) @ map (\<lambda>x. (''counter: %d'' @ nl, [AInt x])) [i + 1..n]\<rparr>) w" for w
      by (intro less.hyps) simp
    show ?thesis
      unfolding counter_loop.simps [of b i n] using True
      by (simp add: wp_simps upto_rec1 [OF True] del: append.simps) (rule wp_mono [OF IH], simp)
  next
    case False
    then show ?thesis by (subst counter_loop.simps) (simp add: wp_simps)
  qed
qed

text \<open>\<open>NewCounterJob\<close>'s handler prints the numbers from zero to \<open>n\<close>, \<open>NewSumJob\<close>'s the sum
  as Go computes it.\<close>

lemma counter_job:
  assumes "in_int64 n"
  obtains raw where "NewCounterJob b n = Inr (bench_job ''simple-counter'' (CounterHandler b) False raw)"
    and "\<And>w. wp (CounterHandler b (Some raw)) (\<lambda>r w'. r = HOk \<and> b_get b w' = (b_get b w)\<lparr>printed :=
           printed (b_get b w) @ map (\<lambda>x. (''counter: %d'' @ nl, [AInt x])) [0..n]\<rparr>) w"
proof -
  have "typed (b_json b) CounterPayload (VStruct [VInt n])" using assms by (simp add: CounterPayload_def)
  moreover have "CounterPayload \<in> set payload_types" by (simp add: payload_types_def)
  ultimately obtain raw where
    raw: "\<And>name h retry. new_job b CounterPayload (VStruct [VInt n]) name h retry = Inr (bench_job name h retry raw)"
      "unmarshal (b_json b) CounterPayload raw = Inr (VStruct [VInt n])"
    using new_job_decodes payload_type_ok by metis
  have "int_field CounterPayload (VStruct [VInt n]) ''n'' = n" by (simp add: field_defs CounterPayload_def)
  note field = this
  show ?thesis
    by (rule that [of raw]) (simp_all add: NewCounterJob_def CounterHandler_def with_payload_def raw field wp_simps wp_counter_loop del: append.simps)
qed

lemma sum_job:
  assumes "in_int64 x" and "in_int64 y"
  obtains raw where "NewSumJob b x y = Inr (bench_job ''simple-sum'' (SumHandler b) False raw)"
    and "\<And>w. wp (SumHandler b (Some raw)) (\<lambda>r w'. r = HOk \<and> b_get b w' = (b_get b w)\<lparr>printed :=
           printed (b_get b w) @ [(''sum: %d + %d = %d'' @ nl, [AInt x, AInt y, AInt (wrap64 (x + y))])]\<rparr>) w"
proof -
  let ?p = "VStruct [VInt x, VInt y]"
  have "typed (b_json b) SumPayload ?p" using assms by (simp add: SumPayload_def)
  moreover have "SumPayload \<in> set payload_types" by (simp add: payload_types_def)
  ultimately obtain raw where
    raw: "\<And>name h retry. new_job b SumPayload ?p name h retry = Inr (bench_job name h retry raw)"
      "unmarshal (b_json b) SumPayload raw = Inr ?p"
    using new_job_decodes payload_type_ok by metis
  have "int_field SumPayload ?p ''a'' = x" "int_field SumPayload ?p ''b'' = y"
    by (simp_all add: field_defs SumPayload_def)
  note fields = this
  show ?thesis
    by (rule that [of raw]) (simp_all add: NewSumJob_def SumHandler_def with_payload_def raw fields wp_simps Let_def)
qed

text \<open>The flaky handlers count their attempts and print; only the verdict differs.\<close>

lemma wp_next_attempt:
  "(\<And>w'. b_get b w' = (b_get b w)\<lparr>flakyAttempts := (flakyAttempts (b_get b w))(i \<mapsto> attempt_of (b_get b w) i)\<rparr>
     \<Longrightarrow> Q (attempt_of (b_get b w) i) w') \<Longrightarrow> wp (next_attempt b i) Q w"
  by (auto simp: next_attempt_def loadOrCreateCounter_def add_attempt_def wp_simps Let_def attempt_of_def
      split: option.splits)

lemma fail_then_succeed_job:
  assumes "i \<noteq> []" and "valid_utf8 i" and "in_int64 k"
  obtains raw where "NewFailThenSucceedJob b i k
      = Inr (bench_job ''flaky-fail-then-succeed'' (FailThenSucceedHandler b) True raw)"
    and "\<And>w. wp (FailThenSucceedHandler b (Some raw)) (\<lambda>r w'.
           b_get b w' = count_attempt i (planned_line i k) (b_get b w)
           \<and> (r = HOk \<longleftrightarrow> k < attempt_of (b_get b w) i)) w"
proof -
  let ?p = "VStruct [VStr i, VInt k]"
  have "typed (b_json b) FailThenSucceedPayload ?p" using assms by (simp add: FailThenSucceedPayload_def)
  moreover have "FailThenSucceedPayload \<in> set payload_types" by (simp add: payload_types_def)
  ultimately obtain raw where
    raw: "\<And>name h retry. new_job b FailThenSucceedPayload ?p name h retry = Inr (bench_job name h retry raw)"
      "unmarshal (b_json b) FailThenSucceedPayload raw = Inr ?p"
    using new_job_decodes payload_type_ok by metis
  have fields: "str_field FailThenSucceedPayload ?p ''id'' = i" "int_field FailThenSucceedPayload ?p ''fail_times'' = k"
    by (simp_all add: field_defs FailThenSucceedPayload_def)
  have "wp (FailThenSucceedHandler b (Some raw)) (\<lambda>r w'.
           b_get b w' = count_attempt i (planned_line i k) (b_get b w)
           \<and> (r = HOk \<longleftrightarrow> k < attempt_of (b_get b w) i)) w" for w
    using assms(1)
    by (simp add: FailThenSucceedHandler_def with_payload_def raw fields wp_bind Let_def)
      (rule wp_next_attempt, simp add: wp_simps fields count_attempt_def planned_line_def)
  with raw assms(1) show ?thesis
    by (intro that [of raw]) (simp_all add: NewFailThenSucceedJob_def)
qed

lemma exhaust_retries_job:
  assumes "i \<noteq> []" and "valid_utf8 i"
  obtains raw where "NewExhaustRetriesJob b i
      = Inr (bench_job ''flaky-exhaust-retries'' (ExhaustRetriesHandler b) True raw)"
    and "\<And>w. wp (ExhaustRetriesHandler b (Some raw)) (\<lambda>r w'.
           b_get b w' = count_attempt i (exhaust_line i) (b_get b w) \<and> r \<noteq> HOk) w"
proof -
  let ?p = "VStruct [VStr i]"
  have "typed (b_json b) ExhaustRetriesPayload ?p" using assms by (simp add: ExhaustRetriesPayload_def)
  moreover have "ExhaustRetriesPayload \<in> set payload_types" by (simp add: payload_types_def)
  ultimately obtain raw where
    raw: "\<And>name h retry. new_job b ExhaustRetriesPayload ?p name h retry = Inr (bench_job name h retry raw)"
      "unmarshal (b_json b) ExhaustRetriesPayload raw = Inr ?p"
    using new_job_decodes payload_type_ok by metis
  have field: "str_field ExhaustRetriesPayload ?p ''id'' = i"
    by (simp add: field_defs ExhaustRetriesPayload_def)
  have "wp (ExhaustRetriesHandler b (Some raw)) (\<lambda>r w'.
           b_get b w' = count_attempt i (exhaust_line i) (b_get b w) \<and> r \<noteq> HOk) w" for w
    using assms(1)
    by (simp add: ExhaustRetriesHandler_def with_payload_def raw field wp_bind Let_def)
      (rule wp_next_attempt, simp add: wp_simps field count_attempt_def exhaust_line_def)
  with raw assms(1) show ?thesis
    by (intro that [of raw]) (simp_all add: NewExhaustRetriesJob_def)
qed

end

section \<open>The flaky jobs on the memory backend\<close>

text \<open>The handler a queue runs for a constructed job: its own, also when \<open>RegisterAll\<close> has put it
  into the registry.\<close>

definition runs_own :: "'w queue \<Rightarrow> string \<Rightarrow> 'w handler \<Rightarrow> bool" where
  "runs_own q name h \<longleftrightarrow>
     (case lookup_handler q name of None \<Rightarrow> True | Some reg \<Rightarrow> plain reg = Some h \<and> ctx reg = None)"

lemma runs_own_invoke:
  assumes "runs_own q name h"
  shows "invoke_handler q (bench_job name h retry raw) = h (Some raw)"
    and "runnable q (bench_job name h retry raw)"
  using assms
  by (auto simp: runs_own_def invoke_handler_def runnable_def hasRegisteredHandler_def Let_def split: option.splits)

context bench_state
begin

lemma flaky_job_runs:
  assumes "runs_own q name h" and "0 \<le> q_MaxAttempts q" and "in_int64 (q_MaxAttempts q + 1)"
    and "flakyAttempts (b_get b w) i = None"
    and h: "\<And>w. wp (h (Some raw)) (\<lambda>r w'. b_get b w' = count_attempt i line (b_get b w)
      \<and> (r = HOk \<longleftrightarrow> good (attempt_of (b_get b w) i))) w"
  shows "\<exists>n q' w'. process_job (b_env b) q (bench_job name h True raw) w = Some (Suc n, q', w')
    \<and> b_get b w' = (b_get b w)\<lparr>flakyAttempts := (flakyAttempts (b_get b w))(i \<mapsto> int (Suc n)),
         printed := printed (b_get b w) @ map (line \<circ> int) [1..<Suc (Suc n)]\<rparr>
    \<and> (\<forall>m < n. \<not> good (int (Suc m))) \<and> int n \<le> q_MaxAttempts q
    \<and> (good (int (Suc n)) \<or> int n = q_MaxAttempts q)"
proof -
  let ?job = "bench_job name h True raw" and ?s = "b_get b w" and ?g = "count_attempt i line"
  have max: "in_int64 (q_MaxAttempts q)" using assms(2,3) by (simp add: in_int64_def)
  have act: "wp (invoke_handler q ?job) (\<lambda>r w'. b_get b w' = ?g (b_get b w)
      \<and> (r = HOk \<longleftrightarrow> good (attempt_of (b_get b w) i))) w" for w
    using h by (simp add: runs_own_invoke [OF assms(1)])
  obtain n q' w' where n: "process_job (b_env b) q ?job w = Some (Suc n, q', w')" "b_get b w' = (?g ^^ Suc n) ?s"
    "\<forall>m < n. \<not> good (attempt_of ((?g ^^ m) ?s) i)" "int n \<le> q_MaxAttempts q"
    "good (attempt_of ((?g ^^ n) ?s) i) \<or> int n = q_MaxAttempts q"
    using process_job_iterates [of q ?job "b_get b" ?g "\<lambda>s. good (attempt_of s i)" "b_env b" w,
        OF max _ _ _ runs_own_invoke(2) [OF assms(1)] act insert_keeps sleep_keeps] assms(2)
    by (auto simp: in_int64_def)
  have small: "int (Suc n) < 2 ^ 63" using n(4) assms(3) by (simp add: in_int64_def)
  have at: "attempt_of ((?g ^^ m) ?s) i = int (Suc m)" if "m \<le> n" for m
    using that small by (intro attempt_after [OF assms(4)]) simp
  show ?thesis
    using n at small by (intro exI [of _ n] exI [of _ q'] exI [of _ w'])
      (auto simp: count_attempts [OF assms(4)] simp del: funpow.simps upt_Suc)
qed

lemma always_error_job:
  assumes "valid_utf8 m"
  obtains raw where "NewAlwaysErrorJob b m = Inr (bench_job ''fail-error'' (AlwaysErrorHandler b) True raw)"
    and "\<And>w. wp (AlwaysErrorHandler b (Some raw)) (\<lambda>r w'. r = HErr m
           \<and> alwaysErrorAttempts (b_get b w') = wrap64 (alwaysErrorAttempts (b_get b w) + 1)) w"
proof -
  let ?p = "VStruct [VStr m]"
  have "typed (b_json b) AlwaysErrorPayload ?p" using assms by (simp add: AlwaysErrorPayload_def)
  moreover have "AlwaysErrorPayload \<in> set payload_types" by (simp add: payload_types_def)
  ultimately obtain raw where
    raw: "\<And>name h retry. new_job b AlwaysErrorPayload ?p name h retry = Inr (bench_job name h retry raw)"
      "unmarshal (b_json b) AlwaysErrorPayload raw = Inr ?p"
    using new_job_decodes payload_type_ok by metis
  have field: "str_field AlwaysErrorPayload ?p ''msg'' = m"
    by (simp add: field_defs AlwaysErrorPayload_def)
  have "wp (AlwaysErrorHandler b (Some raw)) (\<lambda>r w'. r = HErr m
           \<and> alwaysErrorAttempts (b_get b w') = wrap64 (alwaysErrorAttempts (b_get b w) + 1)) w" for w
    by (simp add: AlwaysErrorHandler_def with_payload_def raw field wp_simps Let_def)
  with raw show ?thesis by (intro that [of raw]) (simp_all add: NewAlwaysErrorJob_def)
qed

text \<open>How often the always-failing job runs.\<close>

lemma always_error_runs:
  assumes "runs_own q ''fail-error'' (AlwaysErrorHandler b)" and "0 \<le> q_MaxAttempts q" and "in_int64 (q_MaxAttempts q)"
    and "valid_utf8 m" and "0 \<le> alwaysErrorAttempts (b_get b w)"
    and "in_int64 (alwaysErrorAttempts (b_get b w) + q_MaxAttempts q + 1)"
  shows "\<exists>j n q' w'. NewAlwaysErrorJob b m = Inr j \<and> process_job (b_env b) q j w = Some (n, q', w')
    \<and> int n = q_MaxAttempts q + 1
    \<and> alwaysErrorAttempts (b_get b w') = alwaysErrorAttempts (b_get b w) + q_MaxAttempts q + 1"
proof -
  let ?A = "\<lambda>w. alwaysErrorAttempts (b_get b w)" and ?g = "\<lambda>n. wrap64 (n + 1)"
  from assms(4) obtain raw where job: "NewAlwaysErrorJob b m = Inr (bench_job ''fail-error'' (AlwaysErrorHandler b) True raw)"
    and act: "\<And>w. wp (AlwaysErrorHandler b (Some raw)) (\<lambda>r w'. r = HErr m \<and> ?A w' = ?g (?A w)) w"
    by (rule always_error_job) blast
  let ?j = "bench_job ''fail-error'' (AlwaysErrorHandler b) True raw"
  have inv: "wp (invoke_handler q ?j) (\<lambda>r w'. ?A w' = ?g (?A w) \<and> (r = HOk \<longleftrightarrow> False)) w" for w
    unfolding runs_own_invoke(1) [OF assms(1)] by (rule wp_mono [OF act]) simp
  have keeps: "wp (e_Insert (b_env b) t j) (\<lambda>_ w'. ?A w' = ?A w) w" "wp (e_Sleep (b_env b) d) (\<lambda>_ w'. ?A w' = ?A w) w" for t j d w
    by (rule wp_mono [OF insert_keeps], simp, rule wp_mono [OF sleep_keeps], simp)
  obtain n q' w' where n: "process_job (b_env b) q ?j w = Some (Suc n, q', w')" "?A w' = (?g ^^ Suc n) (?A w)"
    "int n = q_MaxAttempts q"
    using process_job_iterates [of q ?j ?A ?g "\<lambda>_. False" "b_env b" w,
        OF assms(3) _ _ _ runs_own_invoke(2) [OF assms(1)] inv keeps] assms(2)
    by (auto simp: in_int64_def)
  have "(?g ^^ k) (?A w) = ?A w + int k" if "k \<le> Suc n" for k
    using that
  proof (induction k)
    case (Suc k)
    have "?g (?A w + int k) = ?A w + int (Suc k)"
      using Suc.prems n(3) assms(5,6) by (subst wrap64_id) (auto simp: in_int64_def)
    with Suc show ?case by simp
  qed simp
  from this [of "Suc n"] n show ?thesis
    by (intro exI [of _ ?j] exI [of _ "Suc n"] exI [of _ q'] exI [of _ w']) (simp add: job)
qed

end

section \<open>The busy loop\<close>

text \<open>The loop is a sum of weighted terms, modulo 2 to the 64.\<close>

lemma busy_loop_sum:
  "busy_loop n i sink = sink * 1664525 ^ n + (\<Sum>k < n. 1664525 ^ (n - 1 - k) * (of_nat (i + k) + 1013904223))"
proof (induction n arbitrary: i sink)
  case (Suc n)
  have "(\<Sum>k < Suc n. 1664525 ^ (Suc n - 1 - k) * (of_nat (i + k) + 1013904223 :: 64 word))
      = 1664525 ^ n * (of_nat i + 1013904223) + (\<Sum>k < n. 1664525 ^ (n - 1 - k) * (of_nat (Suc i + k) + 1013904223))"
    by (subst sum.lessThan_Suc_shift) simp
  then show ?case by (simp add: Suc.IH algebra_simps)
qed simp

end
