(* ===== verification/Redis_Keys.thy ===== *)
theory Redis_Keys
  imports Queue_Types
begin

text \<open>
  The redis key space (\<open>api/redis.go\<close>, lines 12 to 22, 75 to 78 and 311 to 315): the key
  formats, the way the scanner and the reaper take a queue name and a job id out of a key, and the
  normalisation of channel names. A key splits back into the queue and the id it was made of
  exactly when the queue name has no colon (\<open>key_parts_key\<close>), which normalised names have
  (\<open>RedisKeyspaceFormater_no_colon\<close>).
\<close>

definition formatComplete :: string where "formatComplete = ''queues:%s:completed:%s''"
definition formatFailed :: string where "formatFailed = ''queues:%s:failed:%s''"
definition formatLocked :: string where "formatLocked = ''queues:%s:locked:%s''"
definition formatPending :: string where "formatPending = ''queues:%s:pending:%s''"
definition statusComplete :: string where "statusComplete = ''completed''"
definition statusFailed :: string where "statusFailed = ''failed''"
definition statusActive :: string where "statusActive = ''processing''"
definition statusPending :: string where "statusPending = ''pending''"

lemma sprintf_keys:
  "sprintf formatComplete [q, i] = ''queues:'' @ q @ '':completed:'' @ i"
  "sprintf formatFailed [q, i] = ''queues:'' @ q @ '':failed:'' @ i"
  "sprintf formatLocked [q, i] = ''queues:'' @ q @ '':locked:'' @ i"
  "sprintf formatPending [q, i] = ''queues:'' @ q @ '':pending:'' @ i"
  by (simp_all add: formatComplete_def formatFailed_def formatLocked_def formatPending_def)

text \<open>The four keys of a job are different keys.\<close>

lemma keys_distinct [simp]:
  "sprintf formatLocked [q, i] \<noteq> sprintf formatPending [q, i]"
  "sprintf formatLocked [q, i] \<noteq> sprintf formatComplete [q, i]"
  "sprintf formatLocked [q, i] \<noteq> sprintf formatFailed [q, i]"
  "sprintf formatPending [q, i] \<noteq> sprintf formatLocked [q, i]"
  "sprintf formatPending [q, i] \<noteq> sprintf formatComplete [q, i]"
  "sprintf formatPending [q, i] \<noteq> sprintf formatFailed [q, i]"
  "sprintf formatComplete [q, i] \<noteq> sprintf formatLocked [q, i]"
  "sprintf formatFailed [q, i] \<noteq> sprintf formatLocked [q, i]"
  "sprintf formatComplete [q, i] \<noteq> sprintf formatPending [q, i]"
  "sprintf formatFailed [q, i] \<noteq> sprintf formatPending [q, i]"
  "sprintf formatComplete [q, i] \<noteq> sprintf formatFailed [q, i]"
  "sprintf formatFailed [q, i] \<noteq> sprintf formatComplete [q, i]"
  by (simp_all add: sprintf_keys)

section \<open>Taking a key apart\<close>

text \<open>\<open>keyParts[len-3]\<close> and \<open>keyParts[len-1]\<close>; with fewer than three parts the
  index is negative and the code panics, the value \<open>None\<close>.\<close>

definition key_parts :: "string \<Rightarrow> (string \<times> string) option" where
  "key_parts key =
     (let ps = split_on (CHR '':'') key; n = length ps
      in if n < 3 then None else Some (ps ! (n - 3), ps ! (n - 1)))"

lemma split_on_key:
  assumes "CHR '':'' \<notin> set i" and "CHR '':'' \<notin> set st"
  shows "split_on (CHR '':'') (''queues:'' @ q @ CHR '':'' # st @ CHR '':'' # i)
    = ''queues'' # split_on (CHR '':'') q @ [st, i]"
proof -
  have "split_on (CHR '':'') (st @ CHR '':'' # i) = [st, i]"
    using assms by (simp add: split_on_append split_on_no_sep)
  then show ?thesis
    using split_on_append_sep [of "CHR '':''" q "st @ CHR '':'' # i"]
      split_on_append [of "CHR '':''" "''queues''" "q @ CHR '':'' # st @ CHR '':'' # i"]
    by simp
qed

lemma key_parts_key:
  assumes "CHR '':'' \<notin> set i" and "CHR '':'' \<notin> set st"
  shows "key_parts (''queues:'' @ q @ CHR '':'' # st @ CHR '':'' # i)
    = Some (last (split_on (CHR '':'') q), i)"
proof -
  let ?qs = "split_on (CHR '':'') q"
  have "length ?qs - 1 < length ?qs" by simp
  then have "(''queues'' # ?qs @ [st, i]) ! length ?qs = last ?qs"
    by (cases "length ?qs") (simp_all add: last_conv_nth nth_append)
  then show ?thesis
    by (simp only: key_parts_def split_on_key [OF assms] Let_def) (simp add: nth_append)
qed

lemma split_on_parts: "p \<in> set (split_on c s) \<Longrightarrow> c \<notin> set p"
proof (induction s arbitrary: p)
  case Nil
  then show ?case by simp
next
  case (Cons x s)
  then show ?case
    by (cases "split_on c s") (auto split: if_splits)
qed

text \<open>What comes out of a key has no colon, so the names the code works with are well formed.\<close>

lemma key_parts_clean:
  assumes "key_parts key = Some (q, i)"
  shows "CHR '':'' \<notin> set q \<and> CHR '':'' \<notin> set i"
proof -
  let ?ps = "split_on (CHR '':'') key"
  from assms have "q = ?ps ! (length ?ps - 3)" "i = ?ps ! (length ?ps - 1)" "3 \<le> length ?ps"
    by (auto simp: key_parts_def Let_def split: if_splits)
  then have "q \<in> set ?ps" "i \<in> set ?ps" by auto
  then show ?thesis using split_on_parts by blast
qed

lemma key_parts_None: "key_parts key = None \<longleftrightarrow> count_list key (CHR '':'') < 2"
  by (simp add: key_parts_def Let_def length_split_on)

lemma last_split_on: "CHR '':'' \<notin> set q \<Longrightarrow> last (split_on (CHR '':'') q) = q"
  by (simp add: split_on_no_sep)

lemma last_split_on_no_sep: "c \<notin> set (last (split_on c s))"
proof (induction s)
  case Nil
  then show ?case by simp
next
  case (Cons x s)
  then show ?case
    by (cases "split_on c s"; cases "tl (split_on c s)") auto
qed

section \<open>Channel names\<close>

definition RedisKeyspaceFormater :: "(string \<Rightarrow> string) \<Rightarrow> string \<Rightarrow> string" where
  "RedisKeyspaceFormater ulow keyspace = to_lower ulow (concat (map replace_byte keyspace))"

lemma ascii_lower_ne:
  assumes "c \<noteq> x" and "(of_char x :: nat) < 97"
  shows "ascii_lower c \<noteq> x"
proof
  assume eq: "ascii_lower c = x"
  show False
  proof (cases "65 \<le> (of_char c :: nat) \<and> (of_char c :: nat) \<le> 90")
    case True
    then have "(of_char (ascii_lower c) :: nat) = of_char c + 32"
      by (simp add: ascii_lower_def Let_def)
    with True eq assms(2) show False by simp
  next
    case False
    then have "ascii_lower c = c" by (auto simp: ascii_lower_def Let_def)
    with eq assms(1) show False by simp
  qed
qed

lemma RedisKeyspaceFormater_clean:
  assumes "is_ascii s" and "x = CHR '':'' \<or> x = CHR '' '' \<or> x = CHR '',''"
  shows "x \<notin> set (RedisKeyspaceFormater ulow s)"
proof -
  have asc: "is_ascii (concat (map replace_byte s))"
    using assms(1) by (auto simp: is_ascii_def list_all_iff replace_byte_def split: if_splits)
  have "x \<notin> set (concat (map replace_byte s))" and lt: "(of_char x :: nat) < 97"
    using assms(2) by (auto simp: replace_byte_def split: if_splits)
  then have "x \<notin> ascii_lower ` set (concat (map replace_byte s))"
    using ascii_lower_ne [of _ x] by (metis image_iff)
  with asc show ?thesis
    by (simp add: RedisKeyspaceFormater_def to_lower_def)
qed

end
