(* ===== verification/Redis_Server.thy ===== *)
theory Redis_Server
  imports Redis_Keys
begin

text \<open>
  What the redis backend relies on of the redis server and of the client library, as two locales.

  \<open>redis_server\<close>: the hashes of the server read as jobs, \<open>ks w key\<close>. A command that
  reports success has its documented effect on that reading; one that reports an error has none;
  the clock, sleeping and the database do not touch redis. \<open>redis_live\<close> adds that commands
  succeed when redis documents that they do: \<open>RENAME\<close> on an existing key, \<open>HSET\<close>,
  \<open>HGETALL\<close>, \<open>EXISTS\<close> and \<open>DEL\<close> always.

  The reading is at the level of jobs because every hash of the queue is written by
  \<open>HSET key AddFlat(&job)\<close> and read by \<open>ScanStruct\<close> of \<open>HGETALL key\<close>: writing all
  fields stores the job less its fields tagged \<open>redis:"-"\<close>, writing one field changes that
  field, and a missing hash reads as the zero job.
\<close>

definition job_or_zero :: "'w job option \<Rightarrow> 'w job" where
  "job_or_zero x = (case x of None \<Rightarrow> zero_job | Some j \<Rightarrow> j)"

lemma job_or_zero_simps [simp]: "job_or_zero None = zero_job" "job_or_zero (Some j) = j"
  by (simp_all add: job_or_zero_def)

locale redis_server =
  fixes e :: "'w env" and ks :: "'w \<Rightarrow> string \<rightharpoonup> 'w job"
  assumes hset_job: "wp (e_Do e (''HSET'' # k # e_AddFlat e j))
      (\<lambda>(r, err) w'. ks w' = (if err = None then (ks w)(k \<mapsto> redis_view j) else ks w)) w"
    and hset_LockedAt: "wp (e_Do e [''HSET'', k, ''LockedAt'', v])
      (\<lambda>(r, err) w'. ks w' = (if err = None
         then (ks w)(k \<mapsto> (job_or_zero (ks w k))\<lparr>j_LockedAt := v\<rparr>) else ks w)) w"
    and hset_Status: "wp (e_Do e [''HSET'', k, ''Status'', v])
      (\<lambda>(r, err) w'. ks w' = (if err = None
         then (ks w)(k \<mapsto> (job_or_zero (ks w k))\<lparr>j_Status := v\<rparr>) else ks w)) w"
    and rename: "wp (e_Do e [''RENAME'', k, k'])
      (\<lambda>(r, err) w'. if err = None
         then ks w k \<noteq> None \<and> ks w' = (ks w)(k := None, k' := ks w k) else ks w' = ks w) w"
    and hgetall: "wp (e_Do e [''HGETALL'', k])
      (\<lambda>rep w'. ks w' = ks w
         \<and> (\<forall>vs. e_Values e rep = Inr vs \<longrightarrow> e_ScanStruct e vs = Inr (job_or_zero (ks w k)))) w"
    and exists: "wp (e_Do e [''EXISTS'', k])
      (\<lambda>rep w'. ks w' = ks w
         \<and> (\<forall>n. e_Int e rep = Inr n \<longrightarrow> n = (if ks w k = None then 0 else 1))) w"
    and del: "wp (e_Do e [''DEL'', k])
      (\<lambda>(r, err) w'. ks w' = (if err = None then (ks w)(k := None) else ks w)) w"
    and scan_ks: "wp (e_Do e (''SCAN'' # args)) (\<lambda>rep w'. ks w' = ks w) w"
    and now_ks: "wp (e_Now e) (\<lambda>t w'. ks w' = ks w) w"
    and sleep_ks: "wp (e_Sleep e d) (\<lambda>u w'. ks w' = ks w) w"
    and insert_ks: "wp (e_Insert e tbl j) (\<lambda>r w'. ks w' = ks w) w"
begin

lemma now_utc_ks: "wp (now_utc e) (\<lambda>t w'. ks w' = ks w) w"
  unfolding now_utc_def wp_bind wp_return by (rule now_ks)

end

locale redis_live = redis_server +
  assumes hset_job_ok: "wp (e_Do e (''HSET'' # k # e_AddFlat e j)) (\<lambda>(r, err) w'. err = None) w"
    and hset_LockedAt_ok: "wp (e_Do e [''HSET'', k, ''LockedAt'', v]) (\<lambda>(r, err) w'. err = None) w"
    and hset_Status_ok: "wp (e_Do e [''HSET'', k, ''Status'', v]) (\<lambda>(r, err) w'. err = None) w"
    and rename_ok: "ks w k \<noteq> None \<Longrightarrow> wp (e_Do e [''RENAME'', k, k']) (\<lambda>(r, err) w'. err = None) w"
    and rename_missing: "ks w k = None \<Longrightarrow>
      wp (e_Do e [''RENAME'', k, k']) (\<lambda>(r, err) w'. \<exists>m. err = Some m \<and> str_contains m ''no such key'') w"
    and hgetall_ok: "wp (e_Do e [''HGETALL'', k]) (\<lambda>rep w'. \<exists>vs. e_Values e rep = Inr vs) w"
    and exists_ok: "wp (e_Do e [''EXISTS'', k]) (\<lambda>rep w'. \<exists>n. e_Int e rep = Inr n) w"
    and del_ok: "wp (e_Do e [''DEL'', k]) (\<lambda>(r, err) w'. err = None) w"
begin

lemma hset_job_live:
  "wp (e_Do e (''HSET'' # k # e_AddFlat e j)) (\<lambda>(r, err) w'. err = None \<and> ks w' = (ks w)(k \<mapsto> redis_view j)) w"
  by (rule wp_mono [OF wp_conj [OF hset_job hset_job_ok]]) auto

lemma hset_Status_live:
  "wp (e_Do e [''HSET'', k, ''Status'', v]) (\<lambda>(r, err) w'. err = None
     \<and> ks w' = (ks w)(k \<mapsto> (job_or_zero (ks w k))\<lparr>j_Status := v\<rparr>)) w"
  by (rule wp_mono [OF wp_conj [OF hset_Status hset_Status_ok]]) auto

lemma hset_LockedAt_live:
  "wp (e_Do e [''HSET'', k, ''LockedAt'', v]) (\<lambda>(r, err) w'. err = None
     \<and> ks w' = (ks w)(k \<mapsto> (job_or_zero (ks w k))\<lparr>j_LockedAt := v\<rparr>)) w"
  by (rule wp_mono [OF wp_conj [OF hset_LockedAt hset_LockedAt_ok]]) auto

lemma rename_live:
  assumes "ks w k = Some j"
  shows "wp (e_Do e [''RENAME'', k, k']) (\<lambda>(r, err) w'. err = None
     \<and> ks w' = (ks w)(k := None, k' \<mapsto> j)) w"
  by (rule wp_mono [OF wp_conj [OF rename rename_ok]]) (auto simp: assms)

end

end
