(* ===== verification/Redis_Backend.thy ===== *)
theory Redis_Backend
  imports Redis_Server Handler_Registry Memory_Backend
begin

text \<open>
  The redis backend (\<open>api/redis.go\<close>): moving a job's hash between keys, reading a job,
  running a claimed job and recording the outcome (\<open>handleRedisJob\<close>). Every early return of
  the source is a branch here. Logging is left out; everything the code writes to redis or the
  database is kept.
\<close>

section \<open>Reading and renaming\<close>

text \<open>The connection is passed as a pointer, \<open>None\<close> for nil.\<close>

definition getRedisValue ::
  "'w env option \<Rightarrow> string \<Rightarrow> string \<Rightarrow> string \<Rightarrow> ('w, string + 'w job) state" where
  "getRedisValue c queue i fmt =
     (case c of
        None \<Rightarrow> State_Monad.return (Inl ''nil redis connection provided'')
      | Some e \<Rightarrow> do {
          let key = sprintf fmt [queue, i];
          rep \<leftarrow> e_Do e [''HGETALL'', key];
          State_Monad.return
            (case e_Values e rep of
               Inl err \<Rightarrow> Inl (''failed to get value from redis for key '' @ key @ '': '' @ err)
             | Inr vs \<Rightarrow>
                 (case e_ScanStruct e vs of
                    Inl err \<Rightarrow> Inl (''failed to scan value to struct '' @ key @ '': '' @ err)
                  | Inr job \<Rightarrow> Inr job)) })"

definition setRedisKey ::
  "'w env option \<Rightarrow> string \<Rightarrow> string \<Rightarrow> string \<Rightarrow> string \<Rightarrow> ('w, string option) state" where
  "setRedisKey c queue i oldKey newKey =
     (if oldKey = [] then State_Monad.return (Some ''invalid key provided'')
      else if newKey = [] then State_Monad.return (Some ''invalid key provided'')
      else let keyOld = sprintf oldKey [queue, i]; keyNew = sprintf newKey [queue, i]
           in case c of
                None \<Rightarrow> State_Monad.return (Some ''nil redis connection provided'')
              | Some e \<Rightarrow> do {
                  (_, err) \<leftarrow> e_Do e [''RENAME'', keyOld, keyNew];
                  State_Monad.return
                    (map_option (\<lambda>m. ''failed to rename key in redis from '' @ oldKey @ '' to ''
                                     @ newKey @ '': '' @ m) err) })"

section \<open>Running a claimed job\<close>

text \<open>The registry lookup and the call with panic recovery: the result code, the error text and
  the job, whose retry flag is cleared when no handler is registered.\<close>

definition call_registered :: "'w queue \<Rightarrow> 'w registeredHandler \<Rightarrow> 'w job \<Rightarrow> ('w, hresult) state" where
  "call_registered q reg job =
     (case ctx reg of
        Some f \<Rightarrow> f (q_ctxDone q) (j_Payload job)
      | None \<Rightarrow> (case plain reg of Some f \<Rightarrow> f (j_Payload job)
                 | None \<Rightarrow> State_Monad.return (HPanic nil_call)))"

fun rpc_result :: "hresult \<Rightarrow> int \<times> string option" where
  "rpc_result HOk = (0, None)"
| "rpc_result (HErr m) = (1, Some m)"
| "rpc_result (HPanic p) = (1, Some (''handler panic: '' @ p))"

definition redis_call ::
  "'w env \<Rightarrow> 'w queue \<Rightarrow> 'w job \<Rightarrow> ('w, int \<times> string option \<times> 'w job) state" where
  "redis_call e q job =
     (let none = State_Monad.return
            (1, Some (''no handler registered for '' @ go_quote (e_uquote e) (j_Name job)),
             job\<lparr>j_Retry := False\<rparr>)
      in case lookup_handler q (j_Name job) of
           None \<Rightarrow> none
         | Some reg \<Rightarrow>
             if plain reg = None \<and> ctx reg = None then none
             else do {
               r \<leftarrow> call_registered q reg job;
               State_Monad.return (fst (rpc_result r), snd (rpc_result r), job) })"

definition redis_complete :: "'w env \<Rightarrow> string \<Rightarrow> 'w job \<Rightarrow> string \<Rightarrow> ('w, unit) state" where
  "redis_complete e queue job jobID = do {
     now \<leftarrow> now_utc e;
     let job1 = job\<lparr>j_CompletedAt := now, j_Status := statusComplete, j_Exception := ''''\<rparr>;
     (_, err) \<leftarrow> e_Do e (''HSET'' # sprintf formatLocked [queue, jobID] # e_AddFlat e job1);
     (if err \<noteq> None then State_Monad.return ()
      else do {
        _ \<leftarrow> setRedisKey (Some e) queue jobID formatLocked formatComplete;
        State_Monad.return () }) }"

text \<open>The retry gate: five seconds when the job has no \<open>RetryAfter\<close> yet, in UTC; otherwise
  five seconds per retry so far, in the local zone.\<close>

definition retry_gate :: "'w env \<Rightarrow> 'w job \<Rightarrow> ('w, string) state" where
  "retry_gate e job =
     (if j_RetryAfter job = ''''
      then do { t \<leftarrow> e_Now e; State_Monad.return (format_rfc3339 0 (t + 5 * second)) }
      else do {
        t \<leftarrow> e_Now e;
        let t' = t + seconds (wrap64 (j_RetryCounter job * 5));
        State_Monad.return (format_rfc3339 (e_Local e t') t') })"

definition redis_retry :: "'w env \<Rightarrow> string \<Rightarrow> 'w job \<Rightarrow> string \<Rightarrow> ('w, unit) state" where
  "redis_retry e queue job jobID = do {
     gate \<leftarrow> retry_gate e job;
     now \<leftarrow> now_utc e;
     let job1 = job\<lparr>j_RetryAfter := gate, j_RetryCounter := wrap64 (j_RetryCounter job + 1),
                    j_CompletedAt := now, j_Status := statusPending\<rparr>;
     _ \<leftarrow> e_Do e (''HSET'' # sprintf formatPending [queue, jobID] # e_AddFlat e job1);
     State_Monad.return () }"

definition redis_fail ::
  "'w env \<Rightarrow> 'w queue \<Rightarrow> string \<Rightarrow> 'w job \<Rightarrow> string \<Rightarrow> string option \<Rightarrow> ('w, unit) state" where
  "redis_fail e q queue job jobID rpcError = do {
     now \<leftarrow> now_utc e;
     created \<leftarrow> e_Now e;
     updated \<leftarrow> e_Now e;
     let job1 = job\<lparr>j_FailedAt := now,
                    j_Exception := (case rpcError of Some m \<Rightarrow> m | None \<Rightarrow> j_Exception job),
                    j_CreatedAt := created, j_UpdatedAt := updated, j_Status := statusFailed\<rparr>;
     (_, err) \<leftarrow> e_Do e (''HSET'' # sprintf formatLocked [queue, jobID] # e_AddFlat e job1);
     (if err \<noteq> None then State_Monad.return ()
      else do {
        rerr \<leftarrow> setRedisKey (Some e) queue jobID formatLocked formatFailed;
        (if rerr \<noteq> None then State_Monad.return ()
         else if q_DB q then do { _ \<leftarrow> e_Insert e ''failed_jobs'' job1; State_Monad.return () }
         else State_Monad.return ()) }) }"

definition handleRedisJob ::
  "'w env \<Rightarrow> 'w queue \<Rightarrow> string \<Rightarrow> 'w job \<Rightarrow> string \<Rightarrow> ('w, unit) state" where
  "handleRedisJob e q queue cachedJob jobID = do {
     (_, err) \<leftarrow> e_Do e [''HSET'', sprintf formatLocked [queue, j_ID cachedJob], ''Status'', statusActive];
     (if err \<noteq> None then State_Monad.return ()
      else do {
        (res, rpcError, job) \<leftarrow> redis_call e q cachedJob;
        (if res = 0 then redis_complete e queue job jobID
         else if res = 1 then
           (if j_Retry job \<and> j_RetryCounter job < q_MaxAttempts q
            then redis_retry e queue job jobID
            else redis_fail e q queue job jobID rpcError)
         else State_Monad.return ()) }) }"

text \<open>The gate as a function of the time the clock shows when it is computed.\<close>

definition gate_at :: "'w env \<Rightarrow> 'w job \<Rightarrow> time \<Rightarrow> string" where
  "gate_at e job t =
     (if j_RetryAfter job = [] then format_rfc3339 0 (t + 5 * second)
      else let t' = t + seconds (wrap64 (j_RetryCounter job * 5)) in format_rfc3339 (e_Local e t') t')"

section \<open>What a job keeps, and where it lives\<close>

text \<open>The identity of a job, which no transition changes, and the keys it may be under.\<close>

definition ident :: "'w job \<Rightarrow> string \<times> string \<times> bytes" where
  "ident j = (j_ID j, j_Name j, payload_bytes (j_Payload j))"

definition job_keys :: "string \<Rightarrow> string \<Rightarrow> string set" where
  "job_keys queue i =
     {sprintf formatLocked [queue, i], sprintf formatPending [queue, i],
      sprintf formatComplete [queue, i], sprintf formatFailed [queue, i]}"

text \<open>Some key of the set holds the job, none of them got another job, and every other key is as
  before.\<close>

definition conserves ::
  "string set \<Rightarrow> string \<times> string \<times> bytes \<Rightarrow> (string \<rightharpoonup> 'w job) \<Rightarrow> (string \<rightharpoonup> 'w job) \<Rightarrow> bool" where
  "conserves K i m m' \<longleftrightarrow>
     (\<forall>k. k \<notin> K \<longrightarrow> m' k = m k) \<and> (\<exists>k \<in> K. \<exists>j. m' k = Some j \<and> ident j = i)
     \<and> (\<forall>k j. m' k = Some j \<longrightarrow> m k = Some j \<or> ident j = i)"

lemma ident_redis_view [simp]: "ident (redis_view j) = ident j"
  by (simp add: ident_def redis_view_def)

lemma ident_upd [simp]:
  "ident (j\<lparr>j_Retry := b\<rparr>) = ident j" "ident (j\<lparr>j_RetryCounter := n\<rparr>) = ident j"
  "ident (j\<lparr>j_RetryAfter := s\<rparr>) = ident j" "ident (j\<lparr>j_CompletedAt := s\<rparr>) = ident j"
  "ident (j\<lparr>j_FailedAt := s\<rparr>) = ident j" "ident (j\<lparr>j_LockedAt := s\<rparr>) = ident j"
  "ident (j\<lparr>j_Exception := s\<rparr>) = ident j" "ident (j\<lparr>j_Status := s\<rparr>) = ident j"
  "ident (j\<lparr>j_CreatedAt := t\<rparr>) = ident j" "ident (j\<lparr>j_UpdatedAt := t\<rparr>) = ident j"
  by (simp_all add: ident_def)

lemma conserves_self: "k \<in> K \<Longrightarrow> m k = Some j \<Longrightarrow> conserves K (ident j) m m"
  by (auto simp: conserves_def)

lemma conserves_put:
  "(\<And>x. x \<notin> K \<Longrightarrow> m' x = m x) \<Longrightarrow> (\<And>x j. m' x = Some j \<Longrightarrow> m x = Some j \<or> ident j = i)
     \<Longrightarrow> k \<in> K \<Longrightarrow> ident j = i \<Longrightarrow> conserves K i m (m'(k \<mapsto> j))"
  by (auto simp: conserves_def)

lemma conserves_upd: "conserves K i m m' \<Longrightarrow> k \<in> K \<Longrightarrow> ident j = i \<Longrightarrow> conserves K i m (m'(k \<mapsto> j))"
  by (rule conserves_put) (auto simp: conserves_def)

lemma conserves_move:
  "conserves K i m m' \<Longrightarrow> a \<in> K \<Longrightarrow> k \<in> K \<Longrightarrow> ident j = i \<Longrightarrow> conserves K i m (m'(a := None, k \<mapsto> j))"
  by (rule conserves_put) (auto simp: conserves_def split: if_splits)

lemma conserves_trans:
  "conserves K i m m' \<Longrightarrow> conserves K i m' m'' \<Longrightarrow> conserves K i m m''"
  unfolding conserves_def by metis

lemma job_keys_mem [simp]:
  "sprintf formatLocked [queue, i] \<in> job_keys queue i" "sprintf formatPending [queue, i] \<in> job_keys queue i"
  "sprintf formatComplete [queue, i] \<in> job_keys queue i" "sprintf formatFailed [queue, i] \<in> job_keys queue i"
  by (simp_all add: job_keys_def)

lemmas conserves_intros = conserves_upd conserves_move

lemma formats_not_Nil [simp]:
  "formatLocked \<noteq> []" "formatPending \<noteq> []" "formatComplete \<noteq> []" "formatFailed \<noteq> []"
  by (simp_all add: formatLocked_def formatPending_def formatComplete_def formatFailed_def)

context redis_server
begin

lemma setRedisKey_ks:
  assumes "old \<noteq> []" and "new \<noteq> []"
  shows "wp (setRedisKey (Some e) queue i old new)
     (\<lambda>err w'. if err = None
        then ks w (sprintf old [queue, i]) \<noteq> None
          \<and> ks w' = (ks w)(sprintf old [queue, i] := None, sprintf new [queue, i] := ks w (sprintf old [queue, i]))
        else ks w' = ks w) w"
  using assms unfolding setRedisKey_def
  by (simp add: wp_simps, intro wp_mono [OF rename]) (auto simp: wp_simps)

lemma getRedisValue_ks:
  "wp (getRedisValue (Some e) queue i fmt)
     (\<lambda>r w'. ks w' = ks w \<and> (\<forall>j. r = Inr j \<longrightarrow> j = job_or_zero (ks w (sprintf fmt [queue, i])))) w"
  unfolding getRedisValue_def
  by (simp add: wp_simps, intro wp_mono [OF hgetall]) (auto simp: wp_simps split: sum.splits)

lemma redis_complete_ks:
  "wp (redis_complete e queue job i)
     (\<lambda>_ w'. \<exists>now. let j = redis_view (job\<lparr>j_CompletedAt := now, j_Status := statusComplete, j_Exception := []\<rparr>);
                 L = sprintf formatLocked [queue, i]; C = sprintf formatComplete [queue, i]
             in ks w' = ks w \<or> ks w' = (ks w)(L \<mapsto> j) \<or> ks w' = (ks w)(L := None, C \<mapsto> j)) w"
  unfolding redis_complete_def wp_simps
proof (rule wp_mono [OF now_utc_ks], rule wp_mono [OF hset_job], goal_cases)
  case (1 now w1 rerr w2)
  then show ?case
    by (cases rerr) (auto simp: wp_simps Let_def split: if_splits
        intro!: exI [of _ now] wp_mono [OF setRedisKey_ks])
qed

lemma retry_gate_ks: "wp (retry_gate e job) (\<lambda>g w'. ks w' = ks w \<and> (\<exists>t. g = gate_at e job t)) w"
  unfolding retry_gate_def wp_simps
  by (auto intro!: wp_mono [OF now_ks] simp: gate_at_def Let_def)

lemma redis_retry_ks:
  "wp (redis_retry e queue job i)
     (\<lambda>_ w'. \<exists>gate now. let j = redis_view (job\<lparr>j_RetryAfter := gate,
          j_RetryCounter := wrap64 (j_RetryCounter job + 1), j_CompletedAt := now, j_Status := statusPending\<rparr>)
        in ks w' = ks w \<or> ks w' = (ks w)(sprintf formatPending [queue, i] \<mapsto> j)) w"
  unfolding redis_retry_def wp_simps
proof (rule wp_mono [OF retry_gate_ks], rule wp_mono [OF now_utc_ks], rule wp_mono [OF hset_job], goal_cases)
  case (1 gate w1 now w2 rerr w3)
  then show ?case
    by (cases rerr) (rule exI [of _ gate], rule exI [of _ now], auto simp: Let_def split: if_splits)
qed

lemma redis_fail_ks:
  "wp (redis_fail e q queue job i rpcError)
     (\<lambda>_ w'. \<exists>now. let j = redis_view (job\<lparr>j_FailedAt := now,
           j_Exception := (case rpcError of Some m \<Rightarrow> m | None \<Rightarrow> j_Exception job), j_Status := statusFailed\<rparr>);
          L = sprintf formatLocked [queue, i]; F = sprintf formatFailed [queue, i]
        in ks w' = ks w \<or> ks w' = (ks w)(L \<mapsto> j) \<or> ks w' = (ks w)(L := None, F \<mapsto> j)) w"
  unfolding redis_fail_def wp_simps
proof (rule wp_mono [OF now_utc_ks], rule wp_mono [OF now_ks], rule wp_mono [OF now_ks],
    rule wp_mono [OF hset_job], goal_cases)
  case (1 now w1 t2 w2 t3 w3 rerr w4)
  let ?job = "job\<lparr>j_FailedAt := now, j_Exception := (case rpcError of Some m \<Rightarrow> m | None \<Rightarrow> j_Exception job),
    j_CreatedAt := t2, j_UpdatedAt := t3, j_Status := statusFailed\<rparr>"
  have view: "redis_view ?job = redis_view (job\<lparr>j_FailedAt := now,
      j_Exception := (case rpcError of Some m \<Rightarrow> m | None \<Rightarrow> j_Exception job), j_Status := statusFailed\<rparr>)"
    by (simp add: redis_view_def)
  obtain r err where rerr: "rerr = (r, err)" by (cases rerr)
  show ?case
  proof (cases err)
    case None
    with 1 rerr have ks4: "ks w4 = (ks w)(sprintf formatLocked [queue, i] \<mapsto> redis_view ?job)" by simp
    show ?thesis
      unfolding rerr None prod.case simp_thms if_False
    proof (rule wp_mono [OF setRedisKey_ks], simp_all, goal_cases)
      case (1 ren w5)
      then show ?case
        by (auto simp: ks4 view Let_def wp_simps intro!: exI [of _ now] wp_mono [OF insert_ks])
    qed
  next
    case (Some m)
    with 1 rerr show ?thesis by (auto simp: wp_simps Let_def)
  qed
qed

end

text \<open>The registered handlers leave the hashes of the queue alone.\<close>

locale redis_job = redis_server +
  fixes q :: "'a queue"
  assumes handler_ks: "lookup_handler q name = Some reg \<Longrightarrow>
      wp (call_registered q reg job) (\<lambda>r w'. ks w' = ks w) w"
begin

lemma redis_call_ks:
  "wp (redis_call e q job) (\<lambda>(res, err, j) w'. ks w' = ks w \<and> (j = job \<or> j = job\<lparr>j_Retry := False\<rparr>)) w"
  unfolding redis_call_def
  by (auto simp: wp_simps Let_def split: option.splits intro!: wp_mono [OF handler_ks])

text \<open>Whatever redis answers and whatever the handler does, the job is not lost: one of its four
  keys holds it, with its id, name and payload, and no other key changes.\<close>

lemma outcome_conserves:
  assumes "conserves (job_keys queue i) (ident job) m (ks w)"
  shows "wp (redis_complete e queue job i) (\<lambda>_ w'. conserves (job_keys queue i) (ident job) m (ks w')) w"
    and "wp (redis_retry e queue job i) (\<lambda>_ w'. conserves (job_keys queue i) (ident job) m (ks w')) w"
    and "wp (redis_fail e q queue job i rpcError) (\<lambda>_ w'. conserves (job_keys queue i) (ident job) m (ks w')) w"
proof (goal_cases)
  case 1
  show ?case by (rule wp_mono [OF redis_complete_ks]) (use assms in \<open>auto simp: Let_def conserves_intros\<close>)
next
  case 2
  show ?case by (rule wp_mono [OF redis_retry_ks]) (use assms in \<open>auto simp: Let_def conserves_intros\<close>)
next
  case 3
  show ?case by (rule wp_mono [OF redis_fail_ks]) (use assms in \<open>auto simp: Let_def conserves_intros\<close>)
qed

lemma handleRedisJob_conserves:
  assumes "ks w (sprintf formatLocked [queue, i]) = Some j0" and "ident job = ident j0" and "j_ID job = i"
  shows "wp (handleRedisJob e q queue job i) (\<lambda>_ w'. conserves (job_keys queue i) (ident job) (ks w) (ks w')) w"
  unfolding handleRedisJob_def wp_bind assms(3)
proof (rule wp_mono [OF hset_Status], goal_cases)
  case (1 rerr w1)
  obtain r err where rerr: "rerr = (r, err)" by (cases rerr)
  show ?case
  proof (cases err)
    case None
    let ?j1 = "j0\<lparr>j_Status := statusActive\<rparr>"
    from 1 rerr None assms(1) have ks1: "ks w1 = (ks w)(sprintf formatLocked [queue, i] \<mapsto> ?j1)" by simp
    have call: "wp (redis_call e q job) (\<lambda>(res, err, j) w'. ks w' = ks w1 \<and> (j = job \<or> j = job\<lparr>j_Retry := False\<rparr>)) w1"
      by (rule redis_call_ks)
    show ?thesis
      unfolding rerr None prod.case simp_thms if_False wp_bind
    proof (rule wp_mono [OF call], goal_cases)
      case (1 res w2)
      obtain n err2 j where res: "res = (n, err2, j)" by (cases res) auto
      with 1 have ks2: "ks w2 = ks w1" and id: "ident j = ident job"
        by (auto simp: ident_def)
      have fr: "conserves (job_keys queue i) (ident j) (ks w) (ks w2)"
        unfolding ks1 ks2 using id assms(2) by (auto intro!: conserves_put)
      have out: "wp (redis_complete e queue j i) (\<lambda>_ w'. conserves (job_keys queue i) (ident job) (ks w) (ks w')) w2"
        "wp (redis_retry e queue j i) (\<lambda>_ w'. conserves (job_keys queue i) (ident job) (ks w) (ks w')) w2"
        "wp (redis_fail e q queue j i err2) (\<lambda>_ w'. conserves (job_keys queue i) (ident job) (ks w) (ks w')) w2"
        using outcome_conserves [OF fr] by (simp_all add: id)
      have "conserves (job_keys queue i) (ident job) (ks w) (ks w2)"
        using fr id by simp
      with out show ?case by (simp add: res wp_simps)
    qed
  next
    case (Some m)
    with 1 rerr assms show ?thesis by (auto simp: wp_simps conserves_def job_keys_def)
  qed
qed

end

section \<open>The outcomes when redis answers\<close>

text \<open>The registered handler of a job exists and every call of it ends in a result that
  satisfies \<open>P\<close>.\<close>

definition handler_yields :: "'w queue \<Rightarrow> 'w job \<Rightarrow> (hresult \<Rightarrow> bool) \<Rightarrow> bool" where
  "handler_yields q job P \<longleftrightarrow>
     (\<exists>reg. lookup_handler q (j_Name job) = Some reg \<and> \<not> (plain reg = None \<and> ctx reg = None)
        \<and> (\<forall>w. P (fst (run_state (call_registered q reg job) w))))"

lemma redis_call_yields:
  assumes "handler_yields q job P"
  shows "wp (redis_call e q job) (\<lambda>(res, err, j) w'. \<exists>r. P r \<and> (res, err) = rpc_result r \<and> j = job) w"
  using assms by (auto simp: handler_yields_def redis_call_def wp_def Let_def split: prod.splits)
    (metis fst_conv)+

text \<open>The states a job is left in: the fields each outcome writes, as redis keeps them.\<close>

definition completed_job :: "'w job \<Rightarrow> time \<Rightarrow> 'w job" where
  "completed_job job t = redis_view
     (job\<lparr>j_CompletedAt := format_rfc3339 0 t, j_Status := statusComplete, j_Exception := []\<rparr>)"

definition retried_job :: "'w job \<Rightarrow> string \<Rightarrow> time \<Rightarrow> 'w job" where
  "retried_job job gate t = redis_view
     (job\<lparr>j_RetryAfter := gate, j_RetryCounter := wrap64 (j_RetryCounter job + 1),
          j_CompletedAt := format_rfc3339 0 t, j_Status := statusPending\<rparr>)"

definition failed_job :: "'w job \<Rightarrow> string option \<Rightarrow> time \<Rightarrow> 'w job" where
  "failed_job job rpcError t = redis_view
     (job\<lparr>j_FailedAt := format_rfc3339 0 t,
          j_Exception := (case rpcError of Some m \<Rightarrow> m | None \<Rightarrow> j_Exception job),
          j_Status := statusFailed\<rparr>)"

context redis_live
begin

lemma setRedisKey_live:
  assumes "old \<noteq> []" and "new \<noteq> []" and "ks w (sprintf old [queue, i]) = Some j"
  shows "wp (setRedisKey (Some e) queue i old new)
     (\<lambda>err w'. err = None \<and> ks w' = (ks w)(sprintf old [queue, i] := None, sprintf new [queue, i] \<mapsto> j)) w"
  using assms unfolding setRedisKey_def
  by (simp add: wp_simps, intro wp_mono [OF rename_live [OF assms(3)]]) (auto simp: wp_simps)

lemma getRedisValue_ok: "wp (getRedisValue (Some e) queue i fmt) (\<lambda>r w'. \<exists>j. r = Inr j) w"
  unfolding getRedisValue_def
  by (simp add: wp_simps, intro wp_mono [OF wp_conj [OF hgetall hgetall_ok]]) (auto simp: wp_simps)

lemma now_utc_live: "wp (now_utc e) (\<lambda>s w'. ks w' = ks w \<and> (\<exists>t. s = format_rfc3339 0 t)) w"
  unfolding now_utc_def wp_bind wp_return by (rule wp_mono [OF now_ks]) auto

lemma redis_complete_live:
  "wp (redis_complete e queue job i)
     (\<lambda>_ w'. \<exists>t. ks w' = (ks w)(sprintf formatLocked [queue, i] := None,
                              sprintf formatComplete [queue, i] \<mapsto> completed_job job t)) w"
  unfolding redis_complete_def wp_simps
proof (rule wp_mono [OF now_utc_live], rule wp_mono [OF hset_job_live], goal_cases)
  case (1 now w1 rerr w2)
  then obtain t where "now = format_rfc3339 0 t" by auto
  with 1 show ?case
    by (cases rerr) (auto simp: wp_simps completed_job_def intro!: wp_mono [OF setRedisKey_live])
qed

lemma redis_retry_live:
  "wp (redis_retry e queue job i)
     (\<lambda>_ w'. \<exists>t0 t. ks w' = (ks w)(sprintf formatPending [queue, i] \<mapsto> retried_job job (gate_at e job t0) t)) w"
  unfolding redis_retry_def wp_simps
proof (rule wp_mono [OF retry_gate_ks], rule wp_mono [OF now_utc_live], rule wp_mono [OF hset_job_live], goal_cases)
  case (1 gate w1 now w2 rerr w3)
  then show ?case by (cases rerr) (auto simp: retried_job_def)
qed

lemma redis_fail_live:
  "wp (redis_fail e q queue job i rpcError)
     (\<lambda>_ w'. \<exists>t. ks w' = (ks w)(sprintf formatLocked [queue, i] := None,
                              sprintf formatFailed [queue, i] \<mapsto> failed_job job rpcError t)) w"
  unfolding redis_fail_def wp_simps
proof (rule wp_mono [OF now_utc_live], rule wp_mono [OF now_ks], rule wp_mono [OF now_ks],
    rule wp_mono [OF hset_job_live], goal_cases)
  case (1 now w1 t2 w2 t3 w3 rerr w4)
  then obtain t where now: "now = format_rfc3339 0 t" by auto
  let ?L = "sprintf formatLocked [queue, i]" and ?F = "sprintf formatFailed [queue, i]"
  have ks4: "ks w4 = (ks w)(?L \<mapsto> failed_job job rpcError t)"
    using 1 now by (cases rerr) (simp add: failed_job_def redis_view_def)
  have "wp (setRedisKey (Some e) queue i formatLocked formatFailed)
      (\<lambda>err w'. err = None \<and> ks w' = (ks w4)(?L := None, ?F \<mapsto> failed_job job rpcError t)) w4"
    by (rule setRedisKey_live) (simp_all add: ks4)
  then show ?case
    using 1 by (cases rerr) (auto simp: wp_simps ks4 elim!: wp_mono intro!: wp_mono [OF insert_ks])
qed

end

locale redis_job_live = redis_job + redis_live
begin

text \<open>The status write and the handler call that precede every outcome.\<close>

lemma handleRedisJob_after_call:
  assumes "ks w (sprintf formatLocked [queue, i]) = Some j0" and "j_ID job = i"
    and "\<And>w. wp (redis_call e q job) (\<lambda>(res, err, j) w'. P res err j) w"
    and "\<And>res err j w'. P res err j \<Longrightarrow> ks w' = (ks w)(sprintf formatLocked [queue, i] \<mapsto> j0\<lparr>j_Status := statusActive\<rparr>)
      \<Longrightarrow> wp (if res = 0 then redis_complete e queue j i
              else if res = 1 then
                (if j_Retry j \<and> j_RetryCounter j < q_MaxAttempts q
                 then redis_retry e queue j i else redis_fail e q queue j i err)
              else State_Monad.return ()) Q w'"
  shows "wp (handleRedisJob e q queue job i) Q w"
  unfolding handleRedisJob_def wp_bind assms(2)
proof (rule wp_mono [OF hset_Status_live], goal_cases)
  case (1 rerr w1)
  then have ks1: "ks w1 = (ks w)(sprintf formatLocked [queue, i] \<mapsto> j0\<lparr>j_Status := statusActive\<rparr>)"
    by (cases rerr) (simp add: assms(1))
  have "wp (redis_call e q job) (\<lambda>(res, err, j). wp (if res = 0 then redis_complete e queue j i
              else if res = 1 then
                (if j_Retry j \<and> j_RetryCounter j < q_MaxAttempts q
                 then redis_retry e queue j i else redis_fail e q queue j i err)
              else State_Monad.return ()) Q) w1"
    by (rule wp_mono [OF wp_conj [OF redis_call_ks assms(3)]]) (auto intro!: assms(4) simp: ks1)
  with 1 show ?case
    by (cases rerr) (simp add: wp_bind case_prod_unfold)
qed

lemma handleRedisJob_success:
  assumes "ks w (sprintf formatLocked [queue, i]) = Some j0" and "j_ID job = i"
    and "handler_yields q job (\<lambda>r. r = HOk)"
  shows "wp (handleRedisJob e q queue job i)
     (\<lambda>_ w'. \<exists>t. ks w' = (ks w)(sprintf formatLocked [queue, i] := None,
                              sprintf formatComplete [queue, i] \<mapsto> completed_job job t)) w"
proof (rule handleRedisJob_after_call [OF assms(1,2) redis_call_yields [OF assms(3)]], goal_cases)
  case (1 res err j w')
  then have "res = 0" "j = job" by auto
  then show ?case
    using 1 by (auto intro!: wp_mono [OF redis_complete_live])
qed

lemma handleRedisJob_retry:
  assumes "ks w (sprintf formatLocked [queue, i]) = Some j0" and "j_ID job = i"
    and "handler_yields q job (\<lambda>r. r \<noteq> HOk)" and "j_Retry job" and "j_RetryCounter job < q_MaxAttempts q"
  shows "wp (handleRedisJob e q queue job i)
     (\<lambda>_ w'. \<exists>t0 t.
        ks w' = (ks w)(sprintf formatLocked [queue, i] \<mapsto> j0\<lparr>j_Status := statusActive\<rparr>,
                       sprintf formatPending [queue, i] \<mapsto> retried_job job (gate_at e job t0) t)) w"
proof (rule handleRedisJob_after_call [OF assms(1,2) redis_call_yields [OF assms(3)]], goal_cases)
  case (1 res err j w')
  then obtain r where "r \<noteq> HOk" "(res, err) = rpc_result r" "j = job" by auto
  then have "res = 1" "j = job" by (cases r; simp)+
  then have "wp (redis_retry e queue j i) (\<lambda>_ w'. \<exists>t0 t.
      ks w' = (ks w)(sprintf formatLocked [queue, i] \<mapsto> j0\<lparr>j_Status := statusActive\<rparr>,
                     sprintf formatPending [queue, i] \<mapsto> retried_job job (gate_at e job t0) t)) w'"
    using redis_retry_live [of queue job i w'] unfolding 1(2) by simp
  with \<open>res = 1\<close> \<open>j = job\<close> assms(4,5) show ?case by simp
qed

lemma handleRedisJob_permafail:
  assumes "ks w (sprintf formatLocked [queue, i]) = Some j0" and "j_ID job = i"
    and "handler_yields q job (\<lambda>r. r \<noteq> HOk)" and "\<not> (j_Retry job \<and> j_RetryCounter job < q_MaxAttempts q)"
  shows "wp (handleRedisJob e q queue job i)
     (\<lambda>_ w'. \<exists>r t. r \<noteq> HOk \<and>
        ks w' = (ks w)(sprintf formatLocked [queue, i] := None,
                       sprintf formatFailed [queue, i] \<mapsto> failed_job job (snd (rpc_result r)) t)) w"
proof (rule handleRedisJob_after_call [OF assms(1,2) redis_call_yields [OF assms(3)]], goal_cases)
  case (1 res err j w')
  then obtain r where r: "r \<noteq> HOk" "(res, err) = rpc_result r" "j = job" by auto
  then have "res = 1" "j = job" "err = snd (rpc_result r)" by (cases r; simp)+
  moreover have "wp (redis_fail e q queue job i (snd (rpc_result r))) (\<lambda>_ w'. \<exists>r t. r \<noteq> HOk \<and>
      ks w' = (ks w)(sprintf formatLocked [queue, i] := None,
                     sprintf formatFailed [queue, i] \<mapsto> failed_job job (snd (rpc_result r)) t)) w'"
    by (rule wp_mono [OF redis_fail_live]) (use r(1) in \<open>fastforce simp: 1(2)\<close>)
  ultimately show ?case using assms(4) by auto
qed

lemma handleRedisJob_unregistered:
  assumes "ks w (sprintf formatLocked [queue, i]) = Some j0" and "j_ID job = i"
    and "lookup_handler q (j_Name job) = None"
  shows "wp (handleRedisJob e q queue job i)
     (\<lambda>_ w'. \<exists>t. ks w' = (ks w)(sprintf formatLocked [queue, i] := None,
        sprintf formatFailed [queue, i] \<mapsto> failed_job (job\<lparr>j_Retry := False\<rparr>)
          (Some (''no handler registered for '' @ go_quote (e_uquote e) (j_Name job))) t)) w"
proof (rule handleRedisJob_after_call [OF assms(1,2), where P = "\<lambda>res err j. res = 1 \<and> j = job\<lparr>j_Retry := False\<rparr>
    \<and> err = Some (''no handler registered for '' @ go_quote (e_uquote e) (j_Name job))"], goal_cases)
  case (1 w)
  show ?case by (simp add: redis_call_def assms(3) wp_simps)
next
  case (2 res err j w')
  then show ?case by (auto intro!: wp_mono [OF redis_fail_live])
qed

end

end
