(* ===== verification/Redis_Scanner.thy ===== *)
theory Redis_Scanner
  imports Redis_Backend
begin

text \<open>
  The scanner of the redis backend (\<open>cursorScanRedisDb\<close> in \<open>api/redis.go\<close>): claiming a
  pending key, the retry gate, the page loop and the recursion at the end of a sweep. The lemmas
  show that a sweep loses no job whatever redis answers, what it does with a gated and with an
  unparseable job, when it panics, and how its call depth grows.
\<close>

section \<open>The scanner\<close>

text \<open>What one key of a scan page leads to: go on with the next key, return from the scanner, or
  panic (an index out of range).\<close>

datatype scan_flow = NextKey | LeaveScan | ScanPanic

definition reply_bytes :: "reply \<Rightarrow> bytes option" where
  "reply_bytes r = (case r of RBulk b \<Rightarrow> Some b | _ \<Rightarrow> None)"

definition reply_list :: "reply \<Rightarrow> reply list option" where
  "reply_list r = (case r of RArr rs \<Rightarrow> Some rs | _ \<Rightarrow> None)"

text \<open>The claim: rename pending to locked, stamp the lock, read the job, and check its gate.\<close>

definition run_claimed ::
  "'w env \<Rightarrow> 'w queue \<Rightarrow> string \<Rightarrow> string \<Rightarrow> ('w, scan_flow) state" where
  "run_claimed e q queue jobID = do {
     stamp \<leftarrow> now_utc e;
     _ \<leftarrow> e_Do e [''HSET'', sprintf formatLocked [queue, jobID], ''LockedAt'', stamp];
     r \<leftarrow> getRedisValue (Some e) queue jobID formatLocked;
     (case r of
        Inl _ \<Rightarrow> State_Monad.return LeaveScan
      | Inr cachedJob \<Rightarrow>
          (case parse_rfc3339 (j_RetryAfter cachedJob) of
             None \<Rightarrow> State_Monad.return LeaveScan
           | Some retryAfterTime \<Rightarrow> do {
               currentTime \<leftarrow> e_Now e;
               (if \<not> retryAfterTime < currentTime
                then do {
                  rerr \<leftarrow> setRedisKey (Some e) queue jobID formatLocked formatPending;
                  State_Monad.return (if rerr \<noteq> None then LeaveScan else NextKey) }
                else do {
                  handleRedisJob e q queue cachedJob jobID;
                  State_Monad.return NextKey }) })) }"

definition scan_key :: "'w env \<Rightarrow> 'w queue \<Rightarrow> reply \<Rightarrow> ('w, scan_flow) state" where
  "scan_key e q r =
     (case key_parts (case reply_bytes r of Some b \<Rightarrow> b | None \<Rightarrow> []) of
        None \<Rightarrow> State_Monad.return ScanPanic
      | Some (queue, jobID) \<Rightarrow> do {
          err \<leftarrow> setRedisKey (Some e) queue jobID formatPending formatLocked;
          (if err \<noteq> None then State_Monad.return NextKey else run_claimed e q queue jobID) })"

fun scan_keys :: "'w env \<Rightarrow> 'w queue \<Rightarrow> reply list \<Rightarrow> ('w, scan_flow) state" where
  "scan_keys e q [] = State_Monad.return NextKey"
| "scan_keys e q (r # rs) = do {
     fl \<leftarrow> scan_key e q r;
     (if fl = NextKey then scan_keys e q rs else State_Monad.return fl) }"

text \<open>One iteration of the scanner's loop from a cursor: the flow after its keys and the next
  cursor.\<close>

definition scan_iteration :: "'w env \<Rightarrow> 'w queue \<Rightarrow> int \<Rightarrow> ('w, scan_flow \<times> int) state" where
  "scan_iteration e q cursor = do {
     e_Sleep e (wrap64 (second * q_ScanInterval q));
     (reply, _) \<leftarrow> e_Do e [''SCAN'', itoa cursor, ''MATCH'', ''queues:*:pending*'', ''COUNT'', ''10''];
     (case reply_list reply of
        Some [cursorPart, dataPart] \<Rightarrow>
          (case reply_list dataPart of
             None \<Rightarrow> State_Monad.return (LeaveScan, cursor)
           | Some data \<Rightarrow> do {
               let nextCursor = fst (atoi (case reply_bytes cursorPart of Some b \<Rightarrow> b | None \<Rightarrow> []));
               fl \<leftarrow> scan_keys e q data;
               State_Monad.return (fl, nextCursor) })
      | _ \<Rightarrow> State_Monad.return (LeaveScan, cursor)) }"

text \<open>
  \<open>cursorScanRedisDb\<close> calls itself when a sweep ends (cursor 0) and goes on with its own loop
  when that call returns, always from cursor 0. The state of a scanning worker is therefore the
  number of active calls and the cursor of the innermost one; it ends at depth 0. \<open>scan_step\<close>
  is one loop iteration of the innermost call.
\<close>

datatype scanner = Scanning nat int | ScanEnded | ScanCrashed

definition scan_return :: "nat \<Rightarrow> scanner" where
  "scan_return depth = (if depth \<le> 1 then ScanEnded else Scanning (depth - 1) 0)"

definition scan_step :: "'w env \<Rightarrow> 'w queue \<Rightarrow> nat \<Rightarrow> int \<Rightarrow> ('w, scanner) state" where
  "scan_step e q depth cursor = do {
     sd \<leftarrow> State (\<lambda>w. (e_shutdown e w, w));
     (if sd then State_Monad.return (scan_return depth)
      else do {
        (fl, next) \<leftarrow> scan_iteration e q cursor;
        State_Monad.return
          (case fl of
             ScanPanic \<Rightarrow> ScanCrashed
           | LeaveScan \<Rightarrow> scan_return depth
           | NextKey \<Rightarrow> if next = 0 then Scanning (Suc depth) 0 else Scanning depth next) }) }"

fun scan_run :: "nat \<Rightarrow> 'w env \<Rightarrow> 'w queue \<Rightarrow> scanner \<Rightarrow> ('w, scanner) state" where
  "scan_run 0 e q s = State_Monad.return s"
| "scan_run (Suc n) e q s =
     (case s of
        Scanning depth cursor \<Rightarrow> do { s' \<leftarrow> scan_step e q depth cursor; scan_run n e q s' }
      | _ \<Rightarrow> State_Monad.return s)"

text \<open>A worker starts with one active call at cursor 0; \<open>n\<close> bounds the loop iterations.\<close>

definition cursorScanRedisDb :: "nat \<Rightarrow> 'w env \<Rightarrow> 'w queue \<Rightarrow> ('w, scanner) state" where
  "cursorScanRedisDb n e q = scan_run n e q (Scanning 1 0)"

section \<open>No sweep loses a job\<close>

text \<open>A store is well formed for \<open>G\<close> when every hash under a key of job \<open>i\<close> on channel
  \<open>queue\<close> is that job: it has the id \<open>i\<close> and the identity \<open>G queue i\<close>. A job is stored
  when one of its keys holds a hash.\<close>

definition clean_name :: "string \<Rightarrow> bool" where
  "clean_name s \<longleftrightarrow> CHR '':'' \<notin> set s"

definition jobs_ok ::
  "(string \<Rightarrow> string \<Rightarrow> string \<times> string \<times> bytes) \<Rightarrow> (string \<rightharpoonup> 'w job) \<Rightarrow> bool" where
  "jobs_ok G m \<longleftrightarrow> (\<forall>queue i k j. clean_name queue \<longrightarrow> clean_name i \<longrightarrow> k \<in> job_keys queue i
     \<longrightarrow> m k = Some j \<longrightarrow> j_ID j = i \<and> ident j = G queue i)"

definition stored :: "(string \<rightharpoonup> 'w job) \<Rightarrow> string \<Rightarrow> string \<Rightarrow> bool" where
  "stored m queue i \<longleftrightarrow> (\<exists>k \<in> job_keys queue i. m k \<noteq> None)"

definition no_loss ::
  "(string \<Rightarrow> string \<Rightarrow> string \<times> string \<times> bytes) \<Rightarrow> (string \<rightharpoonup> 'w job) \<Rightarrow> (string \<rightharpoonup> 'w job) \<Rightarrow> bool" where
  "no_loss G m m' \<longleftrightarrow> jobs_ok G m'
     \<and> (\<forall>queue i. clean_name queue \<longrightarrow> clean_name i \<longrightarrow> stored m queue i \<longrightarrow> stored m' queue i)"

lemma jobs_okD:
  "jobs_ok G m \<Longrightarrow> clean_name queue \<Longrightarrow> clean_name i \<Longrightarrow> k \<in> job_keys queue i \<Longrightarrow> m k = Some j
     \<Longrightarrow> j_ID j = i \<and> ident j = G queue i"
  unfolding jobs_ok_def by blast

lemma job_keys_parts:
  assumes "clean_name queue" and "clean_name i" and "k \<in> job_keys queue i"
  shows "key_parts k = Some (queue, i)"
  using assms key_parts_key [of i "''locked''" queue] key_parts_key [of i "''pending''" queue]
    key_parts_key [of i "''completed''" queue] key_parts_key [of i "''failed''" queue]
  by (auto simp: job_keys_def clean_name_def sprintf_keys last_split_on)

lemma key_parts_clean_name: "key_parts k = Some (queue, i) \<Longrightarrow> clean_name queue \<and> clean_name i"
  by (simp add: clean_name_def key_parts_clean)

lemma no_loss_refl: "jobs_ok G m \<Longrightarrow> no_loss G m m"
  by (simp add: no_loss_def)

lemma no_loss_trans: "no_loss G m m' \<Longrightarrow> no_loss G m' m'' \<Longrightarrow> no_loss G m m''"
  by (simp add: no_loss_def)

lemma conserves_no_loss:
  assumes "jobs_ok G m" and "conserves (job_keys queue i) (G queue i) m m'"
    and "clean_name queue" and "clean_name i" and "fst (G queue i) = i"
  shows "no_loss G m m'"
proof -
  have same: "k \<in> job_keys queue' i' \<Longrightarrow> clean_name queue' \<Longrightarrow> clean_name i' \<Longrightarrow> k \<in> job_keys queue i
      \<Longrightarrow> queue' = queue \<and> i' = i" for k queue' i'
    using job_keys_parts [of queue' i' k] job_keys_parts [of queue i k] assms(3,4) by simp
  have "jobs_ok G m'"
    unfolding jobs_ok_def
  proof (intro allI impI)
    fix queue' i' k j
    assume c: "clean_name queue'" "clean_name i'" "k \<in> job_keys queue' i'" and k: "m' k = Some j"
    show "j_ID j = i' \<and> ident j = G queue' i'"
    proof (cases "m k = Some j")
      case True
      then show ?thesis using assms(1) c by (auto simp: jobs_ok_def)
    next
      case False
      with k assms(2) have "k \<in> job_keys queue i" "ident j = G queue i"
        by (auto simp: conserves_def)
      with same [OF c(3,1,2)] assms(5) show ?thesis by (metis fst_conv ident_def)
    qed
  qed
  moreover have "stored m' queue' i'" if "clean_name queue'" "clean_name i'" "stored m queue' i'" for queue' i'
  proof (cases "queue' = queue \<and> i' = i")
    case True
    then show ?thesis using assms(2) by (auto simp: conserves_def stored_def)
  next
    case False
    with that same assms(2) show ?thesis
      unfolding stored_def conserves_def by metis
  qed
  ultimately show ?thesis by (simp add: no_loss_def)
qed

context redis_job
begin

text \<open>What a claimed job may meet: it stays locked with a new or the old lock time, it is put back, or
  it is handled.\<close>

lemma run_claimed_wp:
  assumes "ks w (sprintf formatLocked [queue, i]) = Some j"
    and stop: "\<And>fl s w'. ks w' = (ks w)(sprintf formatLocked [queue, i] \<mapsto> j\<lparr>j_LockedAt := s\<rparr>) \<Longrightarrow> Q fl w'"
    and returned: "\<And>fl s w'. ks w' = (ks w)(sprintf formatLocked [queue, i] := None,
        sprintf formatPending [queue, i] \<mapsto> j\<lparr>j_LockedAt := s\<rparr>) \<Longrightarrow> Q fl w'"
    and handled: "\<And>s w'. ks w' = (ks w)(sprintf formatLocked [queue, i] \<mapsto> j\<lparr>j_LockedAt := s\<rparr>) \<Longrightarrow>
        wp (handleRedisJob e q queue (j\<lparr>j_LockedAt := s\<rparr>) i) (\<lambda>_. Q NextKey) w'"
  shows "wp (run_claimed e q queue i) Q w"
  unfolding run_claimed_def wp_bind
proof (rule wp_mono [OF now_utc_ks], rule wp_mono [OF hset_LockedAt], rule wp_mono [OF getRedisValue_ks], goal_cases)
  case (1 stamp w1 rerr w2 r w3)
  have "ks w3 = (ks w)(sprintf formatLocked [queue, i] \<mapsto> j\<lparr>j_LockedAt := j_LockedAt j\<rparr>)
      \<or> ks w3 = (ks w)(sprintf formatLocked [queue, i] \<mapsto> j\<lparr>j_LockedAt := stamp\<rparr>)"
    using 1 assms(1) by (cases rerr) (auto split: if_splits)
  then obtain s where ks3: "ks w3 = (ks w)(sprintf formatLocked [queue, i] \<mapsto> j\<lparr>j_LockedAt := s\<rparr>)" by blast
  have "wp (e_Now e) (\<lambda>now. wp (if \<not> t < now
        then do { rerr \<leftarrow> setRedisKey (Some e) queue i formatLocked formatPending;
                  State_Monad.return (if rerr \<noteq> None then LeaveScan else NextKey) }
        else do { handleRedisJob e q queue job i; State_Monad.return NextKey }) Q) w3" if "r = Inr job" for job t
  proof (rule wp_mono [OF now_ks], goal_cases)
    case (1 now w4)
    then have ks4: "ks w4 = (ks w)(sprintf formatLocked [queue, i] \<mapsto> j\<lparr>j_LockedAt := s\<rparr>)" by (simp add: ks3)
    have job: "job = j\<lparr>j_LockedAt := s\<rparr>" using that ks3 \<open>ks w3 = ks w2 \<and> _\<close> by auto
    have "wp (setRedisKey (Some e) queue i formatLocked formatPending) (\<lambda>_ w'. \<forall>fl. Q fl w') w4"
      by (rule wp_mono [OF setRedisKey_ks]) (use ks4 stop returned in \<open>auto split: if_splits\<close>)
    then show ?case using handled [OF ks4] by (auto simp: job wp_simps elim: wp_mono)
  qed
  with stop [OF ks3] show ?case by (auto simp: wp_simps split: sum.split option.split)
qed

lemma run_claimed_conserves:
  assumes "ks w (sprintf formatLocked [queue, i]) = Some j0" and "j_ID j0 = i"
  shows "wp (run_claimed e q queue i) (\<lambda>_ w'. conserves (job_keys queue i) (ident j0) (ks w) (ks w')) w"
proof (rule run_claimed_wp [OF assms(1)], goal_cases)
  case (1 fl s w')
  then show ?case using conserves_self [of _ "job_keys queue i" "ks w", OF job_keys_mem(1) assms(1)]
    by (auto intro!: conserves_upd)
next
  case (2 fl s w')
  then show ?case using conserves_move [OF conserves_self [of _ "job_keys queue i" "ks w", OF job_keys_mem(1) assms(1)],
      of "sprintf formatLocked [queue, i]" "sprintf formatPending [queue, i]" "j0\<lparr>j_LockedAt := s\<rparr>"] by simp
next
  case (3 s w')
  then have c: "conserves (job_keys queue i) (ident j0) (ks w) (ks w')"
    using conserves_self [of _ "job_keys queue i" "ks w", OF job_keys_mem(1) assms(1)] by (auto intro!: conserves_upd)
  have "wp (handleRedisJob e q queue (j0\<lparr>j_LockedAt := s\<rparr>) i)
      (\<lambda>_ w''. conserves (job_keys queue i) (ident (j0\<lparr>j_LockedAt := s\<rparr>)) (ks w') (ks w'')) w'"
    by (rule handleRedisJob_conserves [of w' queue i "j0\<lparr>j_LockedAt := s\<rparr>"]) (use 3 assms(2) in auto)
  then show ?case by (rule wp_mono) (use conserves_trans [OF c] in simp)
qed

text \<open>A visit of the scanner leaves the store as it is or claims a job and goes on with it.\<close>

lemma scan_key_wp:
  assumes "\<And>fl w'. ks w' = ks w \<Longrightarrow> Q fl w'"
    and "\<And>queue i j w'. clean_name queue \<Longrightarrow> clean_name i \<Longrightarrow> ks w (sprintf formatPending [queue, i]) = Some j \<Longrightarrow>
      ks w' = (ks w)(sprintf formatPending [queue, i] := None, sprintf formatLocked [queue, i] \<mapsto> j) \<Longrightarrow>
      wp (run_claimed e q queue i) Q w'"
  shows "wp (scan_key e q r) Q w"
proof (cases "key_parts (case reply_bytes r of Some b \<Rightarrow> b | None \<Rightarrow> [])")
  case None
  then show ?thesis by (simp add: scan_key_def wp_simps assms(1))
next
  case (Some p)
  obtain queue i where p: "p = (queue, i)" by (cases p)
  have clean: "clean_name queue" "clean_name i" using key_parts_clean_name Some p by blast+
  show ?thesis
    unfolding scan_key_def Some p option.case prod.case wp_bind
  proof (rule wp_mono [OF setRedisKey_ks], simp_all, goal_cases)
    case (1 err w1)
    then show ?case using assms(2) [OF clean] assms(1) [of w1 NextKey] by (cases err) (auto simp: wp_simps)
  qed
qed

lemma scan_key_no_loss:
  assumes "jobs_ok G (ks w)"
  shows "wp (scan_key e q r) (\<lambda>_ w'. no_loss G (ks w) (ks w')) w"
proof (rule scan_key_wp, goal_cases)
  case (1 fl w')
  with assms show ?case by (simp add: no_loss_refl)
next
  case (2 queue i j w1)
  from jobs_okD [OF assms 2(1,2) job_keys_mem(2) 2(3)] have j: "j_ID j = i" "ident j = G queue i" by simp_all
  have "conserves (job_keys queue i) (ident j) (ks w) (ks w1)"
    unfolding 2(4) by (rule conserves_move [OF conserves_self]) (use 2(3) in auto)
  moreover have "wp (run_claimed e q queue i) (\<lambda>_ w'. conserves (job_keys queue i) (ident j) (ks w1) (ks w')) w1"
    by (rule run_claimed_conserves) (use j 2(4) in auto)
  ultimately have "wp (run_claimed e q queue i) (\<lambda>_ w'. conserves (job_keys queue i) (G queue i) (ks w) (ks w')) w1"
    unfolding j(2) by - (erule wp_mono, erule (1) conserves_trans)
  then show ?case
    by (rule wp_mono) (rule conserves_no_loss [OF assms _ 2(1,2)], assumption, use j in \<open>metis fst_conv ident_def\<close>)
qed

lemma scan_keys_no_loss:
  "jobs_ok G (ks w) \<Longrightarrow> wp (scan_keys e q rs) (\<lambda>_ w'. no_loss G (ks w) (ks w')) w"
proof (induction rs arbitrary: w)
  case Nil
  then show ?case by (simp add: wp_simps no_loss_refl)
next
  case (Cons r rs)
  show ?case
    unfolding scan_keys.simps wp_bind
  proof (rule wp_mono [OF scan_key_no_loss [OF Cons.prems]], goal_cases)
    case (1 fl w1)
    then have "jobs_ok G (ks w1)" by (simp add: no_loss_def)
    from Cons.IH [OF this] 1 show ?case
      by (auto simp: wp_simps elim!: wp_mono intro: no_loss_trans)
  qed
qed

lemma scan_step_no_loss:
  assumes "jobs_ok G (ks w)"
  shows "wp (scan_step e q depth cursor) (\<lambda>_ w'. no_loss G (ks w) (ks w')) w"
proof -
  have "wp (scan_iteration e q cursor) (\<lambda>_ w'. no_loss G (ks w) (ks w')) w"
    unfolding scan_iteration_def wp_bind
  proof (rule wp_mono [OF sleep_ks], rule wp_mono [OF scan_ks], goal_cases)
    case (1 u w1 rep w2)
    then have "jobs_ok G (ks w2)" and "ks w2 = ks w" using assms by auto
    with scan_keys_no_loss [of G w2] assms show ?case
      by (cases rep) (auto simp: wp_bind wp_return no_loss_refl Let_def split: option.split list.split)
  qed
  then show ?thesis
    by (auto simp: scan_step_def wp_def no_loss_refl assms split: prod.splits)
qed

text \<open>Any number of loop iterations of a scanning worker.\<close>

lemma scan_run_no_loss:
  "jobs_ok G (ks w) \<Longrightarrow> wp (scan_run n e q s) (\<lambda>_ w'. no_loss G (ks w) (ks w')) w"
proof (induction n arbitrary: w s)
  case 0
  then show ?case by (simp add: wp_simps no_loss_refl)
next
  case (Suc n)
  show ?case
  proof (cases s)
    case (Scanning depth cursor)
    show ?thesis
      unfolding Scanning scan_run.simps scanner.case wp_bind
    proof (rule wp_mono [OF scan_step_no_loss [OF Suc.prems]], goal_cases)
      case (1 s' w1)
      then have "jobs_ok G (ks w1)" by (simp add: no_loss_def)
      from Suc.IH [OF this] show ?case by (rule wp_mono) (use 1 no_loss_trans in blast)
    qed
  qed (use Suc.prems in \<open>simp_all add: wp_simps no_loss_refl\<close>)
qed

end

section \<open>What happens to one pending job\<close>

text \<open>The clock shows a time in \<open>P\<close> whenever it is read.\<close>

definition clock_shows :: "'w env \<Rightarrow> (time \<Rightarrow> bool) \<Rightarrow> bool" where
  "clock_shows e P \<longleftrightarrow> (\<forall>w. P (fst (run_state (e_Now e) w)))"

lemma clock_showsD: "clock_shows e P \<Longrightarrow> wp (e_Now e) (\<lambda>t w'. P t) w"
  by (auto simp: clock_shows_def wp_def split: prod.splits) (metis fst_conv)

context redis_job_live
begin

lemma getRedisValue_live:
  "wp (getRedisValue (Some e) queue i fmt)
     (\<lambda>r w'. ks w' = ks w \<and> r = Inr (job_or_zero (ks w (sprintf fmt [queue, i])))) w"
  unfolding getRedisValue_def
  by (simp add: wp_simps, intro wp_mono [OF wp_conj [OF hgetall hgetall_ok]]) (auto simp: wp_simps)

text \<open>The claim and the gate, with what follows them as a continuation.\<close>

lemma scan_key_claim:
  assumes "clean_name queue" and "clean_name i" and "ks w (sprintf formatPending [queue, i]) = Some j"
    and "\<And>s w'. ks w' = (ks w)(sprintf formatPending [queue, i] := None,
                           sprintf formatLocked [queue, i] \<mapsto> j\<lparr>j_LockedAt := s\<rparr>) \<Longrightarrow>
      wp (case parse_rfc3339 (j_RetryAfter j) of
             None \<Rightarrow> State_Monad.return LeaveScan
           | Some retryAfterTime \<Rightarrow> do {
               currentTime \<leftarrow> e_Now e;
               (if \<not> retryAfterTime < currentTime
                then do {
                  rerr \<leftarrow> setRedisKey (Some e) queue i formatLocked formatPending;
                  State_Monad.return (if rerr \<noteq> None then LeaveScan else NextKey) }
                else do {
                  handleRedisJob e q queue (j\<lparr>j_LockedAt := s\<rparr>) i;
                  State_Monad.return NextKey }) }) Q w'"
  shows "wp (scan_key e q (RBulk (sprintf formatPending [queue, i]))) Q w"
proof -
  have kp: "key_parts (sprintf formatPending [queue, i]) = Some (queue, i)"
    by (rule job_keys_parts [OF assms(1,2)]) simp
  show ?thesis
    unfolding scan_key_def reply_bytes_def reply.case option.case kp prod.case wp_bind
  proof (rule wp_mono [OF setRedisKey_live [OF _ _ assms(3)]], goal_cases)
    case (3 err w1)
    then have "wp (run_claimed e q queue i) Q w1"
      unfolding run_claimed_def wp_bind
    proof (intro wp_mono [OF now_utc_live], intro wp_mono [OF hset_LockedAt_live], intro wp_mono [OF getRedisValue_live], goal_cases)
      case (1 stamp w2 rerr w3 r w4)
      then have r: "r = Inr (j\<lparr>j_LockedAt := stamp\<rparr>)" and ks4: "ks w4 = (ks w)(sprintf formatPending [queue, i] := None,
          sprintf formatLocked [queue, i] \<mapsto> j\<lparr>j_LockedAt := stamp\<rparr>)"
        by (auto simp: fun_upd_twist)
      show ?case using assms(4) [OF ks4] by (simp add: r)
    qed
    with 3 show ?case by (simp only: wp_if simp_thms if_False)
  qed simp_all
qed

lemma scan_key_unparseable:
  assumes "clean_name queue" and "clean_name i" and "ks w (sprintf formatPending [queue, i]) = Some j"
    and "parse_rfc3339 (j_RetryAfter j) = None"
  shows "wp (scan_key e q (RBulk (sprintf formatPending [queue, i])))
     (\<lambda>fl w'. fl = LeaveScan \<and> (\<exists>s. ks w' = (ks w)(sprintf formatPending [queue, i] := None,
        sprintf formatLocked [queue, i] \<mapsto> j\<lparr>j_LockedAt := s\<rparr>))) w"
  by (rule scan_key_claim [OF assms(1-3)]) (auto simp: assms(4) wp_simps)

lemma scan_key_gated:
  assumes "clean_name queue" and "clean_name i" and "ks w (sprintf formatPending [queue, i]) = Some j"
    and "parse_rfc3339 (j_RetryAfter j) = Some t" and "clock_shows e (\<lambda>now. now \<le> t)"
  shows "wp (scan_key e q (RBulk (sprintf formatPending [queue, i])))
     (\<lambda>fl w'. fl = NextKey \<and> (\<exists>s. ks w' = (ks w)(sprintf formatLocked [queue, i] := None,
        sprintf formatPending [queue, i] \<mapsto> j\<lparr>j_LockedAt := s\<rparr>))) w"
proof (rule scan_key_claim [OF assms(1-3)], goal_cases)
  case (1 s w')
  show ?case
    unfolding assms(4) option.case wp_bind
  proof (rule wp_mono [OF wp_conj [OF now_ks clock_showsD [OF assms(5)]]], goal_cases)
    case (1 now w2)
    then have L: "ks w2 (sprintf formatLocked [queue, i]) = Some (j\<lparr>j_LockedAt := s\<rparr>)"
      using \<open>ks w' = _\<close> by simp
    have "wp (setRedisKey (Some e) queue i formatLocked formatPending)
       (\<lambda>err w'. err = None \<and> ks w' = (ks w)(sprintf formatLocked [queue, i] := None,
          sprintf formatPending [queue, i] \<mapsto> j\<lparr>j_LockedAt := s\<rparr>)) w2"
      by (rule wp_mono [OF setRedisKey_live [OF _ _ L]]) (use 1 \<open>ks w' = _\<close> in auto)
    with 1 show ?case by (auto simp: wp_simps elim!: wp_mono)
  qed
qed

text \<open>Past its gate the job is handled; the outcome is that of \<open>handleRedisJob\<close> on the claimed job.\<close>

lemma scan_key_ready:
  assumes "clean_name queue" and "clean_name i" and "ks w (sprintf formatPending [queue, i]) = Some j"
    and "parse_rfc3339 (j_RetryAfter j) = Some t" and "clock_shows e (\<lambda>now. t < now)"
    and "\<And>s w'. ks w' = (ks w)(sprintf formatPending [queue, i] := None,
                           sprintf formatLocked [queue, i] \<mapsto> j\<lparr>j_LockedAt := s\<rparr>) \<Longrightarrow>
      wp (handleRedisJob e q queue (j\<lparr>j_LockedAt := s\<rparr>) i) (\<lambda>_. Q) w'"
  shows "wp (scan_key e q (RBulk (sprintf formatPending [queue, i]))) (\<lambda>fl w'. fl = NextKey \<and> Q w') w"
proof (rule scan_key_claim [OF assms(1-3)], goal_cases)
  case (1 s w')
  show ?case
    unfolding assms(4) option.case wp_bind
  proof (rule wp_mono [OF wp_conj [OF now_ks clock_showsD [OF assms(5)]]], goal_cases)
    case (1 now w2)
    then have "wp (handleRedisJob e q queue (j\<lparr>j_LockedAt := s\<rparr>) i) (\<lambda>_. Q) w2"
      using assms(6) \<open>ks w' = _\<close> by simp
    with 1 show ?case by (auto simp: wp_simps)
  qed
qed

lemma scan_key_success:
  assumes "clean_name queue" and "clean_name i" and "ks w (sprintf formatPending [queue, i]) = Some j"
    and "parse_rfc3339 (j_RetryAfter j) = Some t" and "clock_shows e (\<lambda>now. t < now)"
    and "j_ID j = i" and "\<And>s. handler_yields q (j\<lparr>j_LockedAt := s\<rparr>) (\<lambda>r. r = HOk)"
  shows "wp (scan_key e q (RBulk (sprintf formatPending [queue, i])))
     (\<lambda>fl w'. fl = NextKey \<and> (\<exists>s t'. ks w' = (ks w)(sprintf formatPending [queue, i] := None,
        sprintf formatLocked [queue, i] := None,
        sprintf formatComplete [queue, i] \<mapsto> completed_job (j\<lparr>j_LockedAt := s\<rparr>) t'))) w"
proof (rule scan_key_ready [OF assms(1-5)], goal_cases)
  case (1 s w')
  show ?case
    by (rule wp_mono [OF handleRedisJob_success [of w' queue i "j\<lparr>j_LockedAt := s\<rparr>"]])
      (use 1 assms(6,7) in auto)
qed

lemma scan_key_retry:
  assumes "clean_name queue" and "clean_name i" and "ks w (sprintf formatPending [queue, i]) = Some j"
    and "parse_rfc3339 (j_RetryAfter j) = Some t" and "clock_shows e (\<lambda>now. t < now)"
    and "j_ID j = i" and "\<And>s. handler_yields q (j\<lparr>j_LockedAt := s\<rparr>) (\<lambda>r. r \<noteq> HOk)"
    and "j_Retry j" and "j_RetryCounter j < q_MaxAttempts q"
  shows "wp (scan_key e q (RBulk (sprintf formatPending [queue, i])))
     (\<lambda>fl w'. fl = NextKey \<and> (\<exists>s t0 t'. ks w' = (ks w)(
        sprintf formatLocked [queue, i] \<mapsto> j\<lparr>j_LockedAt := s, j_Status := statusActive\<rparr>,
        sprintf formatPending [queue, i] \<mapsto>
          retried_job (j\<lparr>j_LockedAt := s\<rparr>) (gate_at e j t0) t'))) w"
proof (rule scan_key_ready [OF assms(1-5)], goal_cases)
  case (1 s w')
  have gate: "gate_at e (j\<lparr>j_LockedAt := s\<rparr>) = gate_at e j" by (simp add: gate_at_def fun_eq_iff)
  have "wp (handleRedisJob e q queue (j\<lparr>j_LockedAt := s\<rparr>) i)
     (\<lambda>_ w''. \<exists>t0 t. ks w'' = (ks w')(sprintf formatLocked [queue, i] \<mapsto> j\<lparr>j_LockedAt := s, j_Status := statusActive\<rparr>,
        sprintf formatPending [queue, i] \<mapsto> retried_job (j\<lparr>j_LockedAt := s\<rparr>) (gate_at e j t0) t)) w'"
    using handleRedisJob_retry [of w' queue i "j\<lparr>j_LockedAt := s\<rparr>" "j\<lparr>j_LockedAt := s\<rparr>"] 1 assms(6-9)
    by (simp add: gate)
  then show ?case
    by (rule wp_mono) (auto simp: 1 fun_upd_twist)
qed

end

section \<open>Panics and the call depth\<close>

text \<open>The page's keys match \<open>queues:*:pending*\<close>, so they have two colons and indexing their
  parts is in range.\<close>

lemma scan_keys_no_panic:
  assumes "\<And>r. r \<in> set rs \<Longrightarrow> \<exists>x y. r = RBulk (''queues:'' @ x @ '':pending'' @ y)"
  shows "wp (scan_keys e q rs) (\<lambda>fl _. fl \<noteq> ScanPanic) w"
  using assms
proof (induction rs arbitrary: w)
  case Nil
  then show ?case by (simp add: wp_simps)
next
  case (Cons r rs)
  from Cons.prems obtain x y where r: "r = RBulk (''queues:'' @ x @ '':pending'' @ y)"
    by (meson list.set_intros(1))
  have kp: "key_parts (''queues:'' @ x @ '':pending'' @ y) \<noteq> None"
    by (simp add: key_parts_None)
  have rc: "wp (run_claimed e q queue i) (\<lambda>fl _. fl \<noteq> ScanPanic) w1" for queue i w1
    by (auto simp: run_claimed_def wp_def Let_def split: prod.splits sum.splits option.splits if_splits)
  from kp obtain queue i where kp': "key_parts (''queues:'' @ x @ '':pending'' @ y) = Some (queue, i)" by auto
  have "wp (scan_key e q r) (\<lambda>fl _. fl \<noteq> ScanPanic) w1" for w1
    unfolding r scan_key_def reply_bytes_def reply.case option.case kp' prod.case wp_bind
    by (rule wpI) (simp add: wp_if wp_return rc)
  then show ?case
    unfolding scan_keys.simps wp_bind
    by (rule wp_mono) (use Cons in \<open>auto simp: wp_simps\<close>)
qed

text \<open>A server with no pending key answers each \<open>SCAN\<close> with cursor 0 and an empty page, and as
  long as \<open>idle\<close> holds nothing changes that. Every loop iteration then adds an active call: the
  recursion never unwinds.\<close>

definition idle_server :: "'w env \<Rightarrow> ('w \<Rightarrow> bool) \<Rightarrow> bool" where
  "idle_server e idle \<longleftrightarrow> (\<forall>w. idle w \<longrightarrow> \<not> e_shutdown e w \<and> (\<forall>d. wp (e_Sleep e d) (\<lambda>_. idle) w) \<and>
     (\<forall>c. wp (e_Do e [''SCAN'', c, ''MATCH'', ''queues:*:pending*'', ''COUNT'', ''10''])
        (\<lambda>r w'. fst r = RArr [RBulk ''0'', RArr []] \<and> idle w') w))"

lemma scan_step_idle:
  assumes "idle_server e idle" and "idle w"
  shows "wp (scan_step e q depth cursor) (\<lambda>s w'. s = Scanning (Suc depth) 0 \<and> idle w') w"
proof -
  have "atoi (itoa 0) = (0, None)" by (rule atoi_itoa) (simp add: in_int64_def)
  moreover have "itoa 0 = ''0''" by code_simp
  ultimately have zero: "fst (atoi ''0'') = 0" by simp
  have it: "wp (scan_iteration e q cursor) (\<lambda>r w'. r = (NextKey, 0) \<and> idle w') w"
    unfolding scan_iteration_def wp_bind
  proof (rule wp_mono [where Q = "\<lambda>_. idle"], use assms in \<open>simp add: idle_server_def\<close>, goal_cases)
    case (1 u w1)
    then have "wp (e_Do e [''SCAN'', itoa cursor, ''MATCH'', ''queues:*:pending*'', ''COUNT'', ''10''])
        (\<lambda>r w'. fst r = RArr [RBulk ''0'', RArr []] \<and> idle w') w1"
      using assms(1) unfolding idle_server_def by blast
    then show ?case
      by (rule wp_mono) (auto simp: reply_list_def reply_bytes_def wp_simps zero)
  qed
  have "\<not> e_shutdown e w" using assms by (simp add: idle_server_def)
  then show ?thesis
    unfolding scan_step_def wp_bind
    by (simp add: wp_def [of "State _"] wp_bind) (rule wp_mono [OF it], simp add: wp_simps)
qed

lemma scan_run_idle:
  assumes "idle_server e idle"
  shows "idle w \<Longrightarrow> wp (scan_run n e q (Scanning depth 0)) (\<lambda>s w'. s = Scanning (depth + n) 0 \<and> idle w') w"
proof (induction n arbitrary: depth w)
  case 0
  then show ?case by (simp add: wp_simps)
next
  case (Suc n)
  show ?case
    unfolding scan_run.simps scanner.case wp_bind
    by (rule wp_mono [OF scan_step_idle [OF assms Suc.prems]]) (use Suc.IH [of _ "Suc depth"] in simp)
qed

text \<open>Once the shutdown flag is set every call returns at its next check, so a worker at call depth
  \<open>d\<close> ends after \<open>d\<close> checks and touches nothing more.\<close>

lemma scan_run_shutdown:
  "e_shutdown e w \<Longrightarrow> 1 \<le> d \<Longrightarrow> d \<le> n
     \<Longrightarrow> wp (scan_run n e q (Scanning d c)) (\<lambda>s w'. s = ScanEnded \<and> w' = w) w"
proof (induction n arbitrary: d c)
  case 0
  then show ?case by simp
next
  case (Suc n)
  have step: "wp (scan_step e q d c) (\<lambda>s w'. s = scan_return d \<and> w' = w) w"
    using Suc.prems(1) by (simp add: scan_step_def wp_def)
  show ?case
    unfolding scan_run.simps scanner.case wp_bind
  proof (rule wp_mono [OF step], goal_cases)
    case (1 s w')
    show ?case
    proof (cases "d = 1")
      case True
      then show ?thesis using 1 by (cases n) (simp_all add: scan_return_def wp_return)
    next
      case False
      then show ?thesis using 1 Suc.IH [OF Suc.prems(1), of "d - 1" 0] Suc.prems(2,3) by (simp add: scan_return_def)
    qed
  qed
qed

end
