(* ===== verification/Dispatching.thy ===== *)
theory Dispatching
  imports Redis_Scanner
begin

text \<open>
  Adding jobs and measuring the backlog (\<open>Dispatch\<close>, \<open>DispatchIn\<close> and \<open>Depth\<close> in
  \<open>api/queue.go\<close>). On the memory backend a dispatched job is handed to the channel at once
  (\<open>SentNow\<close>, the counter already incremented) or by a goroutine after a delay
  (\<open>SentLater\<close>, the counter incremented when it wakes up); what happens to it then is in
  \<open>Memory_System\<close>. The cursor loop of \<open>Depth\<close> takes fuel, the number of \<open>SCAN\<close> calls
  allowed per channel.
\<close>

section \<open>Dispatch\<close>

datatype dispatch_error = InvalidDispatchAt string | BackendError string | UnknownBackend

text \<open>What a call of \<open>Dispatch\<close> ends in: the id and the error it returns, or a panic.\<close>

datatype dispatch_result = Returns string "dispatch_error option" | Panics string

datatype 'w sent = NotSent | SentNow "'w job" | SentLater duration "'w job"

text \<open>The fields every dispatch sets first.\<close>

definition stamp_job :: "string \<Rightarrow> string \<Rightarrow> 'w job \<Rightarrow> 'w job" where
  "stamp_job i now job =
     job\<lparr>j_ID := i, j_ReservedAt := now,
         j_RetryAfter := (if j_DispatchAt job \<noteq> '''' then j_DispatchAt job else now),
         j_Status := ''pending''\<rparr>"

definition send_now ::
  "'w queue \<Rightarrow> 'w job \<Rightarrow> dispatch_result \<times> 'w queue \<times> 'w sent" where
  "send_now q job =
     (Returns (j_ID job) None, q\<lparr>q_pendingCount := q_pendingCount q + 1\<rparr>, SentNow job)"

definition dispatch_memory ::
  "'w env \<Rightarrow> 'w queue \<Rightarrow> 'w job \<Rightarrow> ('w, dispatch_result \<times> 'w queue \<times> 'w sent) state" where
  "dispatch_memory e q job0 =
     (let job = (if j_Queue job0 = '''' then job0\<lparr>j_Queue := q_QueueChannelDefault q\<rparr> else job0)
      in if j_DispatchAt job \<noteq> ''''
         then (case parse_rfc3339 (j_DispatchAt job) of
                 None \<Rightarrow> State_Monad.return
                   (Returns '''' (Some (InvalidDispatchAt (j_DispatchAt job))), q, NotSent)
               | Some at \<Rightarrow> do {
                   now \<leftarrow> e_Now e;
                   let delay = time_sub at now;
                   State_Monad.return
                     (if delay > 0 then (Returns (j_ID job) None, q, SentLater delay job)
                      else send_now q job) })
         else State_Monad.return (send_now q job))"

definition redis_channel :: "'w env \<Rightarrow> 'w queue \<Rightarrow> string \<Rightarrow> string" where
  "redis_channel e q name =
     (if name = '''' then q_QueueChannelDefault q
      else let channel = RedisKeyspaceFormater (e_ulow e) name
           in if channel \<in> set (q_QueueChannels q) then channel else q_QueueChannelDefault q)"

definition dispatch_redis ::
  "'w env \<Rightarrow> 'w queue \<Rightarrow> 'w job \<Rightarrow> ('w, dispatch_result \<times> 'w queue \<times> 'w sent) state" where
  "dispatch_redis e q job0 =
     (if \<not> q_Pool q then State_Monad.return (Panics nil_call, q, NotSent)
      else do {
        let job = job0\<lparr>j_Queue := redis_channel e q (j_Queue job0)\<rparr>;
        (_, err) \<leftarrow> e_Do e (''HSET'' # sprintf formatPending [j_Queue job, j_ID job] # e_AddFlat e job);
        State_Monad.return (Returns (j_ID job) (map_option BackendError err), q, NotSent) })"

definition Dispatch ::
  "'w env \<Rightarrow> 'w queue \<Rightarrow> 'w job \<Rightarrow> ('w, dispatch_result \<times> 'w queue \<times> 'w sent) state" where
  "Dispatch e q job0 = do {
     i \<leftarrow> e_UUID e;
     now \<leftarrow> now_utc e;
     let job = stamp_job i now job0;
     (if q_Backend q = ''memory'' then dispatch_memory e q job
      else if q_Backend q = ''redis'' then dispatch_redis e q job
      else State_Monad.return (Returns '''' (Some UnknownBackend), q, NotSent)) }"

definition DispatchIn ::
  "'w env \<Rightarrow> 'w queue \<Rightarrow> 'w job \<Rightarrow> duration \<Rightarrow> ('w, dispatch_result \<times> 'w queue \<times> 'w sent) state" where
  "DispatchIn e q job delay =
     (if delay > 0
      then do {
        now \<leftarrow> e_Now e;
        Dispatch e q (job\<lparr>j_DispatchAt := format_rfc3339 0 (now + delay)\<rparr>) }
      else Dispatch e q job)"

section \<open>Depth\<close>

datatype depth_error =
    PoolUnavailable
  | ConnectionUnavailable string
  | ScanFailed string string
  | ScanShape string
  | ScanCursor string string
  | ScanKeys string string
  | UnknownDepthBackend

text \<open>One \<open>SCAN\<close> reply of a channel: the next cursor and the number of keys.\<close>

definition depth_page :: "'w env \<Rightarrow> string \<Rightarrow> reply \<times> string option \<Rightarrow> depth_error + string \<times> int" where
  "depth_page e channel rep =
     (case e_Values e rep of
        Inl err \<Rightarrow> Inl (ScanFailed channel err)
      | Inr [c, ks] \<Rightarrow>
          (case e_String e c of
             Inl err \<Rightarrow> Inl (ScanCursor channel err)
           | Inr nextCursor \<Rightarrow>
               (case e_Strings e ks of
                  Inl err \<Rightarrow> Inl (ScanKeys channel err)
                | Inr keys \<Rightarrow> Inr (nextCursor, int (length keys))))
      | Inr _ \<Rightarrow> Inl (ScanShape channel))"

fun depth_channel ::
  "nat \<Rightarrow> 'w env \<Rightarrow> string \<Rightarrow> string \<Rightarrow> int \<Rightarrow> ('w, (depth_error + int) option) state" where
  "depth_channel 0 e channel cursor acc = State_Monad.return None"
| "depth_channel (Suc n) e channel cursor acc = do {
     rep \<leftarrow> e_Do e [''SCAN'', cursor, ''MATCH'', sprintf ''queues:%s:pending:*'' [channel], ''COUNT'', ''100''];
     (case depth_page e channel rep of
        Inl err \<Rightarrow> State_Monad.return (Some (Inl err))
      | Inr (nextCursor, m) \<Rightarrow>
          let acc' = wrap64 (acc + m)
          in if nextCursor = ''0'' then State_Monad.return (Some (Inr acc'))
             else depth_channel n e channel nextCursor acc') }"

fun depth_channels ::
  "nat \<Rightarrow> 'w env \<Rightarrow> string list \<Rightarrow> int \<Rightarrow> ('w, (depth_error + int) option) state" where
  "depth_channels n e [] acc = State_Monad.return (Some (Inr acc))"
| "depth_channels n e (c # cs) acc = do {
     r \<leftarrow> depth_channel n e c ''0'' acc;
     (case r of
        Some (Inr acc') \<Rightarrow> depth_channels n e cs acc'
      | _ \<Rightarrow> State_Monad.return r) }"

text \<open>The connection the pool hands out may carry an error, which \<open>conn.Err()\<close> reports.\<close>

definition Depth :: "nat \<Rightarrow> 'w env \<Rightarrow> 'w queue \<Rightarrow> ('w, (depth_error + int) option) state" where
  "Depth n e q =
     (if q_Backend q = ''memory'' then State_Monad.return (Some (Inr (sint (q_pendingCount q))))
      else if q_Backend q = ''redis'' then
        (if \<not> q_Pool q then State_Monad.return (Some (Inl PoolUnavailable))
         else do {
           cerr \<leftarrow> State (\<lambda>w. (e_connErr e w, w));
           (case cerr of
              Some err \<Rightarrow> State_Monad.return (Some (Inl (ConnectionUnavailable err)))
            | None \<Rightarrow> depth_channels n e (q_QueueChannels q) 0) })
      else State_Monad.return (Some (Inl UnknownDepthBackend)))"

section \<open>Where a dispatched job goes\<close>

lemma redis_channel_member:
  "q_QueueChannelDefault q \<in> set (q_QueueChannels q) \<Longrightarrow> redis_channel e q name \<in> set (q_QueueChannels q)"
  by (simp add: redis_channel_def Let_def)

text \<open>The memory backend sends at once exactly when the job is due, and only then counts it.\<close>

definition due_in :: "'w job \<Rightarrow> time \<Rightarrow> duration option" where
  "due_in job now =
     (if j_DispatchAt job = [] then Some 0 else map_option (\<lambda>at. time_sub at now) (parse_rfc3339 (j_DispatchAt job)))"

definition memory_job :: "'w queue \<Rightarrow> string \<Rightarrow> string \<Rightarrow> 'w job \<Rightarrow> 'w job" where
  "memory_job q i now job =
     (stamp_job i now job)\<lparr>j_Queue := (if j_Queue job = [] then q_QueueChannelDefault q else j_Queue job)\<rparr>"

definition memory_outcome ::
  "'w queue \<Rightarrow> 'w job \<Rightarrow> string \<Rightarrow> time \<Rightarrow> time \<Rightarrow> dispatch_result \<times> 'w queue \<times> 'w sent" where
  "memory_outcome q job i t0 t =
     (let j = memory_job q i (format_rfc3339 0 t0) job
      in case due_in job t of
           None \<Rightarrow> (Returns [] (Some (InvalidDispatchAt (j_DispatchAt job))), q, NotSent)
         | Some d \<Rightarrow>
             if d > 0 then (Returns i None, q, SentLater d j)
             else (Returns i None, q\<lparr>q_pendingCount := q_pendingCount q + 1\<rparr>, SentNow j))"

lemma Dispatch_memory:
  assumes "q_Backend q = ''memory''" and "clock_shows e P"
  shows "wp (Dispatch e q job) (\<lambda>r w'. \<exists>i t0 t. P t0 \<and> P t \<and> r = memory_outcome q job i t0 t) w"
proof -
  have mj: "(if j_Queue job = [] then (stamp_job i s job)\<lparr>j_Queue := q_QueueChannelDefault q\<rparr> else stamp_job i s job)
      = memory_job q i s job" for i s
    by (simp add: memory_job_def stamp_job_def)
  have fields: "j_DispatchAt (memory_job q i s job) = j_DispatchAt job" "j_ID (memory_job q i s job) = i"
    "j_Queue (stamp_job i s job) = j_Queue job" for i s
    by (simp_all add: memory_job_def stamp_job_def)
  show ?thesis
    unfolding Dispatch_def now_utc_def wp_bind wp_return Let_def
  proof (rule wpI, rule wp_mono [OF clock_showsD [OF assms(2)]], goal_cases)
    case (1 i w1 t0 w2)
    have "wp (dispatch_memory e q (stamp_job i (format_rfc3339 0 t0) job))
      (\<lambda>r w'. \<exists>t. P t \<and> r = memory_outcome q job i t0 t) w2"
    proof (cases "j_DispatchAt job = [] \<or> parse_rfc3339 (j_DispatchAt job) = None")
      case True
      then show ?thesis
        using 1 unfolding dispatch_memory_def fields mj Let_def wp_if wp_case_option wp_bind wp_return
        by (auto simp: memory_outcome_def due_in_def send_now_def fields Let_def split: option.split)
    next
      case False
      then obtain at where "j_DispatchAt job \<noteq> []" "parse_rfc3339 (j_DispatchAt job) = Some at" by auto
      then show ?thesis
        unfolding dispatch_memory_def fields mj Let_def wp_if wp_case_option wp_bind wp_return
        by simp (rule wp_mono [OF clock_showsD [OF assms(2)]],
          auto simp: memory_outcome_def due_in_def send_now_def fields Let_def)
    qed
    then show ?case
      by (simp add: assms(1)) (erule wp_mono, use 1 in blast)
  qed
qed

text \<open>\<open>DispatchIn\<close> writes its target in whole seconds, rounded down: the job is deferred by at
  most the delay and by more than the delay less one second.\<close>

lemma DispatchIn_memory:
  assumes "q_Backend q = ''memory''" and "clock_shows e (\<lambda>t. t = now)" and "0 < delay"
    and "in_int64 delay" and "rfc3339_ok 0 (now + delay)"
  shows "wp (DispatchIn e q job delay) (\<lambda>(res, q', s) w'. \<exists>i j d. res = Returns i None \<and>
     delay - second < d \<and> d \<le> delay \<and>
     (if 0 < d then q' = q \<and> s = SentLater d j
      else q' = q\<lparr>q_pendingCount := q_pendingCount q + 1\<rparr> \<and> s = SentNow j)) w"
proof -
  let ?job = "job\<lparr>j_DispatchAt := format_rfc3339 0 (now + delay)\<rparr>"
  define at where "at = (now + delay) div second * second"
  have "second > 0" by (simp add: second_def)
  then have at: "now + delay - second < at" "at \<le> now + delay"
    unfolding at_def using pos_mod_bound [of second "now + delay"] pos_mod_sign [of second "now + delay"]
    by (simp_all add: minus_mod_eq_div_mult [symmetric])
  have "second < 2 ^ 62" by (simp add: second_def)
  with at assms(3,4) have d: "time_sub at now = at - now"
    by (auto simp: time_sub_def in_int64_def)
  have due: "due_in ?job now = Some (at - now)"
    using parse_format_rfc3339 [OF assms(5)]
    by (simp add: due_in_def format_rfc3339_not_Nil at_def [symmetric] d)
  have "wp (Dispatch e q ?job) (\<lambda>r w'. \<exists>i. r = memory_outcome q ?job i now now) w'" for w'
    by (rule wp_mono [OF Dispatch_memory [OF assms(1,2)]]) auto
  then have disp: "wp (Dispatch e q ?job) (\<lambda>(res, q', s) w'. \<exists>i j d. res = Returns i None \<and>
     delay - second < d \<and> d \<le> delay \<and>
     (if 0 < d then q' = q \<and> s = SentLater d j
      else q' = q\<lparr>q_pendingCount := q_pendingCount q + 1\<rparr> \<and> s = SentNow j)) w'" for w'
  proof (rule wp_mono, goal_cases)
    case (1 r w')
    then obtain i where "r = memory_outcome q ?job i now now" by blast
    then show ?case
      unfolding memory_outcome_def Let_def due option.case
      by (cases "0 < at - now") (use at in \<open>auto intro!: exI [of _ "at - now"]\<close>)
  qed
  show ?thesis
    unfolding DispatchIn_def if_P [OF assms(3)] wp_bind
    by (rule wp_mono [OF clock_showsD [OF assms(2)]], simp only:) (rule disp)
qed

context redis_live
begin

text \<open>On the redis backend the job is stored as pending, on a channel of the queue.\<close>

lemma Dispatch_redis:
  assumes "q_Backend q = ''redis''" and "q_Pool q" and "wp (e_UUID e) (\<lambda>i w'. ks w' = ks w \<and> R i) w"
    and "clock_shows e P"
  shows "wp (Dispatch e q job) (\<lambda>r w'. \<exists>i t0. R i \<and> P t0 \<and> (
     let c = redis_channel e q (j_Queue job) in
     r = (Returns i None, q, NotSent) \<and>
     ks w' = (ks w)(sprintf formatPending [c, i] \<mapsto>
       redis_view ((stamp_job i (format_rfc3339 0 t0) job)\<lparr>j_Queue := c\<rparr>)))) w"
  unfolding Dispatch_def now_utc_def wp_bind wp_return
proof (rule wp_mono [OF assms(3)], rule wp_mono [OF wp_conj [OF now_ks clock_showsD [OF assms(4)]]], goal_cases)
  case (1 i w1 t0 w2)
  define now where "now = format_rfc3339 0 t0"
  have "j_Queue (stamp_job i now job) = j_Queue job" "j_ID (stamp_job i now job) = i"
    by (simp_all add: stamp_job_def)
  then show ?case
    using 1 assms(1,2) unfolding now_def [symmetric]
    by (simp add: dispatch_redis_def wp_bind Let_def)
      (rule wp_mono [OF hset_job_live], auto simp: wp_return now_def intro!: exI [of _ i] exI [of _ t0])
qed

end

lemma Dispatch_unknown:
  assumes "q_Backend q \<noteq> ''memory''" and "q_Backend q \<noteq> ''redis''"
  shows "wp (Dispatch e q job) (\<lambda>r _. r = (Returns [] (Some UnknownBackend), q, NotSent)) w"
  unfolding Dispatch_def wp_bind
  by (intro wpI) (simp add: assms wp_return)

text \<open>A job dispatched for now carries a gate that parses, to the second it was dispatched in.\<close>

lemma stamp_job_gate:
  assumes "j_DispatchAt job = []" and "rfc3339_ok 0 t"
  shows "parse_rfc3339 (j_RetryAfter (stamp_job i (format_rfc3339 0 t) job)) = Some (t div second * second)"
  using parse_format_rfc3339 [OF assms(2)] by (simp add: stamp_job_def assms(1))

section \<open>Depth terminates\<close>

definition depth_ends :: "'w env \<Rightarrow> (string \<Rightarrow> nat) \<Rightarrow> bool" where
  "depth_ends e rank \<longleftrightarrow> (\<forall>channel c w nxt m.
     depth_page e channel (fst (run_state (e_Do e
       [''SCAN'', c, ''MATCH'', sprintf ''queues:%s:pending:*'' [channel], ''COUNT'', ''100'']) w)) = Inr (nxt, m)
     \<longrightarrow> nxt = ''0'' \<or> rank nxt < rank c)"

lemma depth_channel_ends:
  assumes "depth_ends e rank"
  shows "rank c < n \<Longrightarrow> wp (depth_channel n e channel c acc) (\<lambda>r _. r \<noteq> None) w"
proof (induction n arbitrary: c acc w)
  case 0
  then show ?case by simp
next
  case (Suc n c acc w)
  show ?case
    unfolding depth_channel.simps wp_bind
  proof (rule wpI, goal_cases)
    case (1 rep w1)
    show ?case
    proof (cases "depth_page e channel rep")
      case (Inl err)
      then show ?thesis by (simp add: wp_return)
    next
      case (Inr p)
      obtain nxt m where p: "p = (nxt, m)" by (cases p)
      have "nxt = ''0'' \<or> rank nxt < rank c"
        using assms [unfolded depth_ends_def, rule_format, of channel c w nxt m] 1 Inr p by simp
      then have "nxt = ''0'' \<or> rank nxt < n" using Suc.prems by auto
      then show ?thesis
        using Suc.IH [of nxt "wrap64 (acc + m)" w1] by (auto simp: Inr p Let_def wp_return)
    qed
  qed
qed

lemma depth_channels_ends:
  assumes "depth_ends e rank" and "rank ''0'' < n"
  shows "wp (depth_channels n e cs acc) (\<lambda>r _. r \<noteq> None) w"
proof (induction cs arbitrary: acc w)
  case Nil
  then show ?case by (simp add: wp_return)
next
  case (Cons c cs)
  show ?case
    unfolding depth_channels.simps wp_bind
    by (rule wp_mono [OF depth_channel_ends [OF assms]])
      (use Cons.IH in \<open>auto simp: wp_return split: sum.split\<close>)
qed

lemma Depth_ends:
  assumes "depth_ends e rank" and "rank ''0'' < n"
  shows "wp (Depth n e q) (\<lambda>r _. r \<noteq> None) w"
  using depth_channels_ends [OF assms]
  by (auto simp: Depth_def wp_return wp_bind wp_def [of "State _"] split: option.split)

section \<open>From dispatch to completion\<close>

text \<open>The job a dispatch on redis stores: its gate is the second of the dispatch.\<close>

lemma stored_job_gate:
  assumes "sec * second < t0" and "t0 < (sec + 1) * second" and "rfc3339_ok 0 (sec * second)" and "j_DispatchAt job = []"
    and "j = redis_view ((stamp_job i (format_rfc3339 0 t0) job)\<lparr>j_Queue := c\<rparr>)"
  shows "parse_rfc3339 (j_RetryAfter j) = Some (sec * second)" and "j_ID j = i" and "j_Name j = j_Name job"
proof -
  have sec: "t0 div second = sec"
    by (rule div_second) (use assms(1,2) in \<open>simp_all add: distrib_right\<close>)
  then have "rfc3339_ok 0 t0" using assms(3) by (simp add: rfc3339_ok_def second_def)
  from stamp_job_gate [OF assms(4) this, of i] show "parse_rfc3339 (j_RetryAfter j) = Some (sec * second)"
    by (simp add: assms(5) redis_view_def sec)
qed (simp_all add: assms(5) redis_view_def stamp_job_def)

context redis_job_live
begin

lemma dispatched_job_completes:
  assumes "q_Backend q = ''redis''" and "q_Pool q" and "wp (e_UUID e) (\<lambda>i w'. ks w' = ks w \<and> clean_name i) w"
    and "clock_shows e (\<lambda>t. sec * second < t \<and> t < (sec + 1) * second)" and "rfc3339_ok 0 (sec * second)"
    and "j_DispatchAt job = []" and "clean_name c" and c: "c = redis_channel e q (j_Queue job)"
    and "\<And>j. j_Name j = j_Name job \<Longrightarrow> handler_yields q j (\<lambda>r. r = HOk)"
  shows "wp (Dispatch e q job) (\<lambda>(res, _) w1. \<exists>i. res = Returns i None \<and>
     wp (scan_key e q (RBulk (sprintf formatPending [c, i]))) (\<lambda>fl w'. fl = NextKey \<and>
       (\<exists>j t'. ks w' = (ks w)(sprintf formatPending [c, i] := None, sprintf formatLocked [c, i] := None,
                       sprintf formatComplete [c, i] \<mapsto> completed_job j t')
         \<and> j_ID j = i \<and> j_Name j = j_Name job)) w1) w"
proof (rule wp_mono [OF Dispatch_redis [OF assms(1-4)]], goal_cases)
  case (1 r w1)
  then obtain i t0 j where i: "clean_name i" and r: "r = (Returns i None, q, NotSent)"
    and t0: "sec * second < t0" "t0 < (sec + 1) * second"
    and j: "j = redis_view ((stamp_job i (format_rfc3339 0 t0) job)\<lparr>j_Queue := c\<rparr>)"
    and ks1: "ks w1 = (ks w)(sprintf formatPending [c, i] \<mapsto> j)"
    by (auto simp: Let_def c)
  note stored = stored_job_gate [OF t0 assms(5,6) j]
  have "clock_shows e (\<lambda>now. sec * second < now)" using assms(4) by (simp add: clock_shows_def)
  note scan = scan_key_success [OF assms(7) i _ stored(1) this stored(2), of w1]
  have "wp (scan_key e q (RBulk (sprintf formatPending [c, i]))) (\<lambda>fl w'. fl = NextKey \<and>
       (\<exists>j t'. ks w' = (ks w)(sprintf formatPending [c, i] := None, sprintf formatLocked [c, i] := None,
                       sprintf formatComplete [c, i] \<mapsto> completed_job j t')
         \<and> j_ID j = i \<and> j_Name j = j_Name job)) w1"
  proof (rule wp_mono [OF scan], goal_cases)
    case (3 fl w2)
    then obtain s t' where "fl = NextKey" and "ks w2 = (ks w)(sprintf formatPending [c, i] := None,
        sprintf formatLocked [c, i] := None, sprintf formatComplete [c, i] \<mapsto> completed_job (j\<lparr>j_LockedAt := s\<rparr>) t')"
      unfolding ks1 by (auto simp: fun_upd_twist)
    then show ?case
      using stored(2,3) by (intro conjI exI [of _ "j\<lparr>j_LockedAt := s\<rparr>"] exI [of _ t']) simp_all
  qed (use ks1 assms(9) stored(3) in simp_all)
  with r show ?case by simp
qed

end

end
