(* ===== verification/Bench_Registry.thy ===== *)
theory Bench_Registry
  imports Bench_Behaviour Dispatching
begin

text \<open>
  Seeding the queue with every benchmark job (\<open>SeedAll\<close>) and registering every handler
  (\<open>RegisterAll\<close>), from \<open>internal/bench/benchjobs/registry.go\<close>.

  The queue is used through its interface \<open>QueueDispatcher\<close>, an argument here: a dispatch
  returns an id and an error (by its text), or panics. \<open>queue_dispatcher\<close> is \<open>Dispatch\<close> of
  a queue behind that interface, with \<open>err_text\<close> the text of its errors; on the redis backend a
  dispatch leaves the queue itself as it is.
\<close>

section \<open>Definitions\<close>

type_synonym 'w dispatcher = "'w job \<Rightarrow> ('w, (string \<times> string option) go) state"

type_synonym 'w logger = "string \<Rightarrow> arg list \<Rightarrow> ('w, unit) state"

definition queue_dispatcher :: "(dispatch_error \<Rightarrow> string) \<Rightarrow> 'w env \<Rightarrow> 'w queue \<Rightarrow> 'w dispatcher" where
  "queue_dispatcher err_text e q job = do {
     (r, _) \<leftarrow> Dispatch e q job;
     State_Monad.return (case r of Returns i err \<Rightarrow> Ret (i, map_option err_text err) | Panics m \<Rightarrow> Panicked m) }"

record 'w seedEntry =
  s_name :: string
  s_ctor :: "('w, (string + 'w job option) go) state"

text \<open>A constructor's result as a job pointer and an error.\<close>

definition made :: "string + 'w job \<Rightarrow> ('w, (string + 'w job option) go) state" where
  "made r = State_Monad.return (Ret (map_sum id Some r))"

definition seed_entries :: "'w benv \<Rightarrow> 'w seedEntry list" where
  "seed_entries b =
     [\<lparr>s_name = ''HelloJob'', s_ctor = made (NewHelloJob b ''world'')\<rparr>,
      \<lparr>s_name = ''SumJob'', s_ctor = made (NewSumJob b 3 4)\<rparr>,
      \<lparr>s_name = ''CounterJob'', s_ctor = made (NewCounterJob b 10)\<rparr>,
      \<lparr>s_name = ''SleepJob'', s_ctor = made (NewSleepJob b (500 * millisecond))\<rparr>,
      \<lparr>s_name = ''BusyLoopJob'', s_ctor = made (NewBusyLoopJob b 1000000)\<rparr>,
      \<lparr>s_name = ''FanoutJob'', s_ctor = made (NewFanoutJob b 5 100)\<rparr>,
      \<lparr>s_name = ''AlwaysErrorJob'', s_ctor = made (NewAlwaysErrorJob b ''expected failure'')\<rparr>,
      \<lparr>s_name = ''PanicJob'', s_ctor = made (NewPanicJob b ''expected panic'')\<rparr>,
      \<lparr>s_name = ''NilDerefJob'', s_ctor = made (NewNilDerefJob b)\<rparr>,
      \<lparr>s_name = ''FailThenSucceedJob'', s_ctor = made (NewFailThenSucceedJob b ''flaky-1'' 2)\<rparr>,
      \<lparr>s_name = ''IntermittentJob'', s_ctor = made (NewIntermittentJob b ''flaky-2'' (Fin (1 / 2)))\<rparr>,
      \<lparr>s_name = ''ExhaustRetriesJob'', s_ctor = made (NewExhaustRetriesJob b ''flaky-3'')\<rparr>,
      \<lparr>s_name = ''LargePayloadJob'', s_ctor =
         State_Monad.return (case NewLargePayloadJob b 1048576 of Panicked m \<Rightarrow> Panicked m
           | Ret r \<Rightarrow> Ret (map_sum id Some r))\<rparr>,
      \<lparr>s_name = ''UnicodeJob'', s_ctor = made (NewUnicodeJob b)\<rparr>,
      \<lparr>s_name = ''NestedPayloadJob'', s_ctor = State_Monad.bind (NewNestedPayloadJob b) made\<rparr>]"

text \<open>The loop over the entries, at index \<open>i\<close> of \<open>len\<close>, with the errors so far.\<close>

fun seed_loop ::
  "'w benv \<Rightarrow> 'w dispatcher \<Rightarrow> 'w logger \<Rightarrow> int \<Rightarrow> int \<Rightarrow> 'w seedEntry list \<Rightarrow> string list
   \<Rightarrow> ('w, string list go) state" where
  "seed_loop b queue lg len i [] errs = State_Monad.return (Ret errs)"
| "seed_loop b queue lg len i (x # xs) errs = do {
     r \<leftarrow> s_ctor x;
     (case r of
        Panicked m \<Rightarrow> State_Monad.return (Panicked m)
      | Ret (Inl err) \<Rightarrow> do {
          lg (''jobs.SeedAll[%d] %s: constructor error: %v'' @ nl) [AInt i, AStr (s_name x), AStr err];
          seed_loop b queue lg len (i + 1) xs (errs @ [s_name x @ '': construct: '' @ err]) }
      | Ret (Inr None) \<Rightarrow>
          seed_loop b queue lg len (i + 1) xs (errs @ [s_name x @ '': constructor returned nil job''])
      | Ret (Inr (Some job)) \<Rightarrow> do {
          dr \<leftarrow> queue job;
          (case dr of
             Panicked m \<Rightarrow> State_Monad.return (Panicked m)
           | Ret (_, Some err) \<Rightarrow> do {
               lg (''jobs.SeedAll[%d] %s: dispatch error: %v'' @ nl) [AInt i, AStr (s_name x), AStr err];
               seed_loop b queue lg len (i + 1) xs (errs @ [s_name x @ '': dispatch: '' @ err]) }
           | Ret (jid, None) \<Rightarrow> do {
               lg (''jobs.SeedAll[%d] dispatched %s id=%s'' @ nl) [AInt i, AStr (s_name x), AStr jid];
               (if i < len - 1 then e_Sleep (b_env b) (100 * millisecond) else State_Monad.return ());
               seed_loop b queue lg len (i + 1) xs errs }) }) }"

text \<open>\<open>errors.Join\<close>: nil for no error, otherwise the texts on lines of their own.\<close>

fun join_lines :: "string list \<Rightarrow> string" where
  "join_lines [] = []"
| "join_lines [s] = s"
| "join_lines (s # ss) = s @ nl @ join_lines ss"

definition errors_Join :: "string list \<Rightarrow> string option" where
  "errors_Join errs = (if errs = [] then None else Some (join_lines errs))"

definition seedAll :: "'w benv \<Rightarrow> 'w dispatcher option \<Rightarrow> 'w logger \<Rightarrow> ('w, string option go) state" where
  "seedAll b queue lg =
     (case queue of
        None \<Rightarrow> State_Monad.return (Ret (Some ''jobs.SeedAll: queue dispatcher is nil''))
      | Some d \<Rightarrow> do {
          let entries = seed_entries b;
          let len = int (length entries);
          lg (''jobs.SeedAll: dispatching %d test jobs'' @ nl) [AInt len];
          r \<leftarrow> seed_loop b d lg len 0 entries [];
          (case r of
             Panicked m \<Rightarrow> State_Monad.return (Panicked m)
           | Ret errs \<Rightarrow> do {
               lg (''jobs.SeedAll: finished; %d error(s)'' @ nl) [AInt (int (length errs))];
               State_Monad.return (Ret (errors_Join errs)) }) })"

definition SeedAll :: "'w benv \<Rightarrow> 'w dispatcher option \<Rightarrow> ('w, string option go) state" where
  "SeedAll b queue = seedAll b queue (printf b)"

definition handler_table :: "'w benv \<Rightarrow> (string \<times> 'w handler) list" where
  "handler_table b =
     [(''hello-world'', HelloHandler b), (''simple-sum'', SumHandler b),
      (''simple-counter'', CounterHandler b), (''slow-sleep'', SleepHandler b),
      (''slow-busy-loop'', BusyLoopHandler b), (''slow-fanout'', FanoutHandler b),
      (''fail-error'', AlwaysErrorHandler b), (''fail-panic'', PanicHandler b),
      (''fail-nil-deref'', NilDerefHandler b), (''flaky-fail-then-succeed'', FailThenSucceedHandler b),
      (''flaky-intermittent'', IntermittentHandler b), (''flaky-exhaust-retries'', ExhaustRetriesHandler b),
      (''payload-large'', LargePayloadHandler b), (''payload-unicode'', UnicodeHandler b),
      (''payload-nested'', NestedHandler b)]"

fun register_loop ::
  "'w queue \<Rightarrow> (string \<times> 'w handler) list \<Rightarrow> (string \<times> reg_error) list \<Rightarrow> (string \<times> reg_error) list \<times> 'w queue" where
  "register_loop q [] errs = (errs, q)"
| "register_loop q ((name, fn) # hs) errs =
     (case RegisterHandler q name (Some fn) of
        (Some err, q1) \<Rightarrow> register_loop q1 hs (errs @ [(name, err)])
      | (None, q1) \<Rightarrow> register_loop q1 hs errs)"

definition RegisterAll :: "'w benv \<Rightarrow> 'w queue \<Rightarrow> (string \<times> reg_error) list \<times> 'w queue" where
  "RegisterAll b q = register_loop q (handler_table b) []"

section \<open>Registering everything\<close>

lemma RegisterHandler_cases:
  assumes "n \<noteq> []"
  obtains q1 where "RegisterHandler q n (Some fn)
      = (if lookup_handler q n = None then None else Some (AlreadyRegistered n), q1)"
    and "lookup_handler q1 = (if lookup_handler q n = None
      then (lookup_handler q)(n \<mapsto> \<lparr>plain = Some fn, ctx = None\<rparr>) else lookup_handler q)"
proof -
  have "fst (RegisterHandler q n (Some fn)) = (if lookup_handler q n = None then None else Some (AlreadyRegistered n))"
    using assms by (cases "q_handlers q") (auto simp: RegisterHandler_def lookup_handler_def Let_def)
  moreover have "lookup_handler (snd (RegisterHandler q n (Some fn))) = (if lookup_handler q n = None
      then (lookup_handler q)(n \<mapsto> \<lparr>plain = Some fn, ctx = None\<rparr>) else lookup_handler q)"
    using assms by (cases "q_handlers q") (auto simp: RegisterHandler_def lookup_handler_map Let_def)
  ultimately show ?thesis by (intro that [of "snd (RegisterHandler q n (Some fn))"]) (simp_all add: prod_eq_iff)
qed

lemma register_loop_effect:
  assumes "[] \<notin> fst ` set hs" and "distinct (map fst hs)"
  shows "fst (register_loop q hs errs) = errs @ map (\<lambda>(name, fn). (name, AlreadyRegistered name))
      (filter (\<lambda>(name, fn). lookup_handler q name \<noteq> None) hs)
    \<and> lookup_handler (snd (register_loop q hs errs)) =
      map_of (map (\<lambda>(name, fn). (name, \<lparr>plain = Some fn, ctx = None\<rparr>)) hs) ++ lookup_handler q"
  using assms
proof (induction hs arbitrary: q errs)
  case (Cons h hs)
  obtain n fn where h: "h = (n, fn)" by (cases h)
  obtain q1 where reg: "RegisterHandler q n (Some fn)
      = (if lookup_handler q n = None then None else Some (AlreadyRegistered n), q1)"
    and look: "lookup_handler q1 = (if lookup_handler q n = None
      then (lookup_handler q)(n \<mapsto> \<lparr>plain = Some fn, ctx = None\<rparr>) else lookup_handler q)"
    using RegisterHandler_cases [of n q fn] Cons.prems(1) by (auto simp: h)
  have filt: "filter (\<lambda>(name, fn). lookup_handler q1 name \<noteq> None) hs
      = filter (\<lambda>(name, fn). lookup_handler q name \<noteq> None) hs"
    using Cons.prems(2) by (intro filter_cong) (auto simp: look h image_iff)
  have "map_of (map (\<lambda>(name, fn). (name, \<lparr>plain = Some fn, ctx = None\<rparr>)) hs) n = None"
    using Cons.prems(2) by (force simp: h map_of_eq_None_iff)
  then have "map_of (map (\<lambda>(name, fn). (name, \<lparr>plain = Some fn, ctx = None\<rparr>)) hs) ++ lookup_handler q1
      = map_of (map (\<lambda>(name, fn). (name, \<lparr>plain = Some fn, ctx = None\<rparr>)) (h # hs)) ++ lookup_handler q"
    by (auto simp: look h map_add_def fun_eq_iff split: option.splits)
  with Cons.IH [of q1] Cons.prems filt show ?case by (simp add: h reg fun_upd_def)
qed simp

lemma handler_table_names: "[] \<notin> fst ` set (handler_table b)" "distinct (map fst (handler_table b))"
  by (simp_all add: handler_table_def)

lemma RegisterAll_effect:
  "fst (RegisterAll b q) = map (\<lambda>(name, fn). (name, AlreadyRegistered name))
     (filter (\<lambda>(name, fn). lookup_handler q name \<noteq> None) (handler_table b))"
  "lookup_handler (snd (RegisterAll b q)) =
     map_of (map (\<lambda>(name, fn). (name, \<lparr>plain = Some fn, ctx = None\<rparr>)) (handler_table b)) ++ lookup_handler q"
  using register_loop_effect [OF handler_table_names, of q b "[]"] by (simp_all add: RegisterAll_def)

lemma register_loop_frame:
  "(snd (register_loop q hs errs))\<lparr>q_handlers := h\<rparr> = q\<lparr>q_handlers := h\<rparr>"
proof (induction hs arbitrary: q errs)
  case (Cons x hs)
  obtain n fn where x: "x = (n, fn)" by (cases x)
  have "(snd (RegisterHandler q n (Some fn)))\<lparr>q_handlers := h\<rparr> = q\<lparr>q_handlers := h\<rparr>"
    by (auto simp: RegisterHandler_def Let_def)
  with Cons.IH show ?case by (auto simp: x split: prod.splits option.splits)
qed simp

lemma register_loop_wf: "wf_queue q \<Longrightarrow> wf_queue (snd (register_loop q hs errs))"
proof (induction hs arbitrary: q errs)
  case (Cons x hs)
  obtain n fn where x: "x = (n, fn)" by (cases x)
  from plain_reg.reg_wf_queue [OF Cons.prems, of n "Some fn"] Cons.IH show ?case
    by (auto simp: x split: prod.splits option.splits)
qed simp

lemma RegisterAll_fields:
  "q_Backend (snd (RegisterAll b q)) = q_Backend q" "q_Pool (snd (RegisterAll b q)) = q_Pool q"
  "q_WorkerCount (snd (RegisterAll b q)) = q_WorkerCount q" "q_MaxAttempts (snd (RegisterAll b q)) = q_MaxAttempts q"
  "q_QueueChannels (snd (RegisterAll b q)) = q_QueueChannels q"
  "q_QueueChannelDefault (snd (RegisterAll b q)) = q_QueueChannelDefault q"
  "q_LockTimeout (snd (RegisterAll b q)) = q_LockTimeout q" "q_ReaperInterval (snd (RegisterAll b q)) = q_ReaperInterval q"
proof -
  have eq: "(snd (RegisterAll b q))\<lparr>q_handlers := None\<rparr> = q\<lparr>q_handlers := None\<rparr>"
    unfolding RegisterAll_def by (rule register_loop_frame)
  show "q_Backend (snd (RegisterAll b q)) = q_Backend q" "q_Pool (snd (RegisterAll b q)) = q_Pool q"
    "q_WorkerCount (snd (RegisterAll b q)) = q_WorkerCount q" "q_MaxAttempts (snd (RegisterAll b q)) = q_MaxAttempts q"
    "q_QueueChannels (snd (RegisterAll b q)) = q_QueueChannels q"
    "q_QueueChannelDefault (snd (RegisterAll b q)) = q_QueueChannelDefault q"
    "q_LockTimeout (snd (RegisterAll b q)) = q_LockTimeout q" "q_ReaperInterval (snd (RegisterAll b q)) = q_ReaperInterval q"
    using arg_cong [OF eq, of q_Backend] arg_cong [OF eq, of q_Pool] arg_cong [OF eq, of q_WorkerCount]
      arg_cong [OF eq, of q_MaxAttempts] arg_cong [OF eq, of q_QueueChannels]
      arg_cong [OF eq, of q_QueueChannelDefault] arg_cong [OF eq, of q_LockTimeout] arg_cong [OF eq, of q_ReaperInterval]
    by simp_all
qed

section \<open>Every seed job is built\<close>

text \<open>The job names, in the order of the entries.\<close>

definition seed_names :: "string list" where
  "seed_names = [''hello-world'', ''simple-sum'', ''simple-counter'', ''slow-sleep'', ''slow-busy-loop'',
     ''slow-fanout'', ''fail-error'', ''fail-panic'', ''fail-nil-deref'', ''flaky-fail-then-succeed'',
     ''flaky-intermittent'', ''flaky-exhaust-retries'', ''payload-large'', ''payload-unicode'', ''payload-nested'']"

lemma seed_names_registered: "seed_names = map fst (handler_table b)"
  by (simp add: seed_names_def handler_table_def)

text \<open>The payload type each handler decodes; one handler ignores its payload.\<close>

definition payload_type_for :: "string \<rightharpoonup> jtype" where
  "payload_type_for = map_of
     [(''hello-world'', HelloPayload), (''simple-sum'', SumPayload), (''simple-counter'', CounterPayload),
      (''slow-sleep'', SleepPayload), (''slow-busy-loop'', BusyLoopPayload), (''slow-fanout'', FanoutPayload),
      (''fail-error'', AlwaysErrorPayload), (''fail-panic'', PanicPayload),
      (''flaky-fail-then-succeed'', FailThenSucceedPayload), (''flaky-intermittent'', IntermittentPayload),
      (''flaky-exhaust-retries'', ExhaustRetriesPayload), (''payload-large'', LargePayload),
      (''payload-unicode'', UnicodePayload), (''payload-nested'', NestedPayload)]"

lemma payload_types_for:
  "payload_type_for ''hello-world'' = Some HelloPayload" "payload_type_for ''simple-sum'' = Some SumPayload"
  "payload_type_for ''simple-counter'' = Some CounterPayload" "payload_type_for ''slow-sleep'' = Some SleepPayload"
  "payload_type_for ''slow-busy-loop'' = Some BusyLoopPayload" "payload_type_for ''slow-fanout'' = Some FanoutPayload"
  "payload_type_for ''fail-error'' = Some AlwaysErrorPayload" "payload_type_for ''fail-panic'' = Some PanicPayload"
  "payload_type_for ''flaky-fail-then-succeed'' = Some FailThenSucceedPayload"
  "payload_type_for ''flaky-intermittent'' = Some IntermittentPayload"
  "payload_type_for ''flaky-exhaust-retries'' = Some ExhaustRetriesPayload"
  "payload_type_for ''payload-large'' = Some LargePayload" "payload_type_for ''payload-unicode'' = Some UnicodePayload"
  "payload_type_for ''payload-nested'' = Some NestedPayload"
  by (simp_all add: payload_type_for_def)

text \<open>The payload of a job is the JSON of a value of that type, and decodes to it.\<close>

definition payload_typed :: "'w benv \<Rightarrow> jtype \<Rightarrow> 'w job \<Rightarrow> bool" where
  "payload_typed b T job \<longleftrightarrow> (\<exists>raw p. j_Payload job = Some raw \<and> typed (b_json b) T p
     \<and> unmarshal (b_json b) T raw = Inr p)"

text \<open>A constructor builds a job of that name, with the handler that \<open>RegisterAll\<close> registers for it and a
  payload of the type that handler decodes.\<close>

definition builds :: "'w benv \<Rightarrow> string \<Rightarrow> string + 'w job \<Rightarrow> bool" where
  "builds b n r \<longleftrightarrow> (\<exists>job. r = Inr job \<and> j_Name job = n \<and> j_Handler job = map_of (handler_table b) n
     \<and> j_Handler job \<noteq> None \<and> j_Queue job = ''job'' \<and> j_DispatchAt job = []
     \<and> (\<forall>T. payload_type_for n = Some T \<longrightarrow> payload_typed b T job))"

lemma new_job_builds:
  assumes "typed (b_json b) T p" and "T \<in> set payload_types" and "map_of (handler_table b) name = Some h"
    and "payload_type_for name = Some T"
  shows "builds b name (new_job b T p name h retry)"
proof -
  obtain raw where "new_job b T p name h retry = Inr (bench_job name h retry raw)" "unmarshal (b_json b) T raw = Inr p"
    using new_job_decodes [OF assms(1) payload_type_ok [OF assms(2)]] by metis
  then show ?thesis using assms(1) by (simp add: builds_def payload_typed_def assms(3,4))
qed

lemma in_payload_types:
  "CounterPayload \<in> set payload_types" "HelloPayload \<in> set payload_types" "SumPayload \<in> set payload_types"
  "BusyLoopPayload \<in> set payload_types" "FanoutPayload \<in> set payload_types" "SleepPayload \<in> set payload_types"
  "AlwaysErrorPayload \<in> set payload_types" "PanicPayload \<in> set payload_types"
  "ExhaustRetriesPayload \<in> set payload_types" "FailThenSucceedPayload \<in> set payload_types"
  "IntermittentPayload \<in> set payload_types" "LargePayload \<in> set payload_types"
  "UnicodePayload \<in> set payload_types" "NestedPayload \<in> set payload_types"
  by (simp_all add: payload_types_def)

lemma table_handlers:
  "map_of (handler_table b) ''hello-world'' = Some (HelloHandler b)"
  "map_of (handler_table b) ''simple-sum'' = Some (SumHandler b)"
  "map_of (handler_table b) ''simple-counter'' = Some (CounterHandler b)"
  "map_of (handler_table b) ''slow-sleep'' = Some (SleepHandler b)"
  "map_of (handler_table b) ''slow-busy-loop'' = Some (BusyLoopHandler b)"
  "map_of (handler_table b) ''slow-fanout'' = Some (FanoutHandler b)"
  "map_of (handler_table b) ''fail-error'' = Some (AlwaysErrorHandler b)"
  "map_of (handler_table b) ''fail-panic'' = Some (PanicHandler b)"
  "map_of (handler_table b) ''fail-nil-deref'' = Some (NilDerefHandler b)"
  "map_of (handler_table b) ''flaky-fail-then-succeed'' = Some (FailThenSucceedHandler b)"
  "map_of (handler_table b) ''flaky-intermittent'' = Some (IntermittentHandler b)"
  "map_of (handler_table b) ''flaky-exhaust-retries'' = Some (ExhaustRetriesHandler b)"
  "map_of (handler_table b) ''payload-large'' = Some (LargePayloadHandler b)"
  "map_of (handler_table b) ''payload-unicode'' = Some (UnicodeHandler b)"
  "map_of (handler_table b) ''payload-nested'' = Some (NestedHandler b)"
  by (simp_all add: handler_table_def)

lemma seed_literals_valid:
  "list_all valid_utf8 [''world'', ''expected failure'', ''expected panic'', ''flaky-1'', ''flaky-2'', ''flaky-3'',
     unicode_text, unicode_emoji, unicode_lang]"
  by code_simp

lemma valid_utf8_replicate: "byte_val c < 0x80 \<Longrightarrow> valid_utf8 (replicate n c)"
  by (induction n) (simp_all add: valid_utf8_ascii_Cons)

lemma typed_payloads:
  "typed L CounterPayload (VStruct [VInt n]) \<longleftrightarrow> in_int64 n"
  "typed L HelloPayload (VStruct [VStr s]) \<longleftrightarrow> valid_utf8 s"
  "typed L SumPayload (VStruct [VInt n, VInt m]) \<longleftrightarrow> in_int64 n \<and> in_int64 m"
  "typed L BusyLoopPayload (VStruct [VInt n]) \<longleftrightarrow> in_int64 n"
  "typed L FanoutPayload (VStruct [VInt n, VInt m]) \<longleftrightarrow> in_int64 n \<and> in_int64 m"
  "typed L SleepPayload (VStruct [VInt n]) \<longleftrightarrow> in_int64 n"
  "typed L AlwaysErrorPayload (VStruct [VStr s]) \<longleftrightarrow> valid_utf8 s"
  "typed L PanicPayload (VStruct [VStr s]) \<longleftrightarrow> valid_utf8 s"
  "typed L ExhaustRetriesPayload (VStruct [VStr s]) \<longleftrightarrow> valid_utf8 s"
  "typed L FailThenSucceedPayload (VStruct [VStr s, VInt n]) \<longleftrightarrow> valid_utf8 s \<and> in_int64 n"
  "typed L IntermittentPayload (VStruct [VStr s, VFloat x]) \<longleftrightarrow> valid_utf8 s \<and> float_ok L x"
  "typed L LargePayload (VStruct [VStr s]) \<longleftrightarrow> valid_utf8 s"
  "typed L UnicodePayload (VStruct [VStr s, VStr t, VStr u]) \<longleftrightarrow> valid_utf8 s \<and> valid_utf8 t \<and> valid_utf8 u"
  by (simp_all add: payload_defs)

lemma constructors_build:
  "in_int64 n \<Longrightarrow> builds b ''simple-counter'' (NewCounterJob b n)"
  "valid_utf8 s \<Longrightarrow> builds b ''hello-world'' (NewHelloJob b s)"
  "in_int64 x \<Longrightarrow> in_int64 y \<Longrightarrow> builds b ''simple-sum'' (NewSumJob b x y)"
  "in_int64 n \<Longrightarrow> builds b ''slow-busy-loop'' (NewBusyLoopJob b n)"
  "in_int64 n \<Longrightarrow> in_int64 ms \<Longrightarrow> builds b ''slow-fanout'' (NewFanoutJob b n ms)"
  "in_int64 (go_div d millisecond) \<Longrightarrow> builds b ''slow-sleep'' (NewSleepJob b d)"
  "valid_utf8 s \<Longrightarrow> builds b ''fail-error'' (NewAlwaysErrorJob b s)"
  "valid_utf8 s \<Longrightarrow> builds b ''fail-panic'' (NewPanicJob b s)"
  "i \<noteq> [] \<Longrightarrow> valid_utf8 i \<Longrightarrow> builds b ''flaky-exhaust-retries'' (NewExhaustRetriesJob b i)"
  "i \<noteq> [] \<Longrightarrow> valid_utf8 i \<Longrightarrow> in_int64 k \<Longrightarrow> builds b ''flaky-fail-then-succeed'' (NewFailThenSucceedJob b i k)"
  "builds b ''payload-unicode'' (NewUnicodeJob b)"
  unfolding NewCounterJob_def NewHelloJob_def NewSumJob_def NewBusyLoopJob_def NewFanoutJob_def NewSleepJob_def
    NewAlwaysErrorJob_def NewPanicJob_def NewExhaustRetriesJob_def NewFailThenSucceedJob_def NewUnicodeJob_def
  using seed_literals_valid
  by (simp_all only: if_False list.pred_inject)
    (intro new_job_builds typed_payloads [THEN iffD2] in_payload_types table_handlers payload_types_for; simp)+

lemma nil_deref_builds: "builds b ''fail-nil-deref'' (NewNilDerefJob b)"
  by (simp add: builds_def NewNilDerefJob_def table_handlers zero_job_def payload_type_for_def)

lemma intermittent_builds:
  assumes "i \<noteq> []" and "valid_utf8 i" and "float_ok (b_json b) p" and "fl_le (Fin 0) p" and "fl_le p (Fin 1)"
  shows "builds b ''flaky-intermittent'' (NewIntermittentJob b i p)"
proof -
  have "\<not> fl_less p (Fin 0)" "\<not> fl_less (Fin 1) p" using assms(4,5) by (auto simp: fl_le_def fl_less_def)
  with assms show ?thesis
    unfolding NewIntermittentJob_def
    by (simp only: if_False Let_def)
      (intro new_job_builds typed_payloads [THEN iffD2] in_payload_types table_handlers payload_types_for; simp)
qed

lemma large_builds:
  assumes "0 \<le> n"
  obtains r where "NewLargePayloadJob b n = Ret r" and "builds b ''payload-large'' r"
proof (rule that)
  show "NewLargePayloadJob b n = Ret (new_job b LargePayload (VStruct [VStr (replicate (nat n) (CHR ''A''))])
             ''payload-large'' (LargePayloadHandler b) False)"
    using assms by (simp add: NewLargePayloadJob_def)
  have "valid_utf8 (replicate (nat n) (CHR ''A''))" by (rule valid_utf8_replicate) code_simp
  then show "builds b ''payload-large'' (new_job b LargePayload (VStruct [VStr (replicate (nat n) (CHR ''A''))])
             ''payload-large'' (LargePayloadHandler b) False)"
    by (intro new_job_builds typed_payloads [THEN iffD2] in_payload_types table_handlers payload_types_for)
qed

lemma nested_builds:
  assumes "rfc3339_ok 0 now"
  shows "builds b ''payload-nested'' (new_job b NestedPayload (nested_value now) ''payload-nested'' (NestedHandler b) False)"
proof (intro new_job_builds in_payload_types table_handlers payload_types_for)
  have m: "int_map_loop = [(''1'', VStr ''val-1''), (''2'', VStr ''val-2''), (''3'', VStr ''val-3'')]" by code_simp
  have u: "list_all valid_utf8 [''bottom'', ''alpha'', ''beta'', ''gamma'', ''hits'', ''misses'', ''a'', ''b'', ''c'', ''d'',
      ''1'', ''2'', ''3'', ''val-1'', ''val-2'', ''val-3'']"
    by code_simp
  have "str_less ''hits'' ''misses'' \<and> str_less ''a'' ''b'' \<and> str_less ''c'' ''d'' \<and> str_less ''1'' ''2'' \<and> str_less ''2'' ''3''"
    by code_simp
  then show "typed (b_json b) NestedPayload (nested_value now)"
    using u assms by (simp add: nested_value_def payload_defs m in_int64_def)
qed

text \<open>So every entry of the seed table builds its job, when the clock shows a year that RFC 3339 can
  write.\<close>

definition entry_builds :: "'w benv \<Rightarrow> string \<Rightarrow> 'w seedEntry \<Rightarrow> bool" where
  "entry_builds b n x \<longleftrightarrow>
     (\<forall>w. wp (s_ctor x) (\<lambda>r _. \<exists>job. r = Ret (Inr (Some job)) \<and> builds b n (Inr job)) w)"

lemma entry_builds_made: "builds b n r \<Longrightarrow> entry_builds b n \<lparr>s_name = x, s_ctor = made r\<rparr>"
  by (auto simp: entry_builds_def builds_def made_def wp_return)

lemma entry_builds_large: "entry_builds b ''payload-large'' \<lparr>s_name = x, s_ctor =
     State_Monad.return (case NewLargePayloadJob b 1048576 of Panicked m \<Rightarrow> Panicked m
       | Ret r \<Rightarrow> Ret (map_sum id Some r))\<rparr>"
  by (rule large_builds [of 1048576 b]) (auto simp: entry_builds_def builds_def wp_return)

lemma entry_builds_nested:
  assumes "clock_shows (b_env b) (rfc3339_ok 0)"
  shows "entry_builds b ''payload-nested'' \<lparr>s_name = x, s_ctor = State_Monad.bind (NewNestedPayloadJob b) made\<rparr>"
  unfolding entry_builds_def seedEntry.simps NewNestedPayloadJob_def wp_bind
proof (rule allI, rule wp_mono [OF clock_showsD [OF assms]], goal_cases)
  case (1 w t w')
  with nested_builds [of t b] show ?case by (auto simp: builds_def made_def wp_return)
qed

lemma seed_values_ok:
  "fl_le (Fin 0) (Fin (1 / 2))" "fl_le (Fin (1 / 2)) (Fin 1)" "in_int64 (go_div (500 * millisecond) millisecond)"
  by (simp_all add: fl_le_def fl_less_def go_div_def millisecond_def in_int64_def)

lemma seed_entries_build:
  assumes "float_ok (b_json b) (Fin (1 / 2))" and "clock_shows (b_env b) (rfc3339_ok 0)"
  shows "list_all2 (entry_builds b) seed_names (seed_entries b)"
  unfolding seed_names_def seed_entries_def
  using seed_literals_valid assms(1) seed_values_ok
  by (simp only: list_all2_Cons list_all2_Nil list.pred_inject)
    (intro conjI TrueI entry_builds_large entry_builds_nested [OF assms(2)] entry_builds_made constructors_build
      intermittent_builds nil_deref_builds; simp add: in_int64_def)

section \<open>Seeding\<close>

text \<open>
  What seeding needs of a queue: \<open>sent\<close> maps the ids of stored jobs to job names; a dispatch
  of a job for channel \<open>job\<close> stores it under a new id or returns an error and stores nothing; printing, sleeping and
  reading the clock store nothing. \<open>good\<close> is an invariant of the worlds that occur.
\<close>

locale job_store =
  fixes b :: "'w benv" and d :: "'w dispatcher" and sent :: "'w \<Rightarrow> string \<rightharpoonup> string" and good :: "'w \<Rightarrow> bool"
  assumes dispatches: "good w \<Longrightarrow> j_Queue job = ''job'' \<Longrightarrow> wp (d job) (\<lambda>r w'. good w' \<and> (\<exists>i err. r = Ret (i, err) \<and>
      (if err = None then sent w i = None \<and> sent w' = (sent w)(i \<mapsto> j_Name job) else sent w' = sent w))) w"
    and put_quiet: "good w \<Longrightarrow> good (b_put b s w) \<and> sent (b_put b s w) = sent w"
    and sleep_quiet: "good w \<Longrightarrow> wp (e_Sleep (b_env b) t) (\<lambda>_ w'. good w' \<and> sent w' = sent w) w"
    and now_quiet: "good w \<Longrightarrow> wp (e_Now (b_env b)) (\<lambda>t w'. good w' \<and> sent w' = sent w \<and> rfc3339_ok 0 t) w"

text \<open>The jobs a run stores, with their ids, and the errors it reports.\<close>

fun stored :: "string list \<Rightarrow> (string \<times> string option) list \<Rightarrow> (string \<times> string) list" where
  "stored (n # ns) ((i, err) # rs) = (if err = None then [(i, n)] else []) @ stored ns rs"
| "stored _ _ = []"

fun reported :: "'w seedEntry list \<Rightarrow> (string \<times> string option) list \<Rightarrow> string list" where
  "reported (x # xs) ((i, err) # rs) =
     (case err of None \<Rightarrow> [] | Some m \<Rightarrow> [s_name x @ '': dispatch: '' @ m]) @ reported xs rs"
| "reported _ _ = []"

lemma stored_reported:
  "length ns = length rs \<Longrightarrow> length xs = length rs \<Longrightarrow> length (stored ns rs) + length (reported xs rs) = length rs"
proof (induction rs arbitrary: ns xs)
  case (Cons r rs)
  then show ?case by (cases ns; cases xs; cases r) (auto split: option.split)
qed simp

lemma errors_Join_None [simp]: "errors_Join l = None \<longleftrightarrow> l = []"
  by (simp add: errors_Join_def)

definition adds :: "(string \<rightharpoonup> string) \<Rightarrow> (string \<times> string) list \<Rightarrow> (string \<rightharpoonup> string) \<Rightarrow> bool" where
  "adds m kvs m' \<longleftrightarrow> m' = m ++ map_of kvs \<and> distinct (map fst kvs) \<and> dom m \<inter> fst ` set kvs = {}"

lemma adds_Nil [simp]: "adds m [] m' \<longleftrightarrow> m' = m"
  by (auto simp: adds_def)

lemma adds_Cons:
  assumes "m i = None" and "adds (m(i \<mapsto> n)) kvs m'"
  shows "adds m ((i, n) # kvs) m'"
proof -
  have "i \<notin> fst ` set kvs" using assms(2) by (auto simp: adds_def)
  then have "map_of kvs i = None" by (simp add: map_of_eq_None_iff)
  then have "m(i \<mapsto> n) ++ map_of kvs = m ++ map_of ((i, n) # kvs)"
    by (auto simp: map_add_def fun_eq_iff split: option.splits)
  with assms \<open>i \<notin> fst ` set kvs\<close> show ?thesis by (auto simp: adds_def)
qed

context job_store
begin

lemma printf_quiet: "good w \<Longrightarrow> wp (printf b fmt args) (\<lambda>_ w'. good w' \<and> sent w' = sent w) w"
  using put_quiet by (simp add: wp_def printf_def modify_def split: prod.splits)

text \<open>A constructor that builds a job of a name and stores nothing.\<close>

definition makes :: "string \<Rightarrow> 'w seedEntry \<Rightarrow> bool" where
  "makes n x \<longleftrightarrow> (\<forall>w. good w \<longrightarrow> wp (s_ctor x) (\<lambda>r w'. good w' \<and> sent w' = sent w
     \<and> (\<exists>job. r = Ret (Inr (Some job)) \<and> j_Name job = n \<and> j_Queue job = ''job'')) w)"

definition outcome ::
  "string list \<Rightarrow> 'w seedEntry list \<Rightarrow> string list \<Rightarrow> (string \<rightharpoonup> string) \<Rightarrow> string list go \<Rightarrow> 'w \<Rightarrow> bool" where
  "outcome ns xs errs m r w \<longleftrightarrow> good w \<and> (\<exists>rs. length rs = length xs
     \<and> r = Ret (errs @ reported xs rs) \<and> adds m (stored ns rs) (sent w))"

lemma outcome_failed:
  "outcome ns xs (errs @ [s_name x @ '': dispatch: '' @ err]) m r w \<Longrightarrow> outcome (n # ns) (x # xs) errs m r w"
  unfolding outcome_def by (elim conjE exE, intro conjI, assumption, rule_tac x = "([], Some err) # rs" in exI) simp

lemma outcome_stored:
  "m i = None \<Longrightarrow> outcome ns xs errs (m(i \<mapsto> n)) r w \<Longrightarrow> outcome (n # ns) (x # xs) errs m r w"
  unfolding outcome_def
  by (elim conjE exE, intro conjI, assumption, rule_tac x = "(i, None) # rs" in exI) (simp add: adds_Cons)

lemma seed_loop_outcome:
  assumes "list_all2 makes ns xs" and "good w"
  shows "wp (seed_loop b d (printf b) len i xs errs) (outcome ns xs errs (sent w)) w"
  using assms
proof (induction ns xs arbitrary: w i errs rule: list_all2_induct)
  case Nil
  then show ?case by (simp add: wp_return outcome_def)
next
  case (Cons n ns x xs)
  have cont: "wp (seed_loop b d (printf b) len (i + 1) xs errs') (outcome ns xs errs' m) w'"
    if "good w' \<and> sent w' = m" for w' m errs'
    using Cons.IH that by auto
  have sleep: "wp (if c then e_Sleep (b_env b) t else State_Monad.return ()) (\<lambda>_ w'. good w' \<and> sent w' = m) w'"
    if "good w' \<and> sent w' = m" for c t w' m
    using that sleep_quiet [of w' t] by (auto simp: wp_return)
  show ?case
    unfolding seed_loop.simps wp_bind
  proof (rule wp_mono [OF Cons.hyps(1) [unfolded makes_def, rule_format, OF Cons.prems]], elim conjE exE, goal_cases)
    case (1 r w1 job)
    show ?case
      unfolding 1 go.case sum.case option.case wp_bind
    proof (rule wp_mono [OF dispatches [OF 1(1) \<open>j_Queue job = ''job''\<close>]], elim conjE exE, goal_cases)
      case (1 dr w2 jid err)
      then show ?case
      proof (cases err)
        case None
        with 1 \<open>sent w1 = sent w\<close> \<open>j_Name job = n\<close>
        have w2: "dr = Ret (jid, None)" "good w2" "sent w jid = None" "sent w2 = (sent w)(jid \<mapsto> n)" by simp_all
        show ?thesis
          unfolding w2(1) go.case prod.case option.case wp_bind
          by (rule wp_mono [OF printf_quiet [OF w2(2)]], rule wp_mono [OF sleep], assumption,
              rule wp_mono [OF cont], assumption, rule outcome_stored [of _ jid]) (simp_all add: w2)
      next
        case (Some m)
        with 1 \<open>sent w1 = sent w\<close> have w2: "dr = Ret (jid, Some m)" "good w2" "sent w2 = sent w" by simp_all
        show ?thesis
          unfolding w2(1) go.case prod.case option.case wp_bind
          by (rule wp_mono [OF printf_quiet [OF w2(2)]], rule wp_mono [OF cont], assumption,
              rule outcome_failed [of _ _ _ _ m]) (simp_all add: w2)
      qed
    qed
  qed
qed

lemma makes_made:
  assumes "builds b n r"
  shows "makes n \<lparr>s_name = x, s_ctor = made r\<rparr>"
  using assms by (auto simp: makes_def builds_def made_def wp_return)

lemma makes_large: "makes ''payload-large'' \<lparr>s_name = x, s_ctor =
     State_Monad.return (case NewLargePayloadJob b 1048576 of Panicked m \<Rightarrow> Panicked m
       | Ret r \<Rightarrow> Ret (map_sum id Some r))\<rparr>"
  by (rule large_builds [of 1048576 b]) (auto simp: makes_def builds_def wp_return)

lemma makes_nested: "makes ''payload-nested'' \<lparr>s_name = x, s_ctor = State_Monad.bind (NewNestedPayloadJob b) made\<rparr>"
  unfolding makes_def seedEntry.simps NewNestedPayloadJob_def wp_bind
proof (intro allI impI, rule wp_mono [OF now_quiet], assumption, goal_cases)
  case (1 w t w')
  with nested_builds [of t b] show ?case by (auto simp: builds_def made_def wp_return)
qed

lemma makes_seed_entries:
  assumes "float_ok (b_json b) (Fin (1 / 2))"
  shows "list_all2 makes seed_names (seed_entries b)"
  unfolding seed_names_def seed_entries_def
  using seed_literals_valid assms seed_values_ok
  by (simp only: list_all2_Cons list_all2_Nil list.pred_inject)
    (intro conjI TrueI makes_large makes_nested makes_made constructors_build intermittent_builds nil_deref_builds;
      simp add: in_int64_def)

text \<open>The whole of \<open>SeedAll\<close>: every job is stored under a new id or its error is reported.\<close>

lemma SeedAll_outcome:
  assumes "float_ok (b_json b) (Fin (1 / 2))" and "good w"
  shows "wp (SeedAll b (Some d)) (\<lambda>r w'. \<exists>rs. length rs = 15 \<and> r = Ret (errors_Join (reported (seed_entries b) rs))
     \<and> adds (sent w) (stored seed_names rs) (sent w')) w"
  unfolding SeedAll_def seedAll_def option.case wp_bind Let_def
proof (rule wp_mono [OF printf_quiet [OF assms(2)]], goal_cases)
  case (1 u w1)
  have "length (seed_entries b) = 15" by (simp add: seed_entries_def)
  show ?case
  proof (rule wp_mono [OF seed_loop_outcome [OF makes_seed_entries [OF assms(1)]]], goal_cases)
    case (2 r w2)
    then obtain rs where rs: "good w2" "length rs = 15" "r = Ret (reported (seed_entries b) rs)"
      "adds (sent w) (stored seed_names rs) (sent w2)"
      using 1 \<open>length (seed_entries b) = 15\<close> by (auto simp: outcome_def)
    show ?case
      unfolding rs(3) go.case wp_bind wp_return
      by (rule wp_mono [OF printf_quiet [OF rs(1)]]) (use rs in auto)
  qed (use 1 in simp)
qed

end

section \<open>Seeding returns\<close>

text \<open>Without a panicking dispatcher nothing in \<open>SeedAll\<close> panics.\<close>

definition returns :: "('w, 'a go) state \<Rightarrow> bool" where
  "returns m \<longleftrightarrow> (\<forall>w. wp m (\<lambda>r _. \<exists>x. r = Ret x) w)"

lemma returns_return [simp]: "returns (State_Monad.return x) \<longleftrightarrow> (\<exists>y. x = Ret y)"
  by (auto simp: returns_def wp_return)

lemma returns_bind:
  "(\<And>x. returns (k x)) \<Longrightarrow> returns (State_Monad.bind m k)"
  unfolding returns_def wp_bind by (intro allI) (simp add: wp_def [of m] split: prod.splits)

lemma returns_seq:
  fixes m :: "('w, unit) state"
  shows "(\<And>x. returns (k x)) \<Longrightarrow> returns (State_Monad.bind m k)"
  by (rule returns_bind)

lemma returns_bind_go:
  assumes "returns m" and "\<And>x. returns (k (Ret x))"
  shows "returns (State_Monad.bind m k)"
  unfolding returns_def wp_bind
  by (intro allI, rule wp_mono [OF assms(1) [unfolded returns_def, rule_format]]) (use assms(2) in \<open>auto simp: returns_def\<close>)

lemma seed_loop_returns:
  assumes "\<And>x. x \<in> set xs \<Longrightarrow> returns (s_ctor x)" and "\<And>job. returns (d job)"
  shows "returns (seed_loop b d lg len i xs errs)"
  using assms(1)
proof (induction xs arbitrary: i errs)
  case (Cons x xs)
  then have x: "returns (s_ctor x)" and IH: "returns (seed_loop b d lg len i xs errs)" for i errs by simp_all
  show ?case
    unfolding seed_loop.simps
    by (rule returns_bind_go [OF x])
      (auto split: sum.split option.split intro!: returns_bind_go [OF assms(2)] returns_seq IH)
qed simp

lemma seed_entries_return: "x \<in> set (seed_entries b) \<Longrightarrow> returns (s_ctor x)"
  by (auto simp: seed_entries_def made_def NewLargePayloadJob_def intro!: returns_bind [of made])

lemma SeedAll_returns: "(\<And>job. returns (d job)) \<Longrightarrow> returns (SeedAll b (Some d))"
  unfolding SeedAll_def seedAll_def
  by (auto simp: Let_def intro!: returns_seq returns_bind_go [OF seed_loop_returns] seed_entries_return)

lemma queue_dispatcher_returns:
  assumes "q_Backend q = ''redis''" and "q_Pool q"
  shows "returns (queue_dispatcher errtext e q job)"
proof -
  have "wp (Dispatch e q job) (\<lambda>(r, _) _. \<exists>i err. r = Returns i err) w" for w
    using assms by (auto simp: Dispatch_def dispatch_redis_def wp_def Let_def split: prod.splits)
  then show ?thesis
    unfolding queue_dispatcher_def returns_def wp_bind
    by (intro allI, rule wp_mono) (auto simp: wp_return)
qed

section \<open>A queue on redis as a store of jobs\<close>

text \<open>
  A redis queue with channel \<open>job\<close>, in a world whose UUIDs do not repeat (\<open>used\<close> are those
  handed out), whose keyspace the package's state is no part of, and whose clock shows years that
  RFC 3339 can write. Commands may fail.
\<close>

locale bench_redis = redis_server "b_env b" ks for b :: "'w benv" and ks +
  fixes q :: "'w queue" and used :: "'w \<Rightarrow> string set" and errtext :: "dispatch_error \<Rightarrow> string"
  assumes backend: "q_Backend q = ''redis''" "q_Pool q" "redis_channel (b_env b) q ''job'' = ''job''"
    and uuid: "wp (e_UUID (b_env b)) (\<lambda>i w'. ks w' = ks w \<and> i \<notin> used w \<and> used w' = insert i (used w)) w"
    and do_used: "wp (e_Do (b_env b) args) (\<lambda>_ w'. used w' = used w) w"
    and now_used: "wp (e_Now (b_env b)) (\<lambda>t w'. used w' = used w \<and> rfc3339_ok 0 t) w"
    and sleep_used: "wp (e_Sleep (b_env b) t) (\<lambda>_ w'. used w' = used w) w"
    and put_used: "ks (b_put b s w) = ks w" "used (b_put b s w) = used w"
begin

lemma dispatch_job:
  assumes "j_Queue job = ''job''"
  shows "wp (Dispatch (b_env b) q job) (\<lambda>r w'. \<exists>i j err. r = (Returns i (map_option BackendError err), q, NotSent)
     \<and> i \<notin> used w \<and> used w' = insert i (used w) \<and> j_Name j = j_Name job
     \<and> ks w' = (if err = None then (ks w)(sprintf formatPending [''job'', i] \<mapsto> j) else ks w)) w"
  unfolding Dispatch_def now_utc_def wp_bind wp_return
proof (rule wp_mono [OF uuid], rule wp_mono [OF wp_conj [OF now_ks now_used]], goal_cases)
  case (1 i w1 t w2)
  define job1 where "job1 = (stamp_job i (format_rfc3339 0 t) job)\<lparr>j_Queue := ''job''\<rparr>"
  have job1: "(stamp_job i (format_rfc3339 0 t) job)\<lparr>j_Queue := redis_channel (b_env b) q (j_Queue (stamp_job i (format_rfc3339 0 t) job))\<rparr> = job1"
    "j_ID job1 = i" "j_Queue job1 = ''job''" "j_Name job1 = j_Name job"
    using assms backend(3) by (simp_all add: job1_def stamp_job_def)
  have "wp (dispatch_redis (b_env b) q (stamp_job i (format_rfc3339 0 t) job))
    (\<lambda>r w'. \<exists>err. r = (Returns i (map_option BackendError err), q, NotSent) \<and> used w' = used w2
       \<and> ks w' = (if err = None then (ks w2)(sprintf formatPending [''job'', i] \<mapsto> redis_view job1) else ks w2)) w2"
    using backend(2)
    by (simp add: dispatch_redis_def job1 wp_bind Let_def)
      (rule wp_mono [OF wp_conj [OF hset_job do_used]], auto simp: wp_return split: prod.splits)
  then show ?case
    using backend(1)
    by (simp add: Let_def, elim wp_mono)
      (use 1 job1(4) in \<open>auto intro!: exI [of _ i] exI [of _ "redis_view job1"] simp: redis_view_def\<close>)
qed

end

definition pending_names :: "('w \<Rightarrow> string \<rightharpoonup> 'w job) \<Rightarrow> 'w \<Rightarrow> string \<rightharpoonup> string" where
  "pending_names ks w i = map_option j_Name (ks w (sprintf formatPending [''job'', i]))"

definition ids_used :: "('w \<Rightarrow> string \<rightharpoonup> 'w job) \<Rightarrow> ('w \<Rightarrow> string set) \<Rightarrow> 'w \<Rightarrow> bool" where
  "ids_used ks used w \<longleftrightarrow> dom (pending_names ks w) \<subseteq> used w"

lemma pending_names_cong:
  "ks w' = ks w \<Longrightarrow> pending_names ks w' = pending_names ks w"
  "ks w' = ks w \<Longrightarrow> used w' = used w \<Longrightarrow> ids_used ks used w \<Longrightarrow> ids_used ks used w'"
  by (simp_all add: pending_names_def ids_used_def fun_eq_iff dom_def)

lemma pending_names_stored:
  assumes "ks w' = (ks w)(sprintf formatPending [''job'', i] \<mapsto> j)"
  shows "pending_names ks w' = (pending_names ks w)(i \<mapsto> j_Name j)"
  using assms by (auto simp: pending_names_def fun_eq_iff sprintf_keys)

sublocale bench_redis \<subseteq> job_store b "queue_dispatcher errtext (b_env b) q" "pending_names ks" "ids_used ks used"
proof (unfold_locales, goal_cases)
  case (1 w job)
  show ?case
    unfolding queue_dispatcher_def wp_bind
  proof (rule wp_mono [OF dispatch_job [OF 1(2)]], elim exE conjE, goal_cases)
    case (1 r w' i j err)
    have fresh: "pending_names ks w i = None"
      using \<open>ids_used ks used w\<close> 1(2) by (auto simp: ids_used_def dom_def)
    show ?case
    proof (cases err)
      case None
      with 1 have names: "pending_names ks w' = (pending_names ks w)(i \<mapsto> j_Name job)"
        using pending_names_stored [of ks w' w i j] by simp
      then have "ids_used ks used w'" using \<open>ids_used ks used w\<close> 1(3) by (auto simp: ids_used_def)
      with names fresh None 1 show ?thesis by (simp add: wp_return)
    next
      case (Some m)
      with 1 have "ks w' = ks w" by simp
      with \<open>ids_used ks used w\<close> 1(3) have "ids_used ks used w'"
        by (auto simp: ids_used_def pending_names_cong(1) [of ks w' w])
      with Some 1 \<open>ks w' = ks w\<close> show ?thesis by (simp add: wp_return pending_names_cong(1) [of ks w' w])
    qed
  qed
next
  case (2 w s)
  then show ?case using put_used pending_names_cong by metis
next
  case (3 w t)
  show ?case
    by (rule wp_mono [OF wp_conj [OF sleep_ks sleep_used]]) (use 3 pending_names_cong in metis)
next
  case (4 w)
  show ?case
    by (rule wp_mono [OF wp_conj [OF now_ks now_used]]) (use 4 pending_names_cong in metis)
qed

context bench_redis
begin

lemma redis_SeedAll:
  assumes "float_ok (b_json b) (Fin (1 / 2))" and "ids_used ks used w"
  shows "wp (SeedAll b (Some (queue_dispatcher errtext (b_env b) q))) (\<lambda>r w'. \<exists>rs. length rs = 15
     \<and> r = Ret (errors_Join (reported (seed_entries b) rs))
     \<and> adds (pending_names ks w) (stored seed_names rs) (pending_names ks w')) w"
  by (rule SeedAll_outcome [OF assms])

end

end
