(* ===== verification/Bench_Stress.thy ===== *)
theory Bench_Stress
  imports Bench_Registry "HOL-Library.Multiset"
begin

text \<open>
  The stress run (\<open>internal/bench/benchjobs/stress.go\<close>). \<open>stressJobFor\<close> builds one job;
  \<open>Stress_begin\<close> is \<open>Stress\<close> up to its loop, with its guards; the loop, the dispatcher
  goroutines, the sampler and the end of the run are a step relation on the state of all of them.

  \<^item> \<open>t_main\<close>: where \<open>Stress\<close> itself is: at the head of its loop (\<open>Loop i\<close>), blocked in
    sending to the semaphore (\<open>AtSem i\<close>), in the drain window, waiting for the sampler, returned;
  \<^item> \<open>t_gos\<close>: the dispatcher goroutines: about to build their job, about to dispatch it, about to
    run the deferred receive from the semaphore, about to run \<open>wg.Done\<close>;
  \<^item> \<open>t_tokens\<close>: the number of tokens in the semaphore; \<open>t_wg\<close>: the wait group's counter;
  \<^item> \<open>t_sampler\<close>: the sampler runs; \<open>t_stop\<close>: its channel is closed;
  \<^item> \<open>t_crashed\<close>: a dispatch panicked in its goroutine, which ends the process.

  The rest of the program (workers, reaper) may change the world between any two steps. The
  sampler's compare-and-swap loop is one step: it stores the larger of the two numbers.
\<close>

section \<open>Jobs\<close>

definition StressModeHello :: string where "StressModeHello = ''hello''"
definition StressModeMixed :: string where "StressModeMixed = ''mixed''"
definition StressModeFail :: string where "StressModeFail = ''fail''"

definition stressJobFor :: "'w benv \<Rightarrow> string \<Rightarrow> int \<Rightarrow> ('w, string + 'w job) state" where
  "stressJobFor b mode i =
     (if mode = StressModeHello then State_Monad.return (NewHelloJob b (''stress-'' @ itoa i))
      else if mode = StressModeFail then State_Monad.return (NewAlwaysErrorJob b (''stress-fail-'' @ itoa i))
      else if mode = StressModeMixed then do {
        roll \<leftarrow> b_IntN b 100;
        (if roll < 60 then State_Monad.return (NewHelloJob b (''stress-hello-'' @ itoa i))
         else if roll < 80 then do {
           ms \<leftarrow> b_IntN b 40;
           State_Monad.return (NewSleepJob b (wrap64 (wrap64 (10 + ms) * millisecond))) }
         else if roll < 90 then State_Monad.return (NewAlwaysErrorJob b (''stress-err-'' @ itoa i))
         else if roll < 95 then State_Monad.return (NewPanicJob b (''stress-panic-'' @ itoa i))
         else State_Monad.return (NewBusyLoopJob b 50000)) }
      else State_Monad.return (Inl (''stress: unknown mode '' @ go_quote (e_uquote (b_env b)) mode)))"

section \<open>The run\<close>

record stressConfig =
  c_Count :: int
  c_Concurrency :: int
  c_Mode :: string

record stressResult =
  r_Dispatched :: int
  r_DispatchErrors :: int
  r_ConstructErrors :: int
  r_Elapsed :: duration
  r_StartGoroutines :: int
  r_PeakGoroutines :: int

datatype stress_main = Loop int | AtSem int | Draining | Joining | Returned

datatype 'w stress_go = Begin int | Send "'w job" | Release | Leave

record 'w stress =
  t_cfg :: stressConfig
  t_main :: stress_main
  t_gos :: "'w stress_go multiset"
  t_tokens :: int
  t_wg :: int
  t_result :: stressResult
  t_peak :: int
  t_start :: time
  t_sampler :: bool
  t_stop :: bool
  t_crashed :: bool

definition stress_defaults :: "stressConfig \<Rightarrow> stressConfig" where
  "stress_defaults c =
     c\<lparr>c_Concurrency := (if c_Concurrency c \<le> 0 then 16 else c_Concurrency c),
       c_Mode := (if c_Mode c = '''' then StressModeHello else c_Mode c)\<rparr>"

definition stress_init :: "stressConfig \<Rightarrow> int \<Rightarrow> time \<Rightarrow> 'w stress" where
  "stress_init cfg g start =
     \<lparr>t_cfg = cfg, t_main = Loop 0, t_gos = {#}, t_tokens = 0, t_wg = 0,
      t_result = \<lparr>r_Dispatched = 0, r_DispatchErrors = 0, r_ConstructErrors = 0, r_Elapsed = 0,
                  r_StartGoroutines = g, r_PeakGoroutines = 0\<rparr>,
      t_peak = g, t_start = start, t_sampler = True, t_stop = False, t_crashed = False\<rparr>"

definition Stress_begin ::
  "'w benv \<Rightarrow> 'w dispatcher option \<Rightarrow> stressConfig \<Rightarrow> ('w, string + 'w stress) state" where
  "Stress_begin b q cfg0 =
     (if q = None then State_Monad.return (Inl ''stress: nil queue dispatcher'')
      else if c_Count cfg0 \<le> 0 then State_Monad.return (Inl ''stress: count must be > 0'')
      else do {
        let cfg = stress_defaults cfg0;
        g \<leftarrow> b_NumGoroutine b;
        printf b (''stress: mode=%s count=%d concurrency=%d startGoroutines=%d'' @ nl)
          [AStr (c_Mode cfg), AInt (c_Count cfg), AInt (c_Concurrency cfg), AInt g];
        start \<leftarrow> e_Now (b_env b);
        State_Monad.return (Inr (stress_init cfg g start)) })"

definition retrying_mode :: "stressConfig \<Rightarrow> bool" where
  "retrying_mode cfg \<longleftrightarrow> c_Mode cfg = StressModeFail \<or> c_Mode cfg = StressModeMixed"

definition drainWindow :: "stressConfig \<Rightarrow> duration" where
  "drainWindow cfg = (if retrying_mode cfg then 7 * second else 100 * millisecond)"

text \<open>What one goroutine step does: the body of the goroutine, statement by statement.\<close>

definition go_to :: "'w stress_go \<Rightarrow> 'w stress_go \<Rightarrow> 'w stress \<Rightarrow> 'w stress" where
  "go_to g g' s = s\<lparr>t_gos := add_mset g' (t_gos s - {#g#})\<rparr>"

definition go_build :: "int \<Rightarrow> string + 'w job \<Rightarrow> 'w stress \<Rightarrow> 'w stress" where
  "go_build i r s =
     (case r of
        Inl err \<Rightarrow> go_to (Begin i) Release
          (s\<lparr>t_result := (t_result s)\<lparr>r_ConstructErrors := wrap64 (r_ConstructErrors (t_result s) + 1)\<rparr>\<rparr>)
      | Inr job \<Rightarrow> go_to (Begin i) (Send job) s)"

definition go_send :: "'w job \<Rightarrow> (string \<times> string option) go \<Rightarrow> 'w stress \<Rightarrow> 'w stress" where
  "go_send job r s =
     (case r of
        Panicked m \<Rightarrow> s\<lparr>t_crashed := True\<rparr>
      | Ret (_, Some err) \<Rightarrow> go_to (Send job) Release
          (s\<lparr>t_result := (t_result s)\<lparr>r_DispatchErrors := wrap64 (r_DispatchErrors (t_result s) + 1)\<rparr>\<rparr>)
      | Ret (_, None) \<Rightarrow> go_to (Send job) Release
          (s\<lparr>t_result := (t_result s)\<lparr>r_Dispatched := wrap64 (r_Dispatched (t_result s) + 1)\<rparr>\<rparr>))"

text \<open>After \<open>wg.Wait\<close>: the elapsed time and the message before the drain window.\<close>

definition stress_waited :: "'w benv \<Rightarrow> 'w stress \<Rightarrow> ('w, 'w stress) state" where
  "stress_waited b s = do {
     now \<leftarrow> e_Now (b_env b);
     printf b (''stress: waiting %s for workers to drain / retries to fire'' @ nl) [ADur (drainWindow (t_cfg s))];
     State_Monad.return (s\<lparr>t_main := Draining, t_result := (t_result s)\<lparr>r_Elapsed := time_sub now (t_start s)\<rparr>\<rparr>) }"

definition stress_drained :: "'w benv \<Rightarrow> 'w stress \<Rightarrow> ('w, 'w stress) state" where
  "stress_drained b s = do {
     e_Sleep (b_env b) (drainWindow (t_cfg s));
     State_Monad.return (s\<lparr>t_main := Joining, t_stop := True\<rparr>) }"

text \<open>After the sampler has ended: the peak, and the closing messages. \<open>ARate\<close> is the float
  quotient of the two numbers, which only this message uses.\<close>

definition stress_finish :: "'w benv \<Rightarrow> 'w stress \<Rightarrow> ('w, 'w stress) state" where
  "stress_finish b s = do {
     let r = (t_result s)\<lparr>r_PeakGoroutines := t_peak s\<rparr>;
     printf b (''stress: dispatched=%d construct_err=%d dispatch_err=%d elapsed=%s rate=%.0f dispatch/s peakGoroutines=%d'' @ nl)
       [AInt (r_Dispatched r), AInt (r_ConstructErrors r), AInt (r_DispatchErrors r), ADur (r_Elapsed r),
        ARate (r_Dispatched r) (r_Elapsed r), AInt (r_PeakGoroutines r)];
     (if retrying_mode (t_cfg s)
      then do {
        n \<leftarrow> modify b (\<lambda>x. (alwaysErrorAttempts x, x));
        printf b (''stress: alwaysError total handler invocations: %d (expect ~4x dispatched for fail mode: 1 initial + 3 retries)'' @ nl) [AInt n] }
      else State_Monad.return ());
     g \<leftarrow> b_NumGoroutine b;
     printf b (''stress: final goroutine count: %d'' @ nl) [AInt g];
     State_Monad.return (s\<lparr>t_main := Returned, t_result := r\<rparr>) }"

datatype stress_label = Main | Goroutine | Sampler | Outside

inductive sstep ::
  "'w benv \<Rightarrow> 'w dispatcher \<Rightarrow> 'w stress \<times> 'w \<Rightarrow> stress_label \<Rightarrow> 'w stress \<times> 'w \<Rightarrow> bool"
  for b d where
  add: "\<not> t_crashed s \<Longrightarrow> t_main s = Loop i \<Longrightarrow> i < c_Count (t_cfg s) \<Longrightarrow>
    sstep b d (s, w) Main (s\<lparr>t_main := AtSem i, t_wg := t_wg s + 1\<rparr>, w)"
| acquire: "\<not> t_crashed s \<Longrightarrow> t_main s = AtSem i \<Longrightarrow> t_tokens s < c_Concurrency (t_cfg s) \<Longrightarrow>
    sstep b d (s, w) Main
      (s\<lparr>t_main := Loop (i + 1), t_tokens := t_tokens s + 1, t_gos := add_mset (Begin i) (t_gos s)\<rparr>, w)"
| build: "\<not> t_crashed s \<Longrightarrow> Begin i \<in># t_gos s \<Longrightarrow>
    run_state (stressJobFor b (c_Mode (t_cfg s)) i) w = (r, w') \<Longrightarrow>
    sstep b d (s, w) Goroutine (go_build i r s, w')"
| send: "\<not> t_crashed s \<Longrightarrow> Send job \<in># t_gos s \<Longrightarrow> run_state (d job) w = (r, w') \<Longrightarrow>
    sstep b d (s, w) Goroutine (go_send job r s, w')"
| release: "\<not> t_crashed s \<Longrightarrow> Release \<in># t_gos s \<Longrightarrow>
    sstep b d (s, w) Goroutine (go_to Release Leave (s\<lparr>t_tokens := t_tokens s - 1\<rparr>), w)"
| leave: "\<not> t_crashed s \<Longrightarrow> Leave \<in># t_gos s \<Longrightarrow>
    sstep b d (s, w) Goroutine (s\<lparr>t_gos := t_gos s - {#Leave#}, t_wg := t_wg s - 1\<rparr>, w)"
| waited: "\<not> t_crashed s \<Longrightarrow> t_main s = Loop i \<Longrightarrow> \<not> i < c_Count (t_cfg s) \<Longrightarrow> t_wg s = 0 \<Longrightarrow>
    run_state (stress_waited b s) w = (s', w') \<Longrightarrow> sstep b d (s, w) Main (s', w')"
| drained: "\<not> t_crashed s \<Longrightarrow> t_main s = Draining \<Longrightarrow> run_state (stress_drained b s) w = (s', w') \<Longrightarrow>
    sstep b d (s, w) Main (s', w')"
| joined: "\<not> t_crashed s \<Longrightarrow> t_main s = Joining \<Longrightarrow> \<not> t_sampler s \<Longrightarrow> run_state (stress_finish b s) w = (s', w') \<Longrightarrow>
    sstep b d (s, w) Main (s', w')"
| stop: "\<not> t_crashed s \<Longrightarrow> t_sampler s \<Longrightarrow> t_stop s \<Longrightarrow> sstep b d (s, w) Main (s\<lparr>t_sampler := False\<rparr>, w)"
| sample: "\<not> t_crashed s \<Longrightarrow> t_sampler s \<Longrightarrow> run_state (b_NumGoroutine b) w = (n, w') \<Longrightarrow>
    sstep b d (s, w) Sampler (s\<lparr>t_peak := max (t_peak s) n\<rparr>, w')"
| outside: "sstep b d (s, w) Outside (s, w')"

section \<open>Accounting\<close>

text \<open>The reachable states of a run with a given configuration.\<close>

inductive sreach :: "'w benv \<Rightarrow> 'w dispatcher \<Rightarrow> stressConfig \<Rightarrow> 'w stress \<times> 'w \<Rightarrow> bool" for b d cfg where
  start: "run_state (Stress_begin b (Some d) cfg) w0 = (Inr s, w) \<Longrightarrow> sreach b d cfg (s, w)"
| step: "sreach b d cfg c \<Longrightarrow> sstep b d c l c' \<Longrightarrow> sreach b d cfg c'"

definition holds_token :: "'w stress_go \<Rightarrow> bool" where
  "holds_token g \<longleftrightarrow> g \<noteq> Leave"

fun uncounted :: "'w stress_go \<Rightarrow> bool" where
  "uncounted (Begin i) = True"
| "uncounted (Send job) = True"
| "uncounted _ = False"

definition accounted :: "stressResult \<Rightarrow> int" where
  "accounted r = r_Dispatched r + r_DispatchErrors r + r_ConstructErrors r"

text \<open>The number of goroutines started so far.\<close>

definition started :: "'w stress \<Rightarrow> int" where
  "started s = (case t_main s of Loop i \<Rightarrow> i | AtSem i \<Rightarrow> i | _ \<Rightarrow> c_Count (t_cfg s))"

text \<open>The invariant: tokens and wait group count the goroutines, every started goroutine has been
  counted in the result or is still before that, and nothing is left when the loop is over.\<close>

definition sinv :: "stressConfig \<Rightarrow> 'w stress \<Rightarrow> bool" where
  "sinv cfg s \<longleftrightarrow> t_cfg s = stress_defaults cfg \<and> 0 < c_Count cfg \<and> 0 \<le> started s \<and> started s \<le> c_Count cfg
     \<and> (\<forall>i. t_main s = AtSem i \<longrightarrow> i < c_Count cfg)
     \<and> t_tokens s = int (size (filter_mset holds_token (t_gos s))) \<and> t_tokens s \<le> c_Concurrency (stress_defaults cfg)
     \<and> t_wg s = int (size (t_gos s)) + (case t_main s of AtSem i \<Rightarrow> 1 | _ \<Rightarrow> 0)
     \<and> accounted (t_result s) + int (size (filter_mset uncounted (t_gos s))) = started s
     \<and> 0 \<le> r_Dispatched (t_result s) \<and> 0 \<le> r_DispatchErrors (t_result s) \<and> 0 \<le> r_ConstructErrors (t_result s)
     \<and> (t_main s \<in> {Draining, Joining, Returned} \<longrightarrow> t_gos s = {#})
     \<and> r_StartGoroutines (t_result s) \<le> t_peak s
     \<and> (t_main s = Joining \<longrightarrow> t_stop s)
     \<and> (t_main s = Returned \<longrightarrow> r_PeakGoroutines (t_result s) = t_peak s \<and> \<not> t_sampler s)"

lemma stress_defaults_fields [simp]:
  "c_Count (stress_defaults c) = c_Count c" "0 < c_Concurrency (stress_defaults c)"
  by (auto simp: stress_defaults_def)

lemma Stress_begin_starts:
  assumes "0 < c_Count cfg"
  obtains g t w' where "run_state (Stress_begin b (Some d) cfg) w = (Inr (stress_init (stress_defaults cfg) g t), w')"
  using assms by (auto simp: Stress_begin_def Let_def case_prod_unfold)

lemma sinv_start:
  assumes "run_state (Stress_begin b (Some d) cfg) w0 = (Inr s, w)"
  shows "sinv cfg s"
  using assms order_less_imp_le [OF stress_defaults_fields(2), of cfg]
  by (auto simp: Stress_begin_def sinv_def stress_init_def started_def accounted_def Let_def
      split: if_splits prod.splits)

lemma go_to_fields:
  assumes "g \<in># t_gos s"
  shows "int (size (filter_mset P (t_gos (go_to g g' s))))
      = int (size (filter_mset P (t_gos s))) - (if P g then 1 else 0) + (if P g' then 1 else 0)"
    and "size (t_gos (go_to g g' s)) = size (t_gos s)"
  using assms by (auto simp: go_to_def dest!: multi_member_split)

lemma go_to_other [simp]:
  "t_cfg (go_to g g' s) = t_cfg s" "t_main (go_to g g' s) = t_main s" "t_tokens (go_to g g' s) = t_tokens s"
  "t_wg (go_to g g' s) = t_wg s" "t_result (go_to g g' s) = t_result s" "t_peak (go_to g g' s) = t_peak s"
  "t_sampler (go_to g g' s) = t_sampler s" "t_stop (go_to g g' s) = t_stop s" "t_crashed (go_to g g' s) = t_crashed s"
  "started (go_to g g' s) = started s"
  by (simp_all add: go_to_def started_def split: stress_main.splits)

lemma started_update [simp]:
  "started (s\<lparr>t_result := r\<rparr>) = started s" "started (s\<lparr>t_tokens := n\<rparr>) = started s"
  "started (s\<lparr>t_peak := n\<rparr>) = started s" "started (s\<lparr>t_crashed := c\<rparr>) = started s"
  "started (s\<lparr>t_sampler := c\<rparr>) = started s"
  by (simp_all add: started_def split: stress_main.splits)

lemma has_goroutine:
  assumes "sinv cfg s" and "g \<in># t_gos s"
  shows "t_main s \<noteq> Draining" and "t_main s \<noteq> Joining" and "t_main s \<noteq> Returned"
  using assms by (auto simp: sinv_def)

text \<open>A goroutine moves on: the tokens and the result follow it.\<close>

lemma sinv_go_to:
  assumes "sinv cfg s" and "g \<in># t_gos s" and "g' \<noteq> g"
    and "accounted r = accounted (t_result s) + (if uncounted g then 1 else 0) - (if uncounted g' then 1 else 0)"
    and "0 \<le> r_Dispatched r" and "0 \<le> r_DispatchErrors r" and "0 \<le> r_ConstructErrors r"
    and "r_StartGoroutines r = r_StartGoroutines (t_result s)"
    and "n = t_tokens s - (if holds_token g then 1 else 0) + (if holds_token g' then 1 else 0)" and "n \<le> t_tokens s"
  shows "sinv cfg (go_to g g' (s\<lparr>t_result := r, t_tokens := n\<rparr>))"
  using assms(1) has_goroutine [OF assms(1,2)] assms(3-10) go_to_fields [of g "s\<lparr>t_result := r, t_tokens := n\<rparr>"] assms(2)
  by (auto simp: sinv_def)

lemma counters_room:
  assumes "sinv cfg s" and "in_int64 (c_Count cfg)" and "g \<in># t_gos s" and "uncounted g"
  shows "wrap64 (r_Dispatched (t_result s) + 1) = r_Dispatched (t_result s) + 1"
    and "wrap64 (r_DispatchErrors (t_result s) + 1) = r_DispatchErrors (t_result s) + 1"
    and "wrap64 (r_ConstructErrors (t_result s) + 1) = r_ConstructErrors (t_result s) + 1"
proof -
  have "g \<in># filter_mset uncounted (t_gos s)" using assms(3,4) by simp
  then have "0 < size (filter_mset uncounted (t_gos s))" by (metis empty_not_add_mset multi_member_split size_eq_0_iff_empty neq0_conv)
  with assms(1) have "accounted (t_result s) < c_Count cfg" and "0 \<le> r_Dispatched (t_result s)"
    and "0 \<le> r_DispatchErrors (t_result s)" and "0 \<le> r_ConstructErrors (t_result s)"
    by (auto simp: sinv_def)
  then show "wrap64 (r_Dispatched (t_result s) + 1) = r_Dispatched (t_result s) + 1"
    and "wrap64 (r_DispatchErrors (t_result s) + 1) = r_DispatchErrors (t_result s) + 1"
    and "wrap64 (r_ConstructErrors (t_result s) + 1) = r_ConstructErrors (t_result s) + 1"
    using assms(2) by (intro wrap64_id; auto simp: in_int64_def accounted_def)+
qed

lemma sinv_build:
  assumes "sinv cfg s" and "in_int64 (c_Count cfg)" and "Begin i \<in># t_gos s"
  shows "sinv cfg (go_build i r s)"
proof (cases r)
  case (Inl err)
  let ?r = "(t_result s)\<lparr>r_ConstructErrors := r_ConstructErrors (t_result s) + 1\<rparr>"
  have "sinv cfg (go_to (Begin i) Release (s\<lparr>t_result := ?r, t_tokens := t_tokens s\<rparr>))"
    by (rule sinv_go_to [OF assms(1,3)]) (use assms(1) in \<open>simp_all add: accounted_def holds_token_def sinv_def\<close>)
  with Inl counters_room(3) [OF assms] show ?thesis by (simp add: go_build_def)
next
  case (Inr job)
  have "sinv cfg (go_to (Begin i) (Send job) (s\<lparr>t_result := t_result s, t_tokens := t_tokens s\<rparr>))"
    by (rule sinv_go_to [OF assms(1,3)]) (use assms(1) in \<open>simp_all add: accounted_def holds_token_def sinv_def\<close>)
  with Inr show ?thesis by (simp add: go_build_def)
qed

lemma sinv_send:
  assumes "sinv cfg s" and "in_int64 (c_Count cfg)" and "Send job \<in># t_gos s"
  shows "sinv cfg (go_send job r s)"
proof (cases r)
  case (Panicked m)
  then show ?thesis using assms(1) by (simp add: go_send_def sinv_def)
next
  case (Ret x)
  let ?re = "(t_result s)\<lparr>r_DispatchErrors := r_DispatchErrors (t_result s) + 1\<rparr>"
  let ?rd = "(t_result s)\<lparr>r_Dispatched := r_Dispatched (t_result s) + 1\<rparr>"
  have "sinv cfg (go_to (Send job) Release (s\<lparr>t_result := ?re, t_tokens := t_tokens s\<rparr>))"
    and "sinv cfg (go_to (Send job) Release (s\<lparr>t_result := ?rd, t_tokens := t_tokens s\<rparr>))"
    by (rule sinv_go_to [OF assms(1,3)]; use assms(1) in \<open>simp add: accounted_def holds_token_def sinv_def\<close>)+
  with Ret counters_room(1,2) [OF assms] show ?thesis
    by (cases x) (auto simp: go_send_def split: option.splits)
qed

lemma sinv_release:
  assumes "sinv cfg s" and "Release \<in># t_gos s"
  shows "sinv cfg (go_to Release Leave (s\<lparr>t_tokens := t_tokens s - 1\<rparr>))"
proof -
  have "sinv cfg (go_to Release Leave (s\<lparr>t_result := t_result s, t_tokens := t_tokens s - 1\<rparr>))"
    by (rule sinv_go_to [OF assms]) (use assms(1) in \<open>simp_all add: accounted_def holds_token_def sinv_def\<close>)
  then show ?thesis by simp
qed

lemma sinv_leave:
  assumes "sinv cfg s" and "Leave \<in># t_gos s"
  shows "sinv cfg (s\<lparr>t_gos := t_gos s - {#Leave#}, t_wg := t_wg s - 1\<rparr>)"
proof -
  from assms(2) obtain M where "t_gos s = add_mset Leave M" by (auto dest!: multi_member_split)
  with assms(1) show ?thesis by (auto simp: sinv_def holds_token_def started_def split: stress_main.splits)
qed

text \<open>The end of the run, whatever the calls to the clock and the runtime do.\<close>

lemma stress_end_effect:
  "run_state (stress_waited b s) w = (s', w') \<Longrightarrow>
     \<exists>t. s' = s\<lparr>t_main := Draining, t_result := (t_result s)\<lparr>r_Elapsed := t\<rparr>\<rparr>"
  "run_state (stress_drained b s) w = (s', w') \<Longrightarrow> s' = s\<lparr>t_main := Joining, t_stop := True\<rparr>"
  "run_state (stress_finish b s) w = (s', w') \<Longrightarrow>
     s' = s\<lparr>t_main := Returned, t_result := (t_result s)\<lparr>r_PeakGoroutines := t_peak s\<rparr>\<rparr>"
  by (auto simp: stress_waited_def stress_drained_def stress_finish_def Let_def split: prod.splits if_splits)

lemma sinv_waited:
  assumes "sinv cfg s" and "t_main s = Loop i" and "\<not> i < c_Count (t_cfg s)" and "t_wg s = 0"
  shows "sinv cfg (s\<lparr>t_main := Draining, t_result := (t_result s)\<lparr>r_Elapsed := t\<rparr>\<rparr>)"
  using assms by (auto simp: sinv_def started_def accounted_def)

lemma sinv_step:
  assumes "sstep b d (s, w) l (s', w')" and "sinv cfg s" and "in_int64 (c_Count cfg)"
  shows "sinv cfg s'"
  using assms(1)
proof cases
  case (add i)
  with assms(2) show ?thesis by (auto simp: sinv_def started_def)
next
  case (acquire i)
  with assms(2) show ?thesis by (auto simp: sinv_def started_def holds_token_def)
next
  case (build i r)
  with sinv_build [OF assms(2,3)] show ?thesis by simp
next
  case (send job r)
  with sinv_send [OF assms(2,3)] show ?thesis by simp
next
  case release
  with sinv_release [OF assms(2)] show ?thesis by simp
next
  case leave
  with sinv_leave [OF assms(2)] show ?thesis by simp
next
  case (waited i)
  then obtain t where "s' = s\<lparr>t_main := Draining, t_result := (t_result s)\<lparr>r_Elapsed := t\<rparr>\<rparr>"
    using stress_end_effect(1) [of b s w s' w'] by auto
  with sinv_waited [OF assms(2)] waited show ?thesis by simp
next
  case drained
  with stress_end_effect(2) [of b s w s' w'] have "s' = s\<lparr>t_main := Joining, t_stop := True\<rparr>" by simp
  with assms(2) drained show ?thesis by (auto simp: sinv_def started_def)
next
  case joined
  with stress_end_effect(3) [of b s w s' w']
  have "s' = s\<lparr>t_main := Returned, t_result := (t_result s)\<lparr>r_PeakGoroutines := t_peak s\<rparr>\<rparr>"
    by simp
  with assms(2) joined show ?thesis by (auto simp: sinv_def started_def accounted_def)
next
  case stop
  with assms(2) show ?thesis by (auto simp: sinv_def)
next
  case (sample n)
  with assms(2) show ?thesis by (auto simp: sinv_def)
next
  case outside
  with assms(2) show ?thesis by simp
qed

lemma sreach_sinv:
  assumes "sreach b d cfg c" and "in_int64 (c_Count cfg)"
  shows "sinv cfg (fst c)"
  using assms(1)
proof induction
  case (start w0 s w)
  then show ?case by (simp add: sinv_start)
next
  case (step c l c')
  then show ?case using sinv_step [of b d "fst c" "snd c" l "fst c'" "snd c'"] assms(2) by simp
qed

text \<open>Dispatches in progress hold a token each.\<close>

definition dispatching :: "'w stress \<Rightarrow> nat" where
  "dispatching s = size (filter_mset (\<lambda>g. \<exists>job. g = Send job) (t_gos s))"

lemma dispatching_bound:
  assumes "sinv cfg s"
  shows "int (dispatching s) \<le> c_Concurrency (stress_defaults cfg)"
proof -
  have "filter_mset (\<lambda>g. \<exists>job. g = Send job) (t_gos s) \<subseteq># filter_mset holds_token (t_gos s)"
    by (rule filter_mset_mono_strong) (auto simp: holds_token_def)
  from size_mset_mono [OF this] assms show ?thesis by (simp add: sinv_def dispatching_def)
qed

section \<open>Modes\<close>

text \<open>The three modes build a job whatever the dice show; any other mode builds none.\<close>

definition dice_ok :: "'w benv \<Rightarrow> bool" where
  "dice_ok b \<longleftrightarrow> (\<forall>n w. 0 < n \<longrightarrow> (case run_state (b_IntN b n) w of (r, w') \<Rightarrow> 0 \<le> r \<and> r < n))"

lemma go_div_ms: "0 \<le> n \<Longrightarrow> go_div (n * millisecond) millisecond = n"
  by (simp add: go_div_def millisecond_def)

lemma valid_utf8_itoa:
  assumes "is_ascii p" and "0 \<le> i"
  shows "valid_utf8 (p @ itoa i)"
proof (rule valid_utf8_ascii)
  have "of_char c < (128 :: nat)" if "c \<in> set (itoa i)" for c
  proof -
    have "is_digit c" using that nat_digits_digits [of c "nat i"] assms(2) by (simp add: itoa_def)
    then show ?thesis by (simp add: is_digit_def)
  qed
  with assms(1) show "is_ascii (p @ itoa i)" by (auto simp: is_ascii_def list_all_iff)
qed

definition stress_modes :: "string set" where
  "stress_modes = {StressModeHello, StressModeMixed, StressModeFail}"

lemma stressJobFor_builds:
  assumes "mode \<in> stress_modes" and "dice_ok b" and "0 \<le> i"
  shows "\<exists>job. fst (run_state (stressJobFor b mode i) w) = Inr job"
proof -
  have ascii: "is_ascii p"
    if "p \<in> {''stress-'', ''stress-fail-'', ''stress-hello-'', ''stress-err-'', ''stress-panic-''}" for p
    using that by (auto simp: is_ascii_def)
  have sleep: "\<exists>job. NewSleepJob b (wrap64 (wrap64 (10 + ms) * millisecond)) = Inr job" if "0 \<le> ms" "ms < 40" for ms
  proof -
    have "wrap64 (wrap64 (10 + ms) * millisecond) = (10 + ms) * millisecond"
      using that by (simp add: in_int64_def millisecond_def)
    then show ?thesis
      using that constructors_build(6) [of "(10 + ms) * millisecond" b]
      by (simp add: go_div_ms builds_def in_int64_def) blast
  qed
  have texts: "valid_utf8 (p @ itoa i)"
    if "p \<in> {''stress-'', ''stress-fail-'', ''stress-hello-'', ''stress-err-'', ''stress-panic-''}" for p
    by (rule valid_utf8_itoa [OF ascii [OF that] assms(3)])
  note hello = constructors_build(2) [unfolded builds_def] and err = constructors_build(7) [unfolded builds_def]
    and pnc = constructors_build(8) [unfolded builds_def] and busy = constructors_build(4) [unfolded builds_def]
  have jobs: "\<exists>job. NewHelloJob b (''stress-'' @ itoa i) = Inr job" "\<exists>job. NewHelloJob b (''stress-hello-'' @ itoa i) = Inr job"
    "\<exists>job. NewAlwaysErrorJob b (''stress-fail-'' @ itoa i) = Inr job" "\<exists>job. NewAlwaysErrorJob b (''stress-err-'' @ itoa i) = Inr job"
    "\<exists>job. NewPanicJob b (''stress-panic-'' @ itoa i) = Inr job" "\<exists>job. NewBusyLoopJob b 50000 = Inr job"
    using hello [OF texts, of "''stress-''" b] hello [OF texts, of "''stress-hello-''" b] err [OF texts, of "''stress-fail-''" b]
      err [OF texts, of "''stress-err-''" b] pnc [OF texts, of "''stress-panic-''" b] busy [of 50000 b]
    by (auto simp: in_int64_def)
  obtain roll w1 where roll: "run_state (b_IntN b 100) w = (roll, w1)" by fastforce
  obtain ms w2 where ms: "run_state (b_IntN b 40) w1 = (ms, w2)" by fastforce
  have "0 \<le> ms" "ms < 40" using assms(2) ms unfolding dice_ok_def by (metis (no_types, lifting) case_prod_conv zero_less_numeral)+
  from sleep [OF this] jobs assms(1) show ?thesis
    by (auto simp: stressJobFor_def stress_modes_def StressModeHello_def StressModeMixed_def StressModeFail_def roll ms
        simp del: append.simps)
qed

lemma stressJobFor_unknown:
  assumes "mode \<notin> stress_modes"
  shows "\<exists>err. run_state (stressJobFor b mode i) w = (Inl err, w)"
  using assms by (auto simp: stressJobFor_def stress_modes_def)

text \<open>What the mode means for the counters.\<close>

lemma stress_mode_step:
  assumes "sstep b d (s, w) l (s', w')" and "sinv cfg s" and "\<forall>i. Begin i \<in># t_gos s \<longrightarrow> 0 \<le> i"
  shows "\<forall>i. Begin i \<in># t_gos s' \<longrightarrow> 0 \<le> i"
  using assms(1)
proof cases
  case (acquire i)
  with assms(2,3) show ?thesis by (auto simp: sinv_def started_def)
next
  case (waited i)
  with assms(3) stress_end_effect(1) [of b s w s' w'] show ?thesis by auto
next
  case drained
  with assms(3) stress_end_effect(2) [of b s w s' w'] show ?thesis by simp
next
  case joined
  with assms(3) stress_end_effect(3) [of b s w s' w'] show ?thesis by simp
qed (use assms(3) in \<open>auto simp: go_build_def go_send_def go_to_def dest!: in_diffD split: sum.splits go.splits option.splits\<close>)

definition known_clean :: "'w benv \<Rightarrow> 'w stress \<Rightarrow> bool" where
  "known_clean b s \<longleftrightarrow> (c_Mode (t_cfg s) \<in> stress_modes \<and> dice_ok b \<longrightarrow> r_ConstructErrors (t_result s) = 0)"

definition unknown_idle :: "'w stress \<Rightarrow> bool" where
  "unknown_idle s \<longleftrightarrow> (c_Mode (t_cfg s) \<notin> stress_modes \<longrightarrow>
     r_Dispatched (t_result s) = 0 \<and> r_DispatchErrors (t_result s) = 0 \<and> (\<forall>job. Send job \<notin># t_gos s))"

lemma build_modes:
  assumes "run_state (stressJobFor b (c_Mode (t_cfg s)) i) w = (r, w')" and "0 \<le> i"
    and "known_clean b s" and "unknown_idle s"
  shows "known_clean b (go_build i r s)" and "unknown_idle (go_build i r s)"
proof -
  have "\<exists>job. r = Inr job" if "c_Mode (t_cfg s) \<in> stress_modes" "dice_ok b"
    using stressJobFor_builds [OF that assms(2), of w] assms(1) by simp
  with assms(3) show "known_clean b (go_build i r s)"
    by (auto simp: known_clean_def go_build_def split: sum.splits)
  have "\<exists>err. r = Inl err" if "c_Mode (t_cfg s) \<notin> stress_modes"
    using stressJobFor_unknown [OF that, of b i w] assms(1) by auto
  with assms(4) show "unknown_idle (go_build i r s)"
    by (auto simp: unknown_idle_def go_build_def go_to_def dest: in_diffD split: sum.splits)
qed

lemma send_modes:
  assumes "Send job \<in># t_gos s" and "known_clean b s" and "unknown_idle s"
  shows "known_clean b (go_send job r s)" and "unknown_idle (go_send job r s)"
  using assms
  by (auto simp: known_clean_def unknown_idle_def go_send_def go_to_def dest: in_diffD split: go.splits option.splits)

lemma modes_step:
  assumes "sstep b d (s, w) l (s', w')" and "\<forall>i. Begin i \<in># t_gos s \<longrightarrow> 0 \<le> i"
    and "known_clean b s" and "unknown_idle s"
  shows "known_clean b s' \<and> unknown_idle s'"
  using assms(1)
proof cases
  case (build i r)
  with build_modes [of b s i w r w'] assms(2-4) show ?thesis by simp
next
  case (send job r)
  with send_modes [of job s b r] assms(3,4) show ?thesis by simp
next
  case (waited i)
  with assms(3,4) stress_end_effect(1) [of b s w s' w'] show ?thesis by (auto simp: known_clean_def unknown_idle_def)
next
  case drained
  with assms(3,4) stress_end_effect(2) [of b s w s' w'] show ?thesis by (simp add: known_clean_def unknown_idle_def)
next
  case joined
  with assms(3,4) stress_end_effect(3) [of b s w s' w'] show ?thesis by (simp add: known_clean_def unknown_idle_def)
qed (use assms(3,4) in \<open>auto simp: known_clean_def unknown_idle_def go_to_def dest: in_diffD\<close>)

lemma sreach_modes:
  assumes "sreach b d cfg c" and "in_int64 (c_Count cfg)"
  shows "(\<forall>i. Begin i \<in># t_gos (fst c) \<longrightarrow> 0 \<le> i) \<and> known_clean b (fst c) \<and> unknown_idle (fst c)"
  using assms(1)
proof induction
  case (start w0 s w)
  then have "t_gos s = {#}" "r_ConstructErrors (t_result s) = 0" "r_Dispatched (t_result s) = 0" "r_DispatchErrors (t_result s) = 0"
    by (auto simp: Stress_begin_def stress_init_def Let_def split: if_splits prod.splits)
  then show ?case by (simp add: known_clean_def unknown_idle_def)
next
  case (step c l c')
  from step.hyps(2) have "sstep b d (fst c, snd c) l (fst c', snd c')" by simp
  with stress_mode_step [OF this sreach_sinv [OF step.hyps(1) assms(2)]] modes_step [OF this] step.IH
  show ?case by blast
qed

section \<open>Progress\<close>

fun go_rank :: "'w stress_go \<Rightarrow> nat" where
  "go_rank (Begin i) = 4"
| "go_rank (Send job) = 3"
| "go_rank Release = 2"
| "go_rank Leave = 1"

fun main_rank :: "int \<Rightarrow> stress_main \<Rightarrow> nat" where
  "main_rank n (Loop i) = 6 * nat (n - i) + 3"
| "main_rank n (AtSem i) = 6 * nat (n - i) + 2"
| "main_rank n Draining = 2"
| "main_rank n Joining = 1"
| "main_rank n Returned = 0"

text \<open>Work left: every step but the sampler's and those of the rest of the program reduces it.\<close>

definition srank :: "'w stress \<Rightarrow> nat" where
  "srank s = main_rank (c_Count (t_cfg s)) (t_main s) + (\<Sum>g \<in># t_gos s. go_rank g)
     + (if t_sampler s then 1 else 0)"

lemma srank_go_to:
  assumes "g \<in># t_gos s" and "go_rank g' < go_rank g"
  shows "srank (go_to g g' s) < srank s" and "srank (go_to g g' (s\<lparr>t_result := r\<rparr>)) < srank s"
    and "srank (go_to g g' (s\<lparr>t_tokens := n\<rparr>)) < srank s"
  using assms by (auto simp: srank_def go_to_def dest!: multi_member_split)

lemma srank_step:
  assumes "sstep b d (s, w) l (s', w')" and "l \<in> {Main, Goroutine}" and "\<not> t_crashed s'" and "sinv cfg s"
  shows "srank s' < srank s"
  using assms(1)
proof cases
  case (add i)
  then show ?thesis by (simp add: srank_def)
next
  case (acquire i)
  with assms(4) have "i < c_Count (t_cfg s)" by (auto simp: sinv_def)
  with acquire show ?thesis by (simp add: srank_def)
next
  case (build i r)
  then show ?thesis by (simp add: go_build_def srank_go_to split: sum.splits)
next
  case (send job r)
  with assms(3) show ?thesis by (auto simp: go_send_def srank_go_to split: go.splits option.splits)
next
  case release
  then show ?thesis by (simp add: srank_go_to)
next
  case leave
  then show ?thesis by (auto simp: srank_def dest!: multi_member_split)
next
  case (waited i)
  with stress_end_effect(1) [of b s w s' w'] show ?thesis by (auto simp: srank_def)
next
  case drained
  with stress_end_effect(2) [of b s w s' w'] show ?thesis by (simp add: srank_def)
next
  case joined
  with stress_end_effect(3) [of b s w s' w'] show ?thesis by (simp add: srank_def)
next
  case stop
  then show ?thesis by (simp add: srank_def)
qed (use assms(2) in auto)

text \<open>A run that has not returned can take such a step, unless the process has crashed.\<close>

lemma goroutine_moves:
  assumes "g \<in># t_gos s" and "\<not> t_crashed s"
  shows "\<exists>s' w'. sstep b d (s, w) Goroutine (s', w')"
proof (cases g)
  case (Begin i)
  obtain r w' where "run_state (stressJobFor b (c_Mode (t_cfg s)) i) w = (r, w')" by fastforce
  with assms Begin show ?thesis by (blast intro: sstep.build)
next
  case (Send job)
  obtain r w' where "run_state (d job) w = (r, w')" by fastforce
  with assms Send show ?thesis by (blast intro: sstep.send)
qed (use assms in \<open>blast intro: sstep.release sstep.leave\<close>)+

lemma stress_progress:
  assumes "sinv cfg s" and "\<not> t_crashed s" and "t_main s \<noteq> Returned"
  shows "\<exists>l s' w'. l \<in> {Main, Goroutine} \<and> sstep b d (s, w) l (s', w')"
proof (cases "t_gos s = {#}")
  case False
  then obtain g where "g \<in># t_gos s" by (auto simp: multiset_nonemptyE)
  with goroutine_moves [OF this assms(2), of b d w] show ?thesis by blast
next
  case True
  have main: "\<exists>s' w'. sstep b d (s, w) Main (s', w')"
  proof (cases "t_main s")
    case (Loop i)
    show ?thesis
    proof (cases "i < c_Count (t_cfg s)")
      case True
      with Loop assms(2) show ?thesis by (blast intro: sstep.add)
    next
      case False
      with True Loop assms(1) have "t_wg s = 0" by (simp add: sinv_def)
      with False Loop assms(2) sstep.waited [of s i b w] show ?thesis by (metis prod.exhaust)
    qed
  next
    case (AtSem i)
    with True assms(1) have "t_tokens s < c_Concurrency (t_cfg s)" by (simp add: sinv_def)
    with AtSem assms(2) show ?thesis by (blast intro: sstep.acquire)
  next
    case Draining
    with assms(2) sstep.drained [of s b w] show ?thesis by (metis prod.exhaust)
  next
    case Joining
    with assms(1) have "t_stop s" by (simp add: sinv_def)
    show ?thesis
    proof (cases "t_sampler s")
      case True
      with \<open>t_stop s\<close> assms(2) show ?thesis by (blast intro: sstep.stop)
    next
      case False
      with Joining assms(2) sstep.joined [of s b w] show ?thesis by (metis prod.exhaust)
    qed
  next
    case Returned
    with assms(3) show ?thesis by simp
  qed
  then show ?thesis by blast
qed

text \<open>If no dispatch panics, nothing crashes and the run can be completed from every point.\<close>

lemma step_no_crash:
  assumes "sstep b d (s, w) l (s', w')" and "\<And>job. returns (d job)" and "\<not> t_crashed s"
  shows "\<not> t_crashed s'"
  using assms(1)
proof cases
  case (send job r)
  have "wp (d job) (\<lambda>r _. \<exists>x. r = Ret x) w" using assms(2) [of job] by (simp add: returns_def)
  from wpD [OF this, of r w'] send have "\<exists>x. r = Ret x" by simp
  with send assms(3) show ?thesis by (auto simp: go_send_def split: option.splits)
next
  case (build i r)
  with assms(3) show ?thesis by (auto simp: go_build_def split: sum.splits)
next
  case (waited i)
  with assms(3) stress_end_effect(1) [of b s w s' w'] show ?thesis by auto
next
  case drained
  with assms(3) stress_end_effect(2) [of b s w s' w'] show ?thesis by simp
next
  case joined
  with assms(3) stress_end_effect(3) [of b s w s' w'] show ?thesis by simp
qed (use assms(3) in auto)

lemma stress_completes:
  assumes "sinv cfg s" and "in_int64 (c_Count cfg)" and "\<And>job. returns (d job)" and "\<not> t_crashed s"
  shows "\<exists>s' w'. (\<lambda>c c'. \<exists>l. sstep b d c l c')\<^sup>*\<^sup>* (s, w) (s', w') \<and> t_main s' = Returned"
  using assms(1,4)
proof (induction "srank s" arbitrary: s w rule: less_induct)
  case less
  show ?case
  proof (cases "t_main s = Returned")
    case False
    obtain l s1 w1 where l: "l \<in> {Main, Goroutine}" and step: "sstep b d (s, w) l (s1, w1)"
      using stress_progress [OF less.prems(1,2) False] by blast
    have ok: "\<not> t_crashed s1" "sinv cfg s1"
      using step_no_crash [OF step assms(3) less.prems(2)] sinv_step [OF step less.prems(1) assms(2)] by simp_all
    from less.hyps [OF srank_step [OF step l ok(1) less.prems(1)] ok(2,1), of w1]
    obtain s' w' where rest: "(\<lambda>c c'. \<exists>l. sstep b d c l c')\<^sup>*\<^sup>* (s1, w1) (s', w')" "t_main s' = Returned" by blast
    have "\<exists>l. sstep b d (s, w) l (s1, w1)" using step by blast
    from converse_rtranclp_into_rtranclp [of "\<lambda>c c'. \<exists>l. sstep b d c l c'", OF this rest(1)] rest(2) show ?thesis by blast
  qed blast
qed

lemma sreach_steps:
  assumes "sreach b d cfg c" and "(\<lambda>c c'. \<exists>l. sstep b d c l c')\<^sup>*\<^sup>* c c'"
  shows "sreach b d cfg c'"
  using assms(2,1) by induction (blast intro: sreach.step)+

end
