(* ===== verification/Reaper.thy ===== *)
theory Reaper
  imports Redis_Scanner
begin

text \<open>
  The lock reaper of the redis backend (\<open>api/reaper.go\<close>): the counters, the transition of an
  expired lock (\<open>requeueExpiredLock\<close>), one scan pass (\<open>runReaperTick\<close>) and the ticker loop
  (\<open>reapStaleLocks\<close>). The page loop takes fuel, the number of \<open>SCAN\<close> calls allowed; the
  lemmas say when it is enough.
\<close>

section \<open>Counters\<close>

text \<open>The package-level atomic counters; a snapshot of them is what \<open>ReaperStats\<close> returns.\<close>

record reaper_stats =
  Ticks :: "64 word"
  ScannedKeys :: "64 word"
  Requeued :: "64 word"
  Permafailed :: "64 word"
  SkippedRecent :: "64 word"
  SkippedDupePending :: "64 word"
  Errors :: "64 word"

text \<open>The local counters of one tick.\<close>

record tally =
  scanned :: int
  requeued :: int
  failed :: int
  recent :: int
  dupes :: int
  errs :: int

definition zero_tally :: tally where
  "zero_tally = \<lparr>scanned = 0, requeued = 0, failed = 0, recent = 0, dupes = 0, errs = 0\<rparr>"

definition add_tick :: "tally \<Rightarrow> reaper_stats \<Rightarrow> reaper_stats" where
  "add_tick t s = s\<lparr>Ticks := Ticks s + 1, ScannedKeys := ScannedKeys s + word_of_int (scanned t),
     Requeued := Requeued s + word_of_int (requeued t),
     Permafailed := Permafailed s + word_of_int (failed t),
     SkippedRecent := SkippedRecent s + word_of_int (recent t),
     SkippedDupePending := SkippedDupePending s + word_of_int (dupes t),
     Errors := Errors s + word_of_int (errs t)\<rparr>"

section \<open>The transition of an expired lock\<close>

datatype reapOutcome = ReapRequeued | ReapPermafailed

definition lock_expired :: "int \<Rightarrow> string" where
  "lock_expired timeout = ''lock expired after '' @ itoa timeout @ ''s''"

definition expire :: "'w job \<Rightarrow> int \<Rightarrow> 'w job" where
  "expire j timeout = j\<lparr>j_RetryCounter := wrap64 (j_RetryCounter j + 1), j_Exception := lock_expired timeout\<rparr>"

definition reap_requeue ::
  "'w env \<Rightarrow> string \<Rightarrow> string \<Rightarrow> 'w job \<Rightarrow> ('w, reapOutcome \<times> string option) state" where
  "reap_requeue e queue jobID j = do {
     now \<leftarrow> e_Now e;
     let t = now + seconds (wrap64 (j_RetryCounter j * 5));
     let j1 = j\<lparr>j_RetryAfter := format_rfc3339 (e_Local e t) t, j_Status := statusPending, j_LockedAt := ''''\<rparr>;
     (_, err) \<leftarrow> e_Do e (''HSET'' # sprintf formatLocked [queue, jobID] # e_AddFlat e j1);
     (if err \<noteq> None then State_Monad.return (ReapRequeued, err)
      else do {
        rerr \<leftarrow> setRedisKey (Some e) queue jobID formatLocked formatPending;
        State_Monad.return
          (case rerr of
             None \<Rightarrow> (ReapRequeued, None)
           | Some m \<Rightarrow> if str_contains m ''no such key'' then (ReapRequeued, None)
                       else (ReapRequeued, Some m)) }) }"

definition reap_permafail ::
  "'w env \<Rightarrow> 'w queue \<Rightarrow> string \<Rightarrow> string \<Rightarrow> 'w job \<Rightarrow> ('w, reapOutcome \<times> string option) state" where
  "reap_permafail e q queue jobID j = do {
     now \<leftarrow> now_utc e;
     created \<leftarrow> e_Now e;
     updated \<leftarrow> e_Now e;
     let j1 = j\<lparr>j_FailedAt := now, j_CreatedAt := created, j_UpdatedAt := updated,
                j_Status := statusFailed, j_LockedAt := ''''\<rparr>;
     (_, err) \<leftarrow> e_Do e (''HSET'' # sprintf formatLocked [queue, jobID] # e_AddFlat e j1);
     (if err \<noteq> None then State_Monad.return (ReapPermafailed, err)
      else do {
        rerr \<leftarrow> setRedisKey (Some e) queue jobID formatLocked formatFailed;
        (case rerr of
           Some m \<Rightarrow> State_Monad.return
             (ReapPermafailed, if str_contains m ''no such key'' then None else Some m)
         | None \<Rightarrow> do {
             _ \<leftarrow> (if q_DB q then e_Insert e ''failed_jobs'' j1 else State_Monad.return None);
             State_Monad.return (ReapPermafailed, None) }) }) }"

definition requeueExpiredLock ::
  "'w env \<Rightarrow> 'w queue \<Rightarrow> string \<Rightarrow> string \<Rightarrow> 'w job \<Rightarrow> int \<Rightarrow> ('w, reapOutcome \<times> string option) state" where
  "requeueExpiredLock e q queue jobID j0 timeout =
     (let j = expire j0 timeout
      in if j_Retry j \<and> j_RetryCounter j < q_MaxAttempts q
         then reap_requeue e queue jobID j
         else reap_permafail e q queue jobID j)"

section \<open>One scan pass\<close>

text \<open>When the lock was taken: \<open>LockedAt\<close>, or \<open>ReservedAt\<close> for hashes without it.\<close>

definition locked_since :: "'w job \<Rightarrow> time option" where
  "locked_since job =
     (case parse_rfc3339 (j_LockedAt job) of
        Some t \<Rightarrow> if j_LockedAt job = '''' then parse_rfc3339 (j_ReservedAt job) else Some t
      | None \<Rightarrow> parse_rfc3339 (j_ReservedAt job))"

definition lock_timeout :: "'w queue \<Rightarrow> 'w job \<Rightarrow> int" where
  "lock_timeout q job = (if j_LockFor job > 0 then j_LockFor job else q_LockTimeout q)"

definition reap_expired ::
  "'w env \<Rightarrow> 'w queue \<Rightarrow> string \<Rightarrow> string \<Rightarrow> 'w job \<Rightarrow> tally \<Rightarrow> ('w, tally) state" where
  "reap_expired e q queue jobID job t = do {
     rep \<leftarrow> e_Do e [''EXISTS'', sprintf formatPending [queue, jobID]];
     (case e_Int e rep of
        Inl _ \<Rightarrow> State_Monad.return (t\<lparr>errs := errs t + 1\<rparr>)
      | Inr n \<Rightarrow>
          if n = 1 then do {
            (_, derr) \<leftarrow> e_Do e [''DEL'', sprintf formatLocked [queue, jobID]];
            State_Monad.return
              (t\<lparr>dupes := dupes t + 1, errs := errs t + (if derr \<noteq> None then 1 else 0)\<rparr>) }
          else do {
            (outcome, err) \<leftarrow> requeueExpiredLock e q queue jobID job (lock_timeout q job);
            State_Monad.return
              (if err \<noteq> None then t\<lparr>errs := errs t + 1\<rparr>
               else case outcome of
                      ReapRequeued \<Rightarrow> t\<lparr>requeued := requeued t + 1\<rparr>
                    | ReapPermafailed \<Rightarrow> t\<lparr>failed := failed t + 1\<rparr>) }) }"

definition reap_key :: "'w env \<Rightarrow> 'w queue \<Rightarrow> tally \<Rightarrow> reply \<Rightarrow> ('w, tally) state" where
  "reap_key e q t0 r =
     (let key = (case reply_bytes r of Some b \<Rightarrow> b | None \<Rightarrow> []);
          keyParts = split_on (CHR '':'') key; n = length keyParts
      in if n < 4 then State_Monad.return t0
         else do {
           let jobID = keyParts ! (n - 1);
           let queue = keyParts ! (n - 3);
           let t = t0\<lparr>scanned := scanned t0 + 1\<rparr>;
           v \<leftarrow> getRedisValue (Some e) queue jobID formatLocked;
           (case v of
              Inl err \<Rightarrow> State_Monad.return
                (if str_contains err ''no such key'' then t else t\<lparr>errs := errs t + 1\<rparr>)
            | Inr job \<Rightarrow>
                (case locked_since job of
                   None \<Rightarrow> State_Monad.return t
                 | Some lockedAt \<Rightarrow> do {
                     now \<leftarrow> e_Now e;
                     (if time_sub now lockedAt < seconds (lock_timeout q job)
                      then State_Monad.return (t\<lparr>recent := recent t + 1\<rparr>)
                      else reap_expired e q queue jobID job t) })) })"

fun reap_keys :: "'w env \<Rightarrow> 'w queue \<Rightarrow> tally \<Rightarrow> reply list \<Rightarrow> ('w, tally) state" where
  "reap_keys e q t [] = State_Monad.return t"
| "reap_keys e q t (r # rs) = do { t' \<leftarrow> reap_key e q t r; reap_keys e q t' rs }"

text \<open>The checks on a \<open>SCAN\<close> reply: the page, with the next cursor, or \<open>None\<close> where the
  code counts an error and leaves the loop.\<close>

definition scan_page :: "reply \<times> string option \<Rightarrow> (int \<times> reply list) option" where
  "scan_page rep =
     (case rep of (reply, err) \<Rightarrow>
        if err \<noteq> None then None
        else (case reply_list reply of
                Some [cursorPart, dataPart] \<Rightarrow>
                  (case reply_bytes cursorPart of
                     None \<Rightarrow> None
                   | Some b \<Rightarrow>
                       (case atoi b of
                          (nextCursor, None) \<Rightarrow> map_option (Pair nextCursor) (reply_list dataPart)
                        | _ \<Rightarrow> None))
              | _ \<Rightarrow> None))"

fun reap_pages :: "nat \<Rightarrow> 'w env \<Rightarrow> 'w queue \<Rightarrow> int \<Rightarrow> tally \<Rightarrow> ('w, tally option) state" where
  "reap_pages 0 e q cursor t = State_Monad.return None"
| "reap_pages (Suc n) e q cursor t = do {
     sd \<leftarrow> State (\<lambda>w. (e_shutdown e w, w));
     (if sd then State_Monad.return (Some t)
      else do {
        rep \<leftarrow> e_Do e [''SCAN'', itoa cursor, ''MATCH'', ''queues:*:locked:*'', ''COUNT'', ''100''];
        (case scan_page rep of
           None \<Rightarrow> State_Monad.return (Some (t\<lparr>errs := errs t + 1\<rparr>))
         | Some (nextCursor, data) \<Rightarrow> do {
             t' \<leftarrow> reap_keys e q t data;
             (if nextCursor = 0 then State_Monad.return (Some t')
              else reap_pages n e q nextCursor t') }) }) }"

definition runReaperTick ::
  "nat \<Rightarrow> 'w env \<Rightarrow> 'w queue \<Rightarrow> reaper_stats \<Rightarrow> ('w, reaper_stats option) state" where
  "runReaperTick n e q stats = do {
     r \<leftarrow> reap_pages n e q 0 zero_tally;
     State_Monad.return (map_option (\<lambda>t. add_tick t stats) r) }"

text \<open>The ticker loop, for a number of ticks. \<open>time.NewTicker\<close> panics on a period that is not
  positive; waiting for the ticker is sleeping for at most its period. \<open>ReaperStuck\<close> is a tick
  whose fuel did not suffice.\<close>

datatype reaper = ReaperExited reaper_stats | ReaperPanic | ReaperTicking reaper_stats | ReaperStuck

fun reaper_loop :: "nat \<Rightarrow> nat \<Rightarrow> 'w env \<Rightarrow> 'w queue \<Rightarrow> reaper_stats \<Rightarrow> ('w, reaper) state" where
  "reaper_loop 0 n e q s = State_Monad.return (ReaperTicking s)"
| "reaper_loop (Suc m) n e q s = do {
     sd \<leftarrow> State (\<lambda>w. (e_shutdown e w, w));
     (if sd then State_Monad.return (ReaperExited s)
      else do {
        e_Sleep e (seconds (q_ReaperInterval q));
        sd' \<leftarrow> State (\<lambda>w. (e_shutdown e w, w));
        (if sd' then State_Monad.return (ReaperExited s)
         else do {
           r \<leftarrow> runReaperTick n e q s;
           (case r of None \<Rightarrow> State_Monad.return ReaperStuck
                    | Some s' \<Rightarrow> reaper_loop m n e q s') }) }) }"

definition reapStaleLocks ::
  "nat \<Rightarrow> nat \<Rightarrow> 'w env \<Rightarrow> 'w queue \<Rightarrow> reaper_stats \<Rightarrow> ('w, reaper) state" where
  "reapStaleLocks m n e q s =
     (if seconds (q_ReaperInterval q) \<le> 0 then State_Monad.return ReaperPanic
      else reaper_loop m n e q s)"

section \<open>The reaper loses no job\<close>

lemma ident_expire [simp]: "ident (expire j timeout) = ident j"
  by (simp add: expire_def)

lemma reap_key_parts:
  assumes "4 \<le> length (split_on (CHR '':'') key)"
  shows "key_parts key = Some (split_on (CHR '':'') key ! (length (split_on (CHR '':'') key) - 3),
                               split_on (CHR '':'') key ! (length (split_on (CHR '':'') key) - 1))"
  using assms by (simp add: key_parts_def Let_def)

context redis_server
begin

text \<open>Writing all fields of a job under its locked key and renaming it, as both transitions do.\<close>

lemma hset_rename_conserves:
  assumes "conserves (job_keys queue i) (ident j) m (ks w)" and "new = formatPending \<or> new = formatFailed"
    and "\<And>rerr w'. conserves (job_keys queue i) (ident j) m (ks w') \<Longrightarrow> wp (k rerr) Q w'"
    and "\<And>err w'. conserves (job_keys queue i) (ident j) m (ks w') \<Longrightarrow> wp (k' err) Q w'"
  shows "wp (do {
     (r, err) \<leftarrow> e_Do e (''HSET'' # sprintf formatLocked [queue, i] # e_AddFlat e j);
     (if err \<noteq> None then k' err
      else do { rerr \<leftarrow> setRedisKey (Some e) queue i formatLocked new; k rerr }) }) Q w"
  unfolding wp_bind
proof (rule wp_mono [OF hset_job], goal_cases)
  case (1 rep w1)
  obtain r err where rep: "rep = (r, err)" by (cases rep)
  show ?case
  proof (cases err)
    case None
    with 1 rep have ks1: "ks w1 = (ks w)(sprintf formatLocked [queue, i] \<mapsto> redis_view j)" by simp
    have new: "new \<noteq> []" "sprintf new [queue, i] \<in> job_keys queue i"
      using assms(2) by (elim disjE; simp)+
    have "wp (setRedisKey (Some e) queue i formatLocked new)
        (\<lambda>_ w'. conserves (job_keys queue i) (ident j) m (ks w')) w1"
      by (rule wp_mono [OF setRedisKey_ks])
        (use new assms(1) ks1 in \<open>auto split: if_splits simp: conserves_intros\<close>)
    then show ?thesis
      unfolding rep prod.case None simp_thms if_False wp_bind by (rule wp_mono) (rule assms(3))
  next
    case (Some m)
    with 1 rep assms(1,4) show ?thesis by (simp add: wp_simps)
  qed
qed

lemma requeueExpiredLock_conserves:
  assumes "conserves (job_keys queue i) (ident j) m (ks w)"
  shows "wp (requeueExpiredLock e q queue i j timeout)
     (\<lambda>_ w'. conserves (job_keys queue i) (ident j) m (ks w')) w"
proof -
  let ?Q = "\<lambda>_ w'. conserves (job_keys queue i) (ident j) m (ks w')"
  have "wp (reap_requeue e queue i (expire j timeout)) ?Q w"
    unfolding reap_requeue_def wp_bind Let_def
  proof (rule wp_mono [OF now_ks], goal_cases)
    case (1 now w1)
    show ?case
      unfolding wp_bind [symmetric]
      by (rule hset_rename_conserves) (use assms 1 in \<open>auto simp: wp_simps\<close>)
  qed
  moreover have "wp (reap_permafail e q queue i (expire j timeout)) ?Q w"
    unfolding reap_permafail_def wp_bind Let_def
  proof (rule wp_mono [OF now_utc_ks], rule wp_mono [OF now_ks], rule wp_mono [OF now_ks], goal_cases)
    case (1 now w1 c w2 u w3)
    show ?case
      unfolding wp_bind [symmetric]
      by (rule hset_rename_conserves)
        (use assms 1 in \<open>auto simp: wp_simps split: option.split intro!: wp_mono [OF insert_ks]\<close>)
  qed
  ultimately show ?thesis by (simp add: requeueExpiredLock_def Let_def)
qed

lemma reap_expired_no_loss:
  assumes "jobs_ok G (ks w)" and "clean_name queue" and "clean_name i"
    and "ks w (sprintf formatLocked [queue, i]) = Some job"
  shows "wp (reap_expired e q queue i job t) (\<lambda>_ w'. no_loss G (ks w) (ks w')) w"
proof -
  from jobs_okD [OF assms(1-3) job_keys_mem(1) assms(4)] have job: "j_ID job = i" "ident job = G queue i" by simp_all
  then have fstG: "fst (G queue i) = i" by (metis fst_conv ident_def)
  note to_no_loss = conserves_no_loss [OF assms(1) _ assms(2,3) fstG]
  show ?thesis
    unfolding reap_expired_def wp_bind
  proof (rule wp_mono [OF exists], goal_cases)
    case (1 rep w1)
    have del: "wp (e_Do e [''DEL'', sprintf formatLocked [queue, i]]) (\<lambda>_ w'. no_loss G (ks w) (ks w')) w1"
      if "e_Int e rep = Inr 1"
    proof -
      from 1 that obtain j2 where P: "ks w (sprintf formatPending [queue, i]) = Some j2"
        by (auto split: if_splits)
      with jobs_okD [OF assms(1-3) job_keys_mem(2)] have "ident j2 = G queue i" by blast
      with P have "conserves (job_keys queue i) (G queue i) (ks w) ((ks w)(sprintf formatLocked [queue, i] := None))"
        unfolding conserves_def by (auto intro!: bexI [of _ "sprintf formatPending [queue, i]"])
      then show ?thesis
        by - (rule wp_mono [OF del], use 1 assms(1) to_no_loss in \<open>auto simp: no_loss_refl split: if_splits\<close>)
    qed
    have "conserves (job_keys queue i) (ident job) (ks w) (ks w1)"
      using 1 conserves_self [of "sprintf formatLocked [queue, i]" "job_keys queue i" "ks w" job] assms(4) by simp
    then have "wp (requeueExpiredLock e q queue i job (lock_timeout q job)) (\<lambda>_ w'. no_loss G (ks w) (ks w')) w1"
      by - (rule wp_mono [OF requeueExpiredLock_conserves], assumption, rule to_no_loss, simp add: job)
    with del 1 assms(1) show ?case
      by (cases "e_Int e rep") (auto simp: wp_bind wp_return no_loss_refl case_prod_unfold)
  qed
qed

text \<open>A visit of the reaper leaves the store as it is or finds an expired lock.\<close>

lemma reap_key_wp:
  assumes "\<And>t w'. ks w' = ks w \<Longrightarrow> Q t w'"
    and "\<And>queue i job w'. clean_name queue \<Longrightarrow> clean_name i \<Longrightarrow> ks w (sprintf formatLocked [queue, i]) = Some job \<Longrightarrow>
      ks w' = ks w \<Longrightarrow> wp (reap_expired e q queue i job (t\<lparr>scanned := scanned t + 1\<rparr>)) Q w'"
  shows "wp (reap_key e q t r) Q w"
proof -
  define key where "key = (case reply_bytes r of Some b \<Rightarrow> b | None \<Rightarrow> [])"
  define ps where "ps = split_on (CHR '':'') key"
  show ?thesis
  proof (cases "length ps < 4")
    case True
    then show ?thesis by (simp add: reap_key_def Let_def wp_return assms(1) flip: key_def ps_def)
  next
    case False
    define queue where "queue = ps ! (length ps - 3)"
    define i where "i = ps ! (length ps - 1)"
    have clean: "clean_name queue" "clean_name i"
      using key_parts_clean_name [OF reap_key_parts [of key]] False by (simp_all add: ps_def queue_def i_def)
    show ?thesis
      unfolding reap_key_def key_def [symmetric] ps_def [symmetric] Let_def i_def [symmetric] queue_def [symmetric]
        if_not_P [OF False] wp_bind
    proof (rule wp_mono [OF getRedisValue_ks], goal_cases)
      case (1 v w1)
      have "wp (e_Now e) (\<lambda>now. wp (if time_sub now since < seconds (lock_timeout q job)
            then State_Monad.return (t\<lparr>scanned := scanned t + 1, recent := recent (t\<lparr>scanned := scanned t + 1\<rparr>) + 1\<rparr>)
            else reap_expired e q queue i job (t\<lparr>scanned := scanned t + 1\<rparr>)) Q) w1"
        if "v = Inr job" "locked_since job = Some since" for job since
      proof (rule wp_mono [OF now_ks], goal_cases)
        case (1 now w2)
        have "ks w (sprintf formatLocked [queue, i]) = Some job"
          using that \<open>ks w1 = ks w \<and> _\<close> by (cases "ks w (sprintf formatLocked [queue, i])")
            (auto simp: locked_since_def zero_job_def parse_rfc3339_Nil)
        with 1 \<open>ks w1 = ks w \<and> _\<close> show ?case using assms(1) assms(2) [OF clean] by (simp add: wp_if wp_return)
      qed
      with 1 show ?case by (auto simp: wp_bind wp_return assms(1) split: sum.split option.split)
    qed
  qed
qed

lemma reap_key_no_loss:
  assumes "jobs_ok G (ks w)"
  shows "wp (reap_key e q t r) (\<lambda>_ w'. no_loss G (ks w) (ks w')) w"
proof (rule reap_key_wp, goal_cases)
  case (1 t w')
  with assms show ?case by (simp add: no_loss_refl)
next
  case (2 queue i job w')
  then show ?case using reap_expired_no_loss [of G w' queue i job] assms by simp
qed

lemma reap_keys_no_loss:
  "jobs_ok G (ks w) \<Longrightarrow> wp (reap_keys e q t rs) (\<lambda>_ w'. no_loss G (ks w) (ks w')) w"
proof (induction rs arbitrary: w t)
  case Nil
  then show ?case by (simp add: wp_return no_loss_refl)
next
  case (Cons r rs)
  show ?case
    unfolding reap_keys.simps wp_bind
  proof (rule wp_mono [OF reap_key_no_loss [OF Cons.prems]], goal_cases)
    case (1 t' w1)
    then have "jobs_ok G (ks w1)" by (simp add: no_loss_def)
    from Cons.IH [OF this] show ?case by (rule wp_mono) (rule no_loss_trans [OF 1])
  qed
qed

lemma reap_pages_no_loss:
  "jobs_ok G (ks w) \<Longrightarrow> wp (reap_pages n e q cursor t) (\<lambda>_ w'. no_loss G (ks w) (ks w')) w"
proof (induction n arbitrary: w cursor t)
  case 0
  then show ?case by (simp add: wp_return no_loss_refl)
next
  case (Suc n)
  have "wp (e_Do e [''SCAN'', itoa cursor, ''MATCH'', ''queues:*:locked:*'', ''COUNT'', ''100''])
    (\<lambda>rep. wp (case scan_page rep of
           None \<Rightarrow> State_Monad.return (Some (t\<lparr>errs := errs t + 1\<rparr>))
         | Some (nextCursor, data) \<Rightarrow> do {
             t' \<leftarrow> reap_keys e q t data;
             (if nextCursor = 0 then State_Monad.return (Some t')
              else reap_pages n e q nextCursor t') }) (\<lambda>_ w'. no_loss G (ks w) (ks w'))) w"
  proof (rule wp_mono [OF scan_ks], goal_cases)
    case (1 rep w1)
    show ?case
    proof (cases "scan_page rep")
      case None
      then show ?thesis using 1 Suc.prems by (simp add: wp_return no_loss_refl)
    next
      case (Some p)
      obtain nxt data where p: "p = (nxt, data)" by (cases p)
      have "jobs_ok G (ks w1)" using 1 Suc.prems by simp
      from reap_keys_no_loss [OF this] show ?thesis
        unfolding Some p option.case prod.case wp_bind
      proof (rule wp_mono, goal_cases)
        case (1 t' w2)
        then have "jobs_ok G (ks w2)" by (simp add: no_loss_def)
        from wp_mono [OF Suc.IH [OF this] no_loss_trans [OF 1]] 1 \<open>ks w1 = ks w\<close>
        show ?case by (simp add: wp_if wp_return)
      qed
    qed
  qed
  then show ?case
    by (simp add: wp_bind wp_def [of "State _"] wp_return no_loss_refl Suc.prems)
qed

lemma runReaperTick_no_loss:
  "jobs_ok G (ks w) \<Longrightarrow> wp (runReaperTick n e q s) (\<lambda>_ w'. no_loss G (ks w) (ks w')) w"
  unfolding runReaperTick_def wp_bind wp_return by (rule reap_pages_no_loss)

end

section \<open>What a tick does with one lock\<close>

text \<open>The states the reaper leaves a job in.\<close>

definition requeued_job :: "'w env \<Rightarrow> 'w job \<Rightarrow> int \<Rightarrow> time \<Rightarrow> 'w job" where
  "requeued_job e j timeout now =
     (let t = now + seconds (wrap64 (j_RetryCounter (expire j timeout) * 5))
      in redis_view ((expire j timeout)\<lparr>j_RetryAfter := format_rfc3339 (e_Local e t) t,
           j_Status := statusPending, j_LockedAt := []\<rparr>))"

definition expired_job :: "'w job \<Rightarrow> int \<Rightarrow> time \<Rightarrow> 'w job" where
  "expired_job j timeout now =
     redis_view ((expire j timeout)\<lparr>j_FailedAt := format_rfc3339 0 now, j_Status := statusFailed, j_LockedAt := []\<rparr>)"

context redis_live
begin

lemma hset_rename_live:
  assumes "new = formatPending \<or> new = formatFailed"
    and "\<And>w'. ks w' = (ks w)(sprintf formatLocked [queue, i] := None, sprintf new [queue, i] \<mapsto> redis_view j)
           \<Longrightarrow> wp (k None) Q w'"
  shows "wp (do {
     (r, err) \<leftarrow> e_Do e (''HSET'' # sprintf formatLocked [queue, i] # e_AddFlat e j);
     (if err \<noteq> None then k' err
      else do { rerr \<leftarrow> setRedisKey (Some e) queue i formatLocked new; k rerr }) }) Q w"
  unfolding wp_bind
proof (rule wp_mono [OF hset_job_live], goal_cases)
  case (1 rep w1)
  then have L1: "ks w1 (sprintf formatLocked [queue, i]) = Some (redis_view j)" by (cases rep) simp
  have new: "new \<noteq> []" using assms(1) by (elim disjE) simp_all
  have "wp (setRedisKey (Some e) queue i formatLocked new) (\<lambda>rerr. wp (k rerr) Q) w1"
    by (rule wp_mono [OF setRedisKey_live [OF _ new L1]])
      (use 1 assms in \<open>cases rep, auto simp: fun_upd_twist\<close>)
  with 1 show ?case by (cases rep) (simp add: wp_bind)
qed

lemma requeueExpiredLock_requeue:
  assumes "j_Retry j" and "wrap64 (j_RetryCounter j + 1) < q_MaxAttempts q"
  shows "wp (requeueExpiredLock e q queue i j timeout)
     (\<lambda>r w'. r = (ReapRequeued, None) \<and> (\<exists>t. ks w' = (ks w)(sprintf formatLocked [queue, i] := None,
        sprintf formatPending [queue, i] \<mapsto> requeued_job e j timeout t))) w"
proof -
  have "requeueExpiredLock e q queue i j timeout = reap_requeue e queue i (expire j timeout)"
    using assms by (simp add: requeueExpiredLock_def expire_def)
  then show ?thesis
    unfolding reap_requeue_def wp_bind Let_def
  proof (simp only: wp_bind, intro wp_mono [OF now_ks], goal_cases)
    case (1 now w1)
    show ?case
      unfolding wp_bind [symmetric]
      by (rule hset_rename_live) (auto simp: wp_return 1 requeued_job_def Let_def)
  qed
qed

lemma requeueExpiredLock_permafail:
  assumes "\<not> (j_Retry j \<and> wrap64 (j_RetryCounter j + 1) < q_MaxAttempts q)"
  shows "wp (requeueExpiredLock e q queue i j timeout)
     (\<lambda>r w'. r = (ReapPermafailed, None) \<and> (\<exists>t. ks w' = (ks w)(sprintf formatLocked [queue, i] := None,
        sprintf formatFailed [queue, i] \<mapsto> expired_job j timeout t))) w"
proof -
  have "requeueExpiredLock e q queue i j timeout = reap_permafail e q queue i (expire j timeout)"
    using assms by (auto simp: requeueExpiredLock_def expire_def Let_def)
  then show ?thesis
    unfolding reap_permafail_def wp_bind Let_def
  proof (simp only: wp_bind, intro wp_mono [OF now_utc_live] wp_mono [OF now_ks], goal_cases)
    case (1 now w1 c w2 u w3)
    then obtain t where "now = format_rfc3339 0 t" by auto
    then have view: "redis_view ((expire j timeout)\<lparr>j_FailedAt := now, j_CreatedAt := c, j_UpdatedAt := u,
        j_Status := statusFailed, j_LockedAt := []\<rparr>) = expired_job j timeout t"
      by (simp add: expired_job_def redis_view_def)
    show ?case
      unfolding wp_bind [symmetric]
      by (rule hset_rename_live)
        (auto simp: wp_bind wp_return 1 view intro!: wp_mono [OF insert_ks])
  qed
qed

text \<open>One locked key, up to the age check.\<close>

lemma reap_key_locked:
  assumes "clean_name queue" and "clean_name i" and "ks w (sprintf formatLocked [queue, i]) = Some j"
    and "locked_since j = Some since" and "clock_shows e P"
    and "\<And>now w'. P now \<Longrightarrow> ks w' = ks w \<Longrightarrow>
      wp (if time_sub now since < seconds (lock_timeout q j)
          then State_Monad.return (t\<lparr>scanned := scanned t + 1, recent := recent t + 1\<rparr>)
          else reap_expired e q queue i j (t\<lparr>scanned := scanned t + 1\<rparr>)) Q w'"
  shows "wp (reap_key e q t (RBulk (sprintf formatLocked [queue, i]))) Q w"
proof -
  have sp: "split_on (CHR '':'') (sprintf formatLocked [queue, i]) = [''queues'', queue, ''locked'', i]"
    using assms(1,2) split_on_key [of i "''locked''" queue]
    by (simp add: clean_name_def sprintf_keys split_on_no_sep)
  have get: "wp (getRedisValue (Some e) queue i formatLocked) (\<lambda>r w'. ks w' = ks w \<and> r = Inr j) w"
    by (rule wp_mono [OF wp_conj [OF getRedisValue_ks getRedisValue_ok]]) (auto simp: assms(3))
  have now: "wp (e_Now e) (\<lambda>now w'. ks w' = ks w \<and> P now) w1" if "ks w1 = ks w" for w1
    by (rule wp_mono [OF wp_conj [OF now_ks clock_showsD [OF assms(5)]]]) (simp add: that)
  show ?thesis
    unfolding reap_key_def reply_bytes_def reply.case option.case Let_def sp
  proof (simp add: wp_bind, rule wp_mono [OF get], goal_cases)
    case (1 v w1)
    then have "wp (e_Now e) (\<lambda>now. wp (if time_sub now since < seconds (lock_timeout q j)
          then State_Monad.return (t\<lparr>scanned := scanned t + 1, recent := recent t + 1\<rparr>)
          else reap_expired e q queue i j (t\<lparr>scanned := scanned t + 1\<rparr>)) Q) w1"
      by - (rule wp_mono [OF now], simp, rule assms(6), simp_all)
    with 1 show ?case
      by (simp add: assms(4) wp_bind cong: if_cong)
  qed
qed

lemma reap_key_recent:
  assumes "clean_name queue" and "clean_name i" and "ks w (sprintf formatLocked [queue, i]) = Some j"
    and "locked_since j = Some since" and "clock_shows e (\<lambda>now. time_sub now since < seconds (lock_timeout q j))"
  shows "wp (reap_key e q t (RBulk (sprintf formatLocked [queue, i])))
     (\<lambda>t' w'. ks w' = ks w \<and> t' = t\<lparr>scanned := scanned t + 1, recent := recent t + 1\<rparr>) w"
  by (rule reap_key_locked [OF assms]) (simp add: wp_return)

lemma exists_live:
  "wp (e_Do e [''EXISTS'', k]) (\<lambda>rep w'. ks w' = ks w \<and> e_Int e rep = Inr (if ks w k = None then 0 else 1)) w"
  by (rule wp_mono [OF wp_conj [OF exists exists_ok]]) auto

lemma del_live: "wp (e_Do e [''DEL'', k]) (\<lambda>(r, err) w'. err = None \<and> ks w' = (ks w)(k := None)) w"
  by (rule wp_mono [OF wp_conj [OF del del_ok]]) auto

lemma reap_key_dupe:
  assumes "clean_name queue" and "clean_name i" and "ks w (sprintf formatLocked [queue, i]) = Some j"
    and "locked_since j = Some since" and "clock_shows e (\<lambda>now. \<not> time_sub now since < seconds (lock_timeout q j))"
    and "ks w (sprintf formatPending [queue, i]) \<noteq> None"
  shows "wp (reap_key e q t (RBulk (sprintf formatLocked [queue, i])))
     (\<lambda>t' w'. ks w' = (ks w)(sprintf formatLocked [queue, i] := None)
        \<and> t' = t\<lparr>scanned := scanned t + 1, dupes := dupes t + 1\<rparr>) w"
proof (rule reap_key_locked [OF assms(1-5)], goal_cases)
  case (1 now w')
  have "wp (reap_expired e q queue i j (t\<lparr>scanned := scanned t + 1\<rparr>))
     (\<lambda>t' w'. ks w' = (ks w)(sprintf formatLocked [queue, i] := None)
        \<and> t' = t\<lparr>scanned := scanned t + 1, dupes := dupes t + 1\<rparr>) w'"
    unfolding reap_expired_def wp_bind
  proof (rule wp_mono [OF exists_live], goal_cases)
    case (1 rep w1)
    have "e_Int e rep = Inr 1" using 1 \<open>ks w' = ks w\<close> assms(6) by simp
    then show ?case
      by (simp add: wp_bind) (rule wp_mono [OF del_live], use 1 \<open>ks w' = ks w\<close> in \<open>auto simp: wp_return\<close>)
  qed
  with 1 show ?case by simp
qed

text \<open>An expired lock with no pending copy is requeued or failed, as \<open>requeueExpiredLock\<close> says.\<close>

lemma reap_key_expired:
  assumes "clean_name queue" and "clean_name i" and "ks w (sprintf formatLocked [queue, i]) = Some j"
    and "locked_since j = Some since" and "clock_shows e (\<lambda>now. \<not> time_sub now since < seconds (lock_timeout q j))"
    and "ks w (sprintf formatPending [queue, i]) = None"
    and "\<And>w'. ks w' = ks w \<Longrightarrow> wp (requeueExpiredLock e q queue i j (lock_timeout q j))
           (\<lambda>r w'. r = (out, None) \<and> Q w') w'"
  shows "wp (reap_key e q t (RBulk (sprintf formatLocked [queue, i])))
     (\<lambda>t' w'. Q w' \<and> t' = (case out of
          ReapRequeued \<Rightarrow> t\<lparr>scanned := scanned t + 1, requeued := requeued t + 1\<rparr>
        | ReapPermafailed \<Rightarrow> t\<lparr>scanned := scanned t + 1, failed := failed t + 1\<rparr>)) w"
proof (rule reap_key_locked [OF assms(1-5)], goal_cases)
  case (1 now w')
  have "wp (reap_expired e q queue i j (t\<lparr>scanned := scanned t + 1\<rparr>))
     (\<lambda>t' w'. Q w' \<and> t' = (case out of
          ReapRequeued \<Rightarrow> t\<lparr>scanned := scanned t + 1, requeued := requeued t + 1\<rparr>
        | ReapPermafailed \<Rightarrow> t\<lparr>scanned := scanned t + 1, failed := failed t + 1\<rparr>)) w'"
    unfolding reap_expired_def wp_bind
  proof (rule wp_mono [OF exists_live], goal_cases)
    case (1 rep w1)
    then have ex: "e_Int e rep = Inr 0" and ks1: "ks w1 = ks w" using \<open>ks w' = ks w\<close> assms(6) by simp_all
    show ?case
      unfolding ex by (simp add: wp_bind) (rule wp_mono [OF assms(7) [OF ks1]], auto simp: wp_return split: reapOutcome.split)
  qed
  with 1 show ?case by simp
qed

lemma reap_key_requeue:
  assumes "clean_name queue" and "clean_name i" and "ks w (sprintf formatLocked [queue, i]) = Some j"
    and "locked_since j = Some since" and "clock_shows e (\<lambda>now. \<not> time_sub now since < seconds (lock_timeout q j))"
    and "ks w (sprintf formatPending [queue, i]) = None"
    and "j_Retry j" and "wrap64 (j_RetryCounter j + 1) < q_MaxAttempts q"
  shows "wp (reap_key e q t (RBulk (sprintf formatLocked [queue, i])))
     (\<lambda>t' w'. (\<exists>now. ks w' = (ks w)(sprintf formatLocked [queue, i] := None,
          sprintf formatPending [queue, i] \<mapsto> requeued_job e j (lock_timeout q j) now))
        \<and> t' = t\<lparr>scanned := scanned t + 1, requeued := requeued t + 1\<rparr>) w"
  by (rule wp_mono [OF reap_key_expired [OF assms(1-6), where out = ReapRequeued]])
    (rule wp_mono [OF requeueExpiredLock_requeue [OF assms(7,8)]], auto)

lemma reap_key_permafail:
  assumes "clean_name queue" and "clean_name i" and "ks w (sprintf formatLocked [queue, i]) = Some j"
    and "locked_since j = Some since" and "clock_shows e (\<lambda>now. \<not> time_sub now since < seconds (lock_timeout q j))"
    and "ks w (sprintf formatPending [queue, i]) = None"
    and "\<not> (j_Retry j \<and> wrap64 (j_RetryCounter j + 1) < q_MaxAttempts q)"
  shows "wp (reap_key e q t (RBulk (sprintf formatLocked [queue, i])))
     (\<lambda>t' w'. (\<exists>now. ks w' = (ks w)(sprintf formatLocked [queue, i] := None,
          sprintf formatFailed [queue, i] \<mapsto> expired_job j (lock_timeout q j) now))
        \<and> t' = t\<lparr>scanned := scanned t + 1, failed := failed t + 1\<rparr>) w"
  by (rule wp_mono [OF reap_key_expired [OF assms(1-6), where out = ReapPermafailed]])
    (rule wp_mono [OF requeueExpiredLock_permafail [OF assms(7)]], auto)

end

section \<open>Counting and termination\<close>

text \<open>Every scanned key is counted in at most one outcome.\<close>

definition tally_ok :: "tally \<Rightarrow> bool" where
  "tally_ok t \<longleftrightarrow> 0 \<le> requeued t \<and> 0 \<le> failed t \<and> 0 \<le> recent t \<and> 0 \<le> dupes t \<and> 0 \<le> errs t
     \<and> requeued t + failed t + recent t + dupes t \<le> scanned t"

lemma reap_expired_tally:
  assumes "tally_ok (t\<lparr>scanned := scanned t - 1\<rparr>)"
  shows "wp (reap_expired e q queue i job t) (\<lambda>t' _. tally_ok t') w"
  unfolding reap_expired_def wp_bind
  by (rule wpI) (use assms in \<open>auto simp: wp_def tally_ok_def split: sum.splits prod.splits reapOutcome.splits\<close>)

lemma reap_key_tally: "tally_ok t \<Longrightarrow> wp (reap_key e q t r) (\<lambda>t' _. tally_ok t') w"
proof -
  assume t: "tally_ok t"
  let ?t = "t\<lparr>scanned := scanned t + 1\<rparr>"
  have ex: "wp (reap_expired e q queue i job ?t) (\<lambda>t' _. tally_ok t') w'" for queue i job w'
    by (rule reap_expired_tally) (use t in simp)
  have "tally_ok ?t" "tally_ok (?t\<lparr>errs := errs t + 1\<rparr>)" "tally_ok (?t\<lparr>recent := recent t + 1\<rparr>)"
    using t by (simp_all add: tally_ok_def)
  note tally = this
  show ?thesis
    unfolding reap_key_def Let_def wp_if wp_bind wp_return
  proof (rule if_bool_eq_conj [THEN iffD2], intro conjI impI t, rule wpI, goal_cases)
    case (1 v w1)
    show ?case
    proof (cases v)
      case (Inl err)
      then show ?thesis using tally by (simp add: wp_return)
    next
      case (Inr job)
      then show ?thesis
        by (cases "locked_since job") (auto simp: wp_return wp_bind wp_if tally ex intro: wpI)
    qed
  qed
qed

lemma reap_keys_tally: "tally_ok t \<Longrightarrow> wp (reap_keys e q t rs) (\<lambda>t' _. tally_ok t') w"
proof (induction rs arbitrary: t w)
  case Nil
  then show ?case by (simp add: wp_return)
next
  case (Cons r rs)
  show ?case
    unfolding reap_keys.simps wp_bind
    by (rule wp_mono [OF reap_key_tally [OF Cons.prems]]) (rule Cons.IH)
qed

lemma reap_pages_tally:
  "tally_ok t \<Longrightarrow> wp (reap_pages n e q cursor t) (\<lambda>r _. \<forall>t'. r = Some t' \<longrightarrow> tally_ok t') w"
proof (induction n arbitrary: cursor t w)
  case 0
  then show ?case by (simp add: wp_return)
next
  case (Suc n)
  have e1: "tally_ok (t\<lparr>errs := errs t + 1\<rparr>)" using Suc.prems by (simp add: tally_ok_def)
  have "wp (case scan_page rep of
           None \<Rightarrow> State_Monad.return (Some (t\<lparr>errs := errs t + 1\<rparr>))
         | Some (nextCursor, data) \<Rightarrow> do {
             t' \<leftarrow> reap_keys e q t data;
             (if nextCursor = 0 then State_Monad.return (Some t')
              else reap_pages n e q nextCursor t') }) (\<lambda>r _. \<forall>t'. r = Some t' \<longrightarrow> tally_ok t') w1" for rep w1
    by (auto simp: wp_return wp_bind wp_if e1 split: option.split
        intro!: wp_mono [OF reap_keys_tally [OF Suc.prems]] Suc.IH)
  then show ?case
    using Suc.prems by (simp add: wp_bind wp_def [of "State _"] wp_return) (simp add: wpI)
qed

text \<open>A tick ends when the cursors of the server's replies run down: \<open>rank\<close> bounds the number
  of pages still to come.\<close>

definition scan_ends :: "'w env \<Rightarrow> (int \<Rightarrow> nat) \<Rightarrow> bool" where
  "scan_ends e rank \<longleftrightarrow> (\<forall>c w nxt data.
     scan_page (fst (run_state (e_Do e [''SCAN'', itoa c, ''MATCH'', ''queues:*:locked:*'', ''COUNT'', ''100'']) w))
       = Some (nxt, data) \<longrightarrow> nxt = 0 \<or> rank nxt < rank c)"

lemma reap_pages_ends:
  "scan_ends e rank \<Longrightarrow> rank cursor < n \<Longrightarrow> wp (reap_pages n e q cursor t) (\<lambda>r _. r \<noteq> None) w"
proof (induction n arbitrary: cursor t w)
  case 0
  then show ?case by simp
next
  case (Suc n cursor t w)
  have "wp (e_Do e [''SCAN'', itoa cursor, ''MATCH'', ''queues:*:locked:*'', ''COUNT'', ''100''])
    (\<lambda>rep. wp (case scan_page rep of
           None \<Rightarrow> State_Monad.return (Some (t\<lparr>errs := errs t + 1\<rparr>))
         | Some (nextCursor, data) \<Rightarrow> do {
             t' \<leftarrow> reap_keys e q t data;
             (if nextCursor = 0 then State_Monad.return (Some t')
              else reap_pages n e q nextCursor t') }) (\<lambda>r _. r \<noteq> None)) w"
  proof (rule wpI, goal_cases)
    case (1 rep w1)
    have "nxt = 0 \<or> rank nxt < n" if "scan_page rep = Some (nxt, data)" for nxt data
    proof -
      have "nxt = 0 \<or> rank nxt < rank cursor"
        using Suc.prems(1) [unfolded scan_ends_def, rule_format, of cursor w nxt data] 1 that by simp
      then show ?thesis using Suc.prems(2) by auto
    qed
    note fuel = this
    show ?case
    proof (cases "scan_page rep")
      case None
      then show ?thesis by (simp add: wp_return)
    next
      case (Some p)
      obtain nxt data where p: "p = (nxt, data)" by (cases p)
      show ?thesis
        unfolding Some p option.case prod.case wp_bind
        by (rule wpI) (use fuel [of nxt data] Some p Suc.IH [OF Suc.prems(1), of nxt] in \<open>auto simp: wp_return wp_if\<close>)
    qed
  qed
  then show ?case
    by (simp add: wp_bind wp_def [of "State _"] wp_return)
qed

lemma runReaperTick_ends:
  "scan_ends e rank \<Longrightarrow> rank 0 < n
     \<Longrightarrow> wp (runReaperTick n e q s) (\<lambda>r _. \<exists>t. tally_ok t \<and> r = Some (add_tick t s)) w"
  unfolding runReaperTick_def wp_bind wp_return
  by (rule wp_mono [OF wp_conj [OF reap_pages_ends reap_pages_tally]]) (auto simp: tally_ok_def zero_tally_def)

section \<open>Shutdown\<close>

text \<open>\<open>Close\<close> on the redis backend: cancel the lifecycle context and set the shutdown flag (the
  package variable, the second component); the scanners and the reaper see it at their next check.
  The bounded wait for them has no effect on the queue.\<close>

definition cancel_lifecycle :: "'w queue \<Rightarrow> 'w queue" where
  "cancel_lifecycle q = (if q_hasCancel q then q\<lparr>q_ctxDone := True\<rparr> else q)"

definition Close_redis :: "'w queue \<Rightarrow> bool \<Rightarrow> 'w queue \<times> bool" where
  "Close_redis q systemShutdown = (cancel_lifecycle q, True)"

lemma reaper_loop_shutdown:
  "e_shutdown e w \<Longrightarrow> wp (reaper_loop (Suc m) n e q s) (\<lambda>r w'. r = ReaperExited s \<and> w' = w) w"
  by (simp add: wp_def)

end
