(* ===== verification/Memory_System.thy ===== *)
theory Memory_System
  imports Dispatching Reaper "HOL-Library.Multiset"
begin

text \<open>
  The running memory backend (\<open>Listen\<close>, \<open>worker\<close>, \<open>Close\<close> and the goroutines of
  \<open>api/queue.go\<close> and \<open>api/memory.go\<close>) as a labelled step relation on the state of all
  goroutines. The channel \<open>Jobs\<close> is unbuffered: a sender is blocked until a worker receives.

  \<^item> \<open>m_timers\<close>: goroutines that sleep before they send (delayed dispatch, retry);
  \<^item> \<open>m_sending\<close>: goroutines blocked in the send, their job already counted;
  \<^item> \<open>m_idle\<close>: workers waiting to receive; \<open>m_busy\<close>: workers with a job to run;
    \<open>m_finishing\<close>: workers that still have to decrement the counter; \<open>m_exited\<close>: workers
    whose loop ended;
  \<^item> \<open>m_closed\<close>: the channel is closed; \<open>m_crashed\<close>: a send on a closed channel, or
    closing it twice, panicked outside any recovery and ended the process.

  The steps are at the granularity of the shared accesses: the counter, the channel, the failure
  cache (under its mutex) with the handler call.
\<close>

section \<open>State and steps\<close>

record 'w msys =
  m_q :: "'w queue"
  m_world :: 'w
  m_timers :: "(duration \<times> 'w job) multiset"
  m_sending :: "'w job multiset"
  m_busy :: "'w job multiset"
  m_idle :: nat
  m_finishing :: nat
  m_exited :: nat
  m_closed :: bool
  m_crashed :: bool

text \<open>\<open>Listen\<close> starts \<open>WorkerCount\<close> workers, none when it is not positive.\<close>

definition Listen :: "'w msys \<Rightarrow> 'w msys" where
  "Listen s = s\<lparr>m_idle := m_idle s + nat (q_WorkerCount (m_q s))\<rparr>"

definition init_msys :: "'w queue \<Rightarrow> 'w \<Rightarrow> 'w msys" where
  "init_msys q w =
     \<lparr>m_q = q, m_world = w, m_timers = {#}, m_sending = {#}, m_busy = {#}, m_idle = 0,
      m_finishing = 0, m_exited = 0, m_closed = False, m_crashed = False\<rparr>"

text \<open>A goroutine whose counter increment is done starts its send.\<close>

definition start_send :: "'w job \<Rightarrow> 'w msys \<Rightarrow> 'w msys" where
  "start_send j s =
     (if m_closed s then s\<lparr>m_crashed := True\<rparr> else s\<lparr>m_sending := add_mset j (m_sending s)\<rparr>)"

text \<open>A call of \<open>Dispatch\<close> or \<open>DispatchIn\<close>, given by its result.\<close>

definition after_dispatch :: "'w queue \<Rightarrow> 'w sent \<Rightarrow> 'w \<Rightarrow> 'w msys \<Rightarrow> 'w msys" where
  "after_dispatch q' snt w' s =
     (let s1 = s\<lparr>m_q := q', m_world := w'\<rparr>
      in case snt of
           NotSent \<Rightarrow> s1
         | SentNow j \<Rightarrow> start_send j s1
         | SentLater d j \<Rightarrow> s1\<lparr>m_timers := add_mset (d, j) (m_timers s1)\<rparr>)"

text \<open>A sleeping goroutine wakes up, counts its job and starts the send.\<close>

definition wake :: "'w job \<Rightarrow> 'w msys \<Rightarrow> 'w msys" where
  "wake j s = start_send j (s\<lparr>m_q := (m_q s)\<lparr>q_pendingCount := q_pendingCount (m_q s) + 1\<rparr>\<rparr>)"

text \<open>A worker runs the handler of the job it received, when the job is runnable.\<close>

definition run_received :: "'w env \<Rightarrow> 'w queue \<Rightarrow> 'w job \<Rightarrow> ('w, 'w queue \<times> 'w spawn) state" where
  "run_received e q j = (if runnable q j then runHandler e q j else State_Monad.return (q, None))"

definition spawn_timer :: "'w spawn \<Rightarrow> (duration \<times> 'w job) multiset \<Rightarrow> (duration \<times> 'w job) multiset" where
  "spawn_timer sp T = (case sp of None \<Rightarrow> T | Some t \<Rightarrow> add_mset t T)"

text \<open>\<open>Close\<close>: cancel the lifecycle context, then close the channel, which panics when it is
  closed already and makes every blocked sender panic.\<close>

definition Close :: "'w msys \<Rightarrow> 'w msys" where
  "Close s =
     s\<lparr>m_q := cancel_lifecycle (m_q s), m_closed := True,
       m_crashed := m_closed s \<or> m_sending s \<noteq> {#}\<rparr>"

lemma cancel_lifecycle_fields [simp]:
  "q_pendingCount (cancel_lifecycle q) = q_pendingCount q" "wf_queue (cancel_lifecycle q) = wf_queue q"
  by (simp_all add: cancel_lifecycle_def wf_queue_def wf_failed_def wf_registry_def)

text \<open>\<open>Close\<close> returns once \<open>wg.Wait\<close> does: every worker has exited.\<close>

definition close_returns :: "'w msys \<Rightarrow> bool" where
  "close_returns s \<longleftrightarrow> m_closed s \<and> m_idle s = 0 \<and> m_busy s = {#} \<and> m_finishing s = 0"

datatype mlabel = DispatchCall | Wake | Receive | Run | Finish | CloseCall | Exit

text \<open>What Go's types guarantee of a job: its counter is a 64-bit integer.\<close>

definition typed_job :: "'w job \<Rightarrow> bool" where
  "typed_job j \<longleftrightarrow> in_int64 (j_RetryCounter j)"

inductive mstep :: "'w env \<Rightarrow> 'w msys \<Rightarrow> mlabel \<Rightarrow> 'w msys \<Rightarrow> bool" for e :: "'w env" where
  dispatch: "\<not> m_crashed s \<Longrightarrow> typed_job job
    \<Longrightarrow> run_state (Dispatch e (m_q s) job) (m_world s) = ((res, q', snt), w')
    \<Longrightarrow> mstep e s DispatchCall (after_dispatch q' snt w' s)"
| wake: "\<not> m_crashed s \<Longrightarrow> (d, j) \<in># m_timers s
    \<Longrightarrow> mstep e s Wake (wake j (s\<lparr>m_timers := m_timers s - {#(d, j)#}\<rparr>))"
| receive: "\<not> m_crashed s \<Longrightarrow> j \<in># m_sending s \<Longrightarrow> 0 < m_idle s
    \<Longrightarrow> mstep e s Receive (s\<lparr>m_sending := m_sending s - {#j#}, m_busy := add_mset j (m_busy s),
                            m_idle := m_idle s - 1\<rparr>)"
| run: "\<not> m_crashed s \<Longrightarrow> j \<in># m_busy s
    \<Longrightarrow> run_state (run_received e (m_q s) j) (m_world s) = ((q', sp), w')
    \<Longrightarrow> mstep e s Run (s\<lparr>m_q := q', m_world := w', m_busy := m_busy s - {#j#},
                        m_timers := spawn_timer sp (m_timers s), m_finishing := Suc (m_finishing s)\<rparr>)"
| finish: "\<not> m_crashed s \<Longrightarrow> 0 < m_finishing s
    \<Longrightarrow> mstep e s Finish (s\<lparr>m_q := (m_q s)\<lparr>q_pendingCount := q_pendingCount (m_q s) - 1\<rparr>,
                           m_finishing := m_finishing s - 1, m_idle := Suc (m_idle s)\<rparr>)"
| close: "\<not> m_crashed s \<Longrightarrow> mstep e s CloseCall (Close s)"
| exit: "\<not> m_crashed s \<Longrightarrow> m_closed s \<Longrightarrow> 0 < m_idle s
    \<Longrightarrow> mstep e s Exit (s\<lparr>m_idle := m_idle s - 1, m_exited := Suc (m_exited s)\<rparr>)"

inductive_cases mstepE: "mstep e s l s'"

text \<open>The states a started queue can get into.\<close>

inductive reachable :: "'w env \<Rightarrow> 'w queue \<Rightarrow> 'w msys \<Rightarrow> bool" for e :: "'w env" and q0 :: "'w queue" where
  start: "reachable e q0 (Listen (init_msys q0 w))"
| step: "reachable e q0 s \<Longrightarrow> mstep e s l s' \<Longrightarrow> reachable e q0 s'"

section \<open>The counter counts\<close>

text \<open>The jobs in the system that are past their increment and before their decrement.\<close>

definition in_flight :: "'w msys \<Rightarrow> nat" where
  "in_flight s = size (m_sending s) + size (m_busy s) + m_finishing s"

definition counted :: "'w msys \<Rightarrow> bool" where
  "counted s \<longleftrightarrow> m_crashed s \<or> q_pendingCount (m_q s) = of_nat (in_flight s)"

lemma run_received_effect:
  assumes "run_state (run_received e q j) w = ((q', sp), w')"
  shows "q_pendingCount q' = q_pendingCount q" and "setup_of q' = setup_of q"
    and "wf_queue q \<Longrightarrow> wf_queue q'"
    and "\<exists>r. sp = (if runnable q j \<and> r \<noteq> HOk then snd (failure_effect q (with_exception j r)) else None)"
proof -
  obtain r w1 where r: "run_state (invoke_handler q j) w = (r, w1)"
    by (cases "run_state (invoke_handler q j) w")
  have eff: "(q', sp) = (if runnable q j
      then (if r = HOk then (q, None) else failure_effect q (with_exception j r)) else (q, None))"
    using assms runHandler_effect [OF r, of e] by (auto simp: run_received_def split: if_splits)
  then show "q_pendingCount q' = q_pendingCount q" "setup_of q' = setup_of q" "wf_queue q \<Longrightarrow> wf_queue q'"
    by (auto simp: failure_effect_def push_failed_wf split: if_splits)
  from eff show "\<exists>r. sp = (if runnable q j \<and> r \<noteq> HOk then snd (failure_effect q (with_exception j r)) else None)"
    by (intro exI [of _ r]) (metis snd_conv)
qed

text \<open>A dispatch on the memory backend counts the job exactly when it sends it at once.\<close>

lemma Dispatch_memory_effect:
  assumes "q_Backend q = ''memory''" and "run_state (Dispatch e q job) w = ((res, q', snt), w')"
  shows "(snt = NotSent \<and> q' = q)
    \<or> (\<exists>d j. snt = SentLater d j \<and> q' = q \<and> j_RetryCounter j = j_RetryCounter job \<and> j_Retry j = j_Retry job)
    \<or> (\<exists>j. snt = SentNow j \<and> q' = q\<lparr>q_pendingCount := q_pendingCount q + 1\<rparr>
         \<and> j_RetryCounter j = j_RetryCounter job \<and> j_Retry j = j_Retry job)"
proof -
  have "clock_shows e (\<lambda>_. True)" by (simp add: clock_shows_def)
  from wpD [OF Dispatch_memory [OF assms(1) this] assms(2)] obtain i t0 t
    where "(res, q', snt) = memory_outcome q job i t0 t" by blast
  then show ?thesis
    by (auto simp: memory_outcome_def memory_job_def stamp_job_def Let_def split: option.splits if_splits)
qed

text \<open>What no step changes: the queue apart from its failure cache, its counter and the state of
  its lifecycle context.\<close>

definition fixed_of :: "'w queue \<Rightarrow> 'w queue" where
  "fixed_of q = (setup_of q)\<lparr>q_ctxDone := False\<rparr>"

lemma fixed_of_upd [simp]:
  "fixed_of (q\<lparr>q_pendingCount := n\<rparr>) = fixed_of q" "fixed_of (q\<lparr>q_ctxDone := b\<rparr>) = fixed_of q"
  by (simp_all add: fixed_of_def setup_of_def)

lemma fixed_of_cancel [simp]: "fixed_of (cancel_lifecycle q) = fixed_of q"
  by (simp add: cancel_lifecycle_def)

lemma fixed_of_setup: "setup_of q' = setup_of q \<Longrightarrow> fixed_of q' = fixed_of q"
  by (simp add: fixed_of_def)

lemma fixed_ofD:
  assumes "fixed_of q' = fixed_of q"
  shows "q_Backend q' = q_Backend q" and "q_MaxAttempts q' = q_MaxAttempts q"
    and "q_WorkerCount q' = q_WorkerCount q" and "q_handlers q' = q_handlers q"
  using arg_cong [OF assms, of q_Backend] arg_cong [OF assms, of q_MaxAttempts]
    arg_cong [OF assms, of q_WorkerCount] arg_cong [OF assms, of q_handlers]
  by (simp_all add: fixed_of_def setup_of_def)

definition all_typed :: "'w msys \<Rightarrow> bool" where
  "all_typed s \<longleftrightarrow> (\<forall>j \<in># m_sending s + m_busy s + image_mset snd (m_timers s). typed_job j)"

definition workers :: "'w msys \<Rightarrow> nat" where
  "workers s = m_idle s + size (m_busy s) + m_finishing s + m_exited s"

definition minv :: "'w queue \<Rightarrow> 'w msys \<Rightarrow> bool" where
  "minv q0 s \<longleftrightarrow> fixed_of (m_q s) = fixed_of q0 \<and> (wf_queue q0 \<longrightarrow> wf_queue (m_q s)) \<and> all_typed s
     \<and> workers s = nat (q_WorkerCount q0)
     \<and> (m_crashed s \<or> q_pendingCount (m_q s) = of_nat (in_flight s) \<and> (m_closed s \<longrightarrow> m_sending s = {#}))"

lemma wf_queue_counter [simp]:
  "wf_queue (q\<lparr>q_pendingCount := n\<rparr>) = wf_queue q" "wf_queue (q\<lparr>q_ctxDone := b\<rparr>) = wf_queue q"
  by (simp_all add: wf_queue_def wf_failed_def wf_registry_def)

lemma size_diff_one: "x \<in># M \<Longrightarrow> Suc (size (M - {#x#})) = size M"
  by (metis insert_DiffM size_add_mset)

lemma start_send_minv:
  assumes "fixed_of (m_q s) = fixed_of q0" and "wf_queue q0 \<longrightarrow> wf_queue (m_q s)" and "all_typed s"
    and "typed_job j" and "workers s = nat (q_WorkerCount q0)"
    and "\<not> m_closed s \<Longrightarrow> q_pendingCount (m_q s) = of_nat (in_flight s) + 1"
  shows "minv q0 (start_send j s)"
  using assms by (auto simp: minv_def start_send_def in_flight_def all_typed_def workers_def)

lemma spawn_typed:
  assumes "run_state (run_received e q j) w = ((q', sp), w')" and "typed_job j" and "x \<in># spawn_timer sp T"
    and "\<And>y. y \<in># T \<Longrightarrow> typed_job (snd y)"
  shows "typed_job (snd x)"
  using assms run_received_effect(4) [OF assms(1)] wrap64_in_range
  by (cases x) (auto simp: spawn_timer_def failure_effect_def typed_job_def split: if_splits option.splits)

lemma minv_dispatch:
  assumes "run_state (Dispatch e (m_q s) job) (m_world s) = ((res, q', snt), w')" and "minv q0 s"
    and "q_Backend q0 = ''memory''" and "typed_job job" and "\<not> m_crashed s"
  shows "minv q0 (after_dispatch q' snt w' s)"
proof -
  have "q_Backend (m_q s) = ''memory''" using assms(2,3) fixed_ofD(1) [of "m_q s" q0] by (simp add: minv_def)
  from Dispatch_memory_effect [OF this assms(1)] show ?thesis
  proof (elim disjE exE conjE)
    fix j assume "snt = SentNow j" "q' = (m_q s)\<lparr>q_pendingCount := q_pendingCount (m_q s) + 1\<rparr>"
      "j_RetryCounter j = j_RetryCounter job"
    then show ?thesis
      unfolding after_dispatch_def Let_def
      by simp (rule start_send_minv, use assms(2,4,5) in
        \<open>auto simp: minv_def in_flight_def all_typed_def workers_def typed_job_def\<close>)
  qed (use assms(2,4) in \<open>auto simp: after_dispatch_def minv_def all_typed_def workers_def in_flight_def typed_job_def\<close>)
qed

lemma minv_run:
  assumes "run_state (run_received e (m_q s) j) (m_world s) = ((q', sp), w')" and "j \<in># m_busy s" and "minv q0 s"
    and "\<not> m_crashed s"
  shows "minv q0 (s\<lparr>m_q := q', m_world := w', m_busy := m_busy s - {#j#}, m_timers := spawn_timer sp (m_timers s),
                    m_finishing := Suc (m_finishing s)\<rparr>)"
    (is "minv q0 ?s")
proof -
  note eff = run_received_effect [OF assms(1)]
  have "typed_job j" using assms(2,3) by (auto simp: minv_def all_typed_def)
  from spawn_typed [OF assms(1) this, of _ "m_timers s"] assms(3)
  have "\<forall>x \<in># spawn_timer sp (m_timers s). typed_job (snd x)"
    by (auto simp: minv_def all_typed_def image_iff)
  then have "all_typed ?s"
    using assms(3) by (auto simp: minv_def all_typed_def dest: in_diffD)
  moreover have "in_flight ?s = in_flight s" and "workers ?s = workers s"
    using size_diff_one [OF assms(2)] by (simp_all add: in_flight_def workers_def)
  ultimately show ?thesis
    using assms(3,4) eff(1,3) fixed_of_setup [OF eff(2)] by (auto simp: minv_def)
qed

lemma minv_step:
  assumes "mstep e s l s'" and "minv q0 s" and "q_Backend q0 = ''memory''"
  shows "minv q0 s'"
  using assms(1)
proof cases
  case (dispatch job res q' snt w')
  then show ?thesis using minv_dispatch [OF dispatch(5) assms(2,3)] by simp
next
  case (wake d j)
  have "typed_job j" using assms(2) wake(4) by (force simp: minv_def all_typed_def)
  show ?thesis
    unfolding wake(2) wake_def
    by (rule start_send_minv) (use \<open>typed_job j\<close> assms(2) wake(3,4) in
      \<open>auto simp: minv_def in_flight_def all_typed_def workers_def dest: in_diffD\<close>)
next
  case (receive j)
  have "in_flight s' = in_flight s"
    using size_diff_one [OF receive(4)] by (simp add: receive(2) in_flight_def)
  with receive show ?thesis
    using assms(2) by (auto simp: minv_def all_typed_def workers_def dest: in_diffD)
next
  case (run j q' sp w')
  then show ?thesis using minv_run [OF run(5,4) assms(2)] by simp
next
  case finish
  then show ?thesis
    using assms(2) by (auto simp: minv_def in_flight_def all_typed_def workers_def of_nat_diff)
next
  case close
  then show ?thesis
    using assms(2) by (auto simp: minv_def in_flight_def all_typed_def workers_def Close_def Let_def)
next
  case exit
  then show ?thesis
    using assms(2) by (auto simp: minv_def in_flight_def all_typed_def workers_def)
qed

lemma reachable_minv:
  assumes "reachable e q0 s" and "q_Backend q0 = ''memory''" and "q_pendingCount q0 = 0"
  shows "minv q0 s"
  using assms(1)
proof induction
  case (start w)
  then show ?case
    using assms(3) by (simp add: minv_def Listen_def init_msys_def in_flight_def all_typed_def workers_def)
next
  case (step s l s')
  then show ?case using minv_step assms(2) by blast
qed

lemma reachable_open: "reachable e q0 s \<Longrightarrow> \<not> m_closed s \<Longrightarrow> m_exited s = 0"
proof (induction rule: reachable.induct)
  case (step s l s')
  from step(2) show ?case
    by cases (use step(3,4) in \<open>auto simp: after_dispatch_def start_send_def wake_def Close_def Let_def
        split: sent.splits if_splits\<close>)
qed (simp add: Listen_def init_msys_def)

section \<open>The work runs out\<close>

text \<open>How many more retries a job may cause, and a measure of the work in the system that every
  internal step decreases.\<close>

definition attempts_left :: "int \<Rightarrow> 'w job \<Rightarrow> nat" where
  "attempts_left m j = (if j_Retry j then nat (m - j_RetryCounter j) else 0)"

definition work :: "'w msys \<Rightarrow> nat" where
  "work s =
     (let a = attempts_left (q_MaxAttempts (m_q s))
      in (\<Sum>t \<in># m_timers s. 5 * a (snd t) + 4) + (\<Sum>j \<in># m_sending s. 5 * a j + 3)
         + (\<Sum>j \<in># m_busy s. 5 * a j + 2) + m_finishing s)"

definition internal :: "mlabel \<Rightarrow> bool" where
  "internal l \<longleftrightarrow> l \<in> {Wake, Receive, Run, Finish}"

lemma sum_diff_one:
  fixes f :: "'a \<Rightarrow> nat"
  shows "x \<in># M \<Longrightarrow> (\<Sum>y \<in># M. f y) = (\<Sum>y \<in># M - {#x#}. f y) + f x"
  by (metis add.commute image_mset_add_mset insert_DiffM sum_mset.insert)

lemma spawn_attempts:
  assumes "run_state (run_received e q j) w = ((q', Some (d, j')), w')" and "typed_job j" and "in_int64 (q_MaxAttempts q)"
  shows "attempts_left (q_MaxAttempts q) j = Suc (attempts_left (q_MaxAttempts q) j')"
proof -
  obtain r where "Some (d, j') = (if runnable q j \<and> r \<noteq> HOk then snd (failure_effect q (with_exception j r)) else None)"
    using run_received_effect(4) [OF assms(1)] by blast
  then have fe: "snd (failure_effect q (with_exception j r)) = Some (d, j')" by (simp split: if_splits)
  have rc: "j_RetryCounter (with_exception j r) = j_RetryCounter j" "j_Retry (with_exception j r) = j_Retry j" by simp_all
  from failure_effect_retry [OF fe assms(3)] assms(2) have "j_Retry j" "j_RetryCounter j < q_MaxAttempts q"
    "j_RetryCounter j' = j_RetryCounter j + 1" "j_Retry j' = j_Retry j"
    unfolding rc typed_job_def by simp_all
  then show ?thesis by (simp add: attempts_left_def)
qed

lemma work_decreases:
  assumes "mstep e s l s'" and "internal l" and "minv q0 s" and "in_int64 (q_MaxAttempts q0)"
    and "\<not> m_crashed s'"
  shows "work s' < work s"
  using assms(1)
proof cases
  case (wake d j)
  let ?f = "\<lambda>t. 5 * attempts_left (q_MaxAttempts (m_q s)) (snd t) + 4"
  from wake assms(5) have "\<not> m_closed s" by (auto simp: wake_def start_send_def)
  with sum_diff_one [OF wake(4), of ?f] show ?thesis
    by (simp add: wake(2) wake_def start_send_def work_def Let_def)
next
  case (receive j)
  with sum_diff_one [OF receive(4), of "\<lambda>j. 5 * attempts_left (q_MaxAttempts (m_q s)) j + 3"] show ?thesis
    by (simp add: work_def Let_def)
next
  case (run j q' sp w')
  let ?a = "attempts_left (q_MaxAttempts (m_q s))"
  have Max: "q_MaxAttempts q' = q_MaxAttempts (m_q s)"
    by (rule setup_ofD(1) [OF run_received_effect(2) [OF run(5)]])
  have j: "typed_job j" using assms(3) run(4) by (auto simp: minv_def all_typed_def)
  have m: "in_int64 (q_MaxAttempts (m_q s))"
    using assms(3,4) fixed_ofD(2) [of "m_q s" q0] by (simp add: minv_def)
  have sp: "(\<Sum>t \<in># spawn_timer sp (m_timers s). 5 * ?a (snd t) + 4)
      \<le> (\<Sum>t \<in># m_timers s. 5 * ?a (snd t) + 4) + 5 * ?a j"
  proof (cases sp)
    case None
    then show ?thesis by (simp add: spawn_timer_def)
  next
    case (Some dj)
    obtain d j' where dj: "dj = (d, j')" by (cases dj)
    from spawn_attempts [OF run(5) [unfolded Some dj] j m] show ?thesis
      by (simp add: spawn_timer_def Some dj)
  qed
  show ?thesis
    using sp sum_diff_one [OF run(4), of "\<lambda>j. 5 * ?a j + 2"]
    by (simp add: run(2) work_def Let_def Max)
next
  case finish
  then show ?thesis by (simp add: work_def Let_def)
qed (use assms(2) in \<open>simp_all add: internal_def\<close>)

text \<open>While the queue is open and has a worker, work left means that a step is possible, and no
  internal step crashes it.\<close>

lemma progress:
  assumes "minv q0 s" and "\<not> m_crashed s" and "\<not> m_closed s" and "0 < q_WorkerCount q0"
    and "m_exited s = 0" and "work s \<noteq> 0"
  shows "\<exists>l s'. internal l \<and> mstep e s l s'"
proof (cases "m_finishing s = 0 \<and> m_busy s = {#}")
  case True
  with assms(1,4,5) have idle: "0 < m_idle s" by (simp add: minv_def workers_def)
  show ?thesis
  proof (cases "m_sending s = {#}")
    case True
    with \<open>m_finishing s = 0 \<and> m_busy s = {#}\<close> assms(6) have "m_timers s \<noteq> {#}"
      by (auto simp: work_def Let_def)
    then obtain d j where "(d, j) \<in># m_timers s" by auto
    from mstep.wake [OF assms(2) this] show ?thesis by (auto simp: internal_def)
  next
    case False
    then obtain j where "j \<in># m_sending s" by auto
    from mstep.receive [OF assms(2) this idle] show ?thesis by (auto simp: internal_def)
  qed
next
  case False
  then consider "0 < m_finishing s" | j where "j \<in># m_busy s" by auto
  then show ?thesis
  proof cases
    case 1
    from mstep.finish [OF assms(2) this] show ?thesis by (auto simp: internal_def)
  next
    case 2
    obtain q' sp w' where "run_state (run_received e (m_q s) j) (m_world s) = ((q', sp), w')"
      by (metis prod.exhaust)
    from mstep.run [OF assms(2) 2 this] show ?thesis by (auto simp: internal_def)
  qed
qed

lemma internal_open:
  assumes "mstep e s l s'" and "internal l" and "\<not> m_closed s"
  shows "\<not> m_crashed s' \<and> \<not> m_closed s' \<and> m_exited s' = m_exited s"
  using assms by cases (auto simp: internal_def wake_def start_send_def)

inductive internal_run :: "'w env \<Rightarrow> 'w msys \<Rightarrow> 'w msys \<Rightarrow> bool" for e :: "'w env" where
  internal_refl: "internal_run e s s"
| internal_step: "mstep e s l s' \<Longrightarrow> internal l \<Longrightarrow> internal_run e s' s'' \<Longrightarrow> internal_run e s s''"

text \<open>Every job gets done: an open queue with a worker can always run its work down to nothing,
  and then its counter is zero.\<close>

lemma drains:
  assumes "minv q0 s" and "\<not> m_crashed s" and "\<not> m_closed s" and "m_exited s = 0"
    and "0 < q_WorkerCount q0" and "q_Backend q0 = ''memory''" and "in_int64 (q_MaxAttempts q0)"
  shows "\<exists>s'. internal_run e s s' \<and> m_timers s' = {#} \<and> in_flight s' = 0 \<and> q_pendingCount (m_q s') = 0"
  using assms(1-4)
proof (induction "work s" arbitrary: s rule: less_induct)
  case less
  show ?case
  proof (cases "work s = 0")
    case True
    then have "m_timers s = {#}" "m_sending s = {#}" "m_busy s = {#}" "m_finishing s = 0"
      by (simp_all add: work_def Let_def multiset_eq_iff not_in_iff)
    then show ?thesis
      using less.prems internal_run.internal_refl [of e s] by (auto simp: minv_def in_flight_def)
  next
    case False
    then obtain l s1 where l: "internal l" and st: "mstep e s l s1"
      using progress [OF less.prems(1-3) assms(5) less.prems(4)] by blast
    from internal_open [OF st l less.prems(3)] less.prems(4)
    have s1: "\<not> m_crashed s1" "\<not> m_closed s1" "m_exited s1 = 0" by auto
    have "work s1 < work s" by (rule work_decreases [OF st l less.prems(1) assms(7) s1(1)])
    from less.hyps [OF this minv_step [OF st less.prems(1) assms(6)] s1] show ?thesis
      using internal_run.internal_step [OF st l] by blast
  qed
qed

section \<open>Closing\<close>

text \<open>A goroutine that sleeps when the queue is closed ends the process when it wakes up; so does a
  dispatch that sends at once.\<close>

lemma wake_after_close:
  assumes "\<not> m_crashed s" and "m_sending s = {#}" and "\<not> m_closed s" and "(d, j) \<in># m_timers s"
  shows "\<exists>s'. mstep e (Close s) Wake s' \<and> m_crashed s'"
proof -
  have "\<not> m_crashed (Close s)" "(d, j) \<in># m_timers (Close s)"
    using assms by (simp_all add: Close_def Let_def)
  from mstep.wake [OF this, of e] show ?thesis
    by (rule_tac exI, rule_tac conjI) (auto simp: wake_def start_send_def Close_def Let_def)
qed

end
