(* ===== verification/Provider.thy ===== *)
theory Provider
  imports Memory_System
begin

text \<open>
  The framework provider (\<open>provider.go\<close>) and the package's re-exports (\<open>queue.go\<close>):
  reading a configuration map, constructing the queue in \<open>Register\<close> and starting its
  goroutines in \<open>Boot\<close>.
\<close>

section \<open>Dynamic values\<close>

text \<open>An \<open>interface{}\<close> value by its dynamic type; other types never match an assertion.\<close>

datatype dyn = DString string | DInt int | DBool bool | DStrings "string list" | DOther

definition as_string :: "dyn option \<Rightarrow> string \<Rightarrow> string" where
  "as_string v old = (case v of Some (DString s) \<Rightarrow> s | _ \<Rightarrow> old)"

definition as_int :: "dyn option \<Rightarrow> int \<Rightarrow> int" where
  "as_int v old = (case v of Some (DInt n) \<Rightarrow> n | _ \<Rightarrow> old)"

definition as_bool :: "dyn option \<Rightarrow> bool \<Rightarrow> bool" where
  "as_bool v old = (case v of Some (DBool b) \<Rightarrow> b | _ \<Rightarrow> old)"

definition as_strings :: "dyn option \<Rightarrow> string list \<Rightarrow> string list" where
  "as_strings v old = (case v of Some (DStrings l) \<Rightarrow> l | _ \<Rightarrow> old)"

section \<open>The provider\<close>

record 'w serviceProvider =
  p_service :: "'w queue option"
  p_config :: configuration
  p_hasConfig :: bool

definition new_provider :: "'w serviceProvider" where
  "new_provider = \<lparr>p_service = None, p_config = zero_configuration, p_hasConfig = False\<rparr>"

definition Name :: string where "Name = ''queue''"

definition Priority :: int where "Priority = 30"

definition Service :: "'w serviceProvider \<Rightarrow> 'w queue option" where
  "Service p = p_service p"

definition configure_map :: "(string \<rightharpoonup> dyn) \<Rightarrow> configuration \<Rightarrow> configuration" where
  "configure_map m c =
     c\<lparr>c_Backend := as_string (m ''backend'') (c_Backend c),
       c_WorkerCount := as_int (m ''worker_count'') (c_WorkerCount c),
       c_MaxAttempts := as_int (m ''max_attempts'') (c_MaxAttempts c),
       c_HighWaterMark := as_int (m ''high_water_mark'') (c_HighWaterMark c),
       c_QueueChannels := as_strings (m ''queue_channels'') (c_QueueChannels c),
       c_QueueChannelDefault := as_string (m ''queue_channel_default'') (c_QueueChannelDefault c),
       c_Debug := as_bool (m ''debug'') (c_Debug c),
       c_RedisPrefix := as_string (m ''redis_prefix'') (c_RedisPrefix c),
       c_RedisScanInterval := as_int (m ''redis_scan_interval'') (c_RedisScanInterval c),
       c_LockTimeout := as_int (m ''lock_timeout'') (c_LockTimeout c),
       c_ReaperInterval := as_int (m ''reaper_interval'') (c_ReaperInterval c)\<rparr>"

definition Configure :: "'w serviceProvider \<Rightarrow> (string \<rightharpoonup> dyn) \<Rightarrow> 'w serviceProvider" where
  "Configure p m = p\<lparr>p_config := configure_map m (p_config p), p_hasConfig := True\<rparr>"

text \<open>The argument of \<open>Register\<close> is \<open>None\<close> when it is not an application, where the type
  assertion panics; an application is a pointer, possibly nil.\<close>

definition register_with :: "'w serviceProvider \<Rightarrow> string + 'w queue go \<Rightarrow> (string option \<times> 'w serviceProvider) go" where
  "register_with p r =
     (case r of
        Inl err \<Rightarrow> Ret (Some (''queue: register provider: '' @ err), p)
      | Inr (Panicked m) \<Rightarrow> Panicked m
      | Inr (Ret q) \<Rightarrow> Ret (None, p\<lparr>p_service := Some q\<rparr>))"

definition Register ::
  "'v os \<Rightarrow> string + string \<Rightarrow> (string \<Rightarrow> string + configuration) \<Rightarrow> 'w serviceProvider
   \<Rightarrow> app option option \<Rightarrow> ('v, (string option \<times> 'w serviceProvider) go) state" where
  "Register os tmpl unmarshal p arg =
     (case arg of
        None \<Rightarrow> State_Monad.return (Panicked ''interface conversion'')
      | Some a \<Rightarrow>
          if p_hasConfig p then State_Monad.return (register_with p (NewWithConfig a (p_config p)))
          else do { r \<leftarrow> New os tmpl unmarshal a; State_Monad.return (register_with p r) })"

text \<open>The goroutines \<open>Listen\<close> starts, each counted by the wait group.\<close>

datatype goroutine = MemoryWorker | RedisWorker | IdleWorker | ReaperRoutine

definition listen_goroutines :: "'w queue \<Rightarrow> goroutine list" where
  "listen_goroutines q =
     replicate (nat (q_WorkerCount q))
       (if q_Backend q = ''memory'' then MemoryWorker
        else if q_Backend q = ''redis'' then RedisWorker else IdleWorker)
     @ (if q_Backend q = ''redis'' then [ReaperRoutine] else [])"

definition Boot :: "'w serviceProvider \<Rightarrow> goroutine list" where
  "Boot p = (case p_service p of None \<Rightarrow> [] | Some q \<Rightarrow> listen_goroutines q)"

section \<open>Configured start\<close>

text \<open>Reading the same value again changes nothing, and an empty map changes nothing.\<close>

lemma as_twice [simp]:
  "as_string v (as_string v x) = as_string v x" "as_int v (as_int v n) = as_int v n"
  "as_bool v (as_bool v b) = as_bool v b" "as_strings v (as_strings v l) = as_strings v l"
  by (auto simp: as_string_def as_int_def as_bool_def as_strings_def split: option.splits dyn.splits)

lemma configure_map_twice: "configure_map m (configure_map m c) = configure_map m c"
  by (simp add: configure_map_def)

lemma configure_map_None: "configure_map Map.empty c = c"
  by (simp add: configure_map_def as_string_def as_int_def as_bool_def as_strings_def)

lemma Register_configured:
  fixes p :: "'w serviceProvider"
  assumes "p_hasConfig p" and "makeslice_ok (c_HighWaterMark (setConfigDefaults (p_config p)))"
  obtains q :: "'w queue" where "buildQueue a (p_config p) = Ret q"
    and "Register os tmpl unmarshal p (Some a) = State_Monad.return (Ret (None, p\<lparr>p_service := Some q\<rparr>))"
proof -
  obtain q :: "'w queue" where q: "buildQueue a (p_config p) = Ret q"
    using buildQueue_panics [of a "p_config p"] assms(2) by (metis go.exhaust)
  moreover have "Register os tmpl unmarshal p (Some a) = State_Monad.return (Ret (None, p\<lparr>p_service := Some q\<rparr>))"
    using assms(1) q by (simp add: Register_def NewWithConfig_def register_with_def)
  ultimately show ?thesis by (rule that)
qed

end
