(* ===== verification/Queuebench.thy ===== *)
theory Queuebench
  imports Bench_Stress Provider
begin

text \<open>
  The benchmark command (\<open>cmd/queuebench/main.go\<close>). The adele framework, \<open>godotenv\<close> and the
  process's environment are arguments, the record \<open>framework\<close>; the queue itself is the one of the
  registered provider, which the world holds and \<open>f_putQueue\<close> updates. \<open>main_before\<close> is
  \<open>main\<close> up to its call of \<open>Stress\<close>; \<open>main_run\<close> puts it together with a stress run.
\<close>

section \<open>The framework\<close>

text \<open>A registered provider: the queue's, or another by its name.\<close>

datatype 'w provider = QueueProvider "'w serviceProvider" | OtherProvider string

text \<open>
  \<^item> \<open>f_Load\<close>: \<open>godotenv.Load\<close>; \<open>f_Getwd\<close>: \<open>os.Getwd\<close>; \<open>f_New\<close>: the application's
    \<open>New\<close>; \<open>f_LoadProviders\<close>: \<open>LoadProviders\<close> with the provider configurations;
    \<open>f_providers\<close>: \<open>GetRegisteredProviders\<close>; \<open>f_Start\<close>, \<open>f_Stop\<close>: the rpc server.
  \<^item> \<open>f_putQueue\<close>: write to the queue that the registered provider's pointer leads to;
    \<open>f_SetShutdown\<close>: write the package variable \<open>systemShutdown\<close>; \<open>f_Wait\<close>: the wait
    for the queue's goroutines in \<open>Close\<close>.
  \<^item> \<open>f_log\<close>: the loggers; \<open>f_errtext\<close>: the text of an error of \<open>Dispatch\<close>.
\<close>

record 'w framework =
  f_Load :: "string \<Rightarrow> ('w, string option) state"
  f_Getwd :: "('w, string + string) state"
  f_New :: "string \<Rightarrow> ('w, string + app) state"
  f_LoadProviders :: "(string \<rightharpoonup> (string \<rightharpoonup> dyn)) \<Rightarrow> app \<Rightarrow> ('w, string option) state"
  f_providers :: "'w \<Rightarrow> 'w provider list"
  f_putQueue :: "'w queue \<Rightarrow> ('w, unit) state"
  f_Start :: "app \<Rightarrow> ('w, string option) state"
  f_Stop :: "app \<Rightarrow> ('w, string option) state"
  f_SetShutdown :: "bool \<Rightarrow> ('w, unit) state"
  f_Wait :: "('w, unit) state"
  f_log :: "'w logger"
  f_errtext :: "dispatch_error \<Rightarrow> string"

section \<open>Setting up\<close>

fun find_service :: "'w provider list \<Rightarrow> 'w queue option" where
  "find_service [] = None"
| "find_service (OtherProvider n # ps) = find_service ps"
| "find_service (QueueProvider p # ps) = (if Name \<noteq> ''queue'' then find_service ps else Service p)"

definition lookupQueueService :: "'w framework \<Rightarrow> ('w, 'w queue option) state" where
  "lookupQueueService f = State (\<lambda>w. (find_service (f_providers f w), w))"

definition harness_config :: "string \<rightharpoonup> dyn" where
  "harness_config =
     [''backend'' \<mapsto> DString ''redis'', ''worker_count'' \<mapsto> DInt 4, ''max_attempts'' \<mapsto> DInt 5,
      ''high_water_mark'' \<mapsto> DInt 10000, ''queue_channels'' \<mapsto> DStrings [''job'', ''email''],
      ''queue_channel_default'' \<mapsto> DString ''job'', ''debug'' \<mapsto> DBool False,
      ''redis_prefix'' \<mapsto> DString ''queuebench'', ''redis_scan_interval'' \<mapsto> DInt 1,
      ''lock_timeout'' \<mapsto> DInt 10, ''reaper_interval'' \<mapsto> DInt 5]"

text \<open>The result on the left is the message the process exits with.\<close>

definition bootstrapApplication :: "'w framework \<Rightarrow> ('w, string + app) state" where
  "bootstrapApplication f = do {
     wd \<leftarrow> f_Getwd f;
     (case wd of
        Inl err \<Rightarrow> State_Monad.return (Inl err)
      | Inr path \<Rightarrow> do {
          r \<leftarrow> f_New f path;
          (case r of
             Inl err \<Rightarrow> State_Monad.return (Inl err)
           | Inr a \<Rightarrow> do {
               e \<leftarrow> f_LoadProviders f [''queue'' \<mapsto> harness_config] a;
               (case e of
                  Some err \<Rightarrow> do { f_log f ''%v'' [AStr err]; State_Monad.return (Inl err) }
                | None \<Rightarrow> State_Monad.return (Inr a)) }) }) }"

definition reg_error_text :: "'w env \<Rightarrow> reg_error \<Rightarrow> string" where
  "reg_error_text e err =
     (case err of
        EmptyName \<Rightarrow> ''queue: RegisterHandler requires a non-empty name''
      | NilFunction n \<Rightarrow> ''queue: RegisterHandler requires a non-nil function for '' @ go_quote (e_uquote e) n
      | AlreadyRegistered n \<Rightarrow> ''queue: handler '' @ go_quote (e_uquote e) n @ '' already registered'')"

fun log_register_errors :: "'w framework \<Rightarrow> 'w benv \<Rightarrow> (string \<times> reg_error) list \<Rightarrow> ('w, unit) state" where
  "log_register_errors f b [] = State_Monad.return ()"
| "log_register_errors f b ((n, err) # es) = do {
     f_log f ''queuebench: RegisterAll: %v'' [AStr (n @ '': '' @ reg_error_text (b_env b) err)];
     log_register_errors f b es }"

section \<open>Dispatching\<close>

record flags =
  fl_seedJobs :: bool
  fl_stressN :: int
  fl_stressC :: int
  fl_stressMode :: string
  fl_longSleep :: int

definition default_flags :: flags where
  "default_flags = \<lparr>fl_seedJobs = False, fl_stressN = 0, fl_stressC = 16, fl_stressMode = ''hello'', fl_longSleep = 0\<rparr>"

definition dispatch_long_sleep ::
  "'w framework \<Rightarrow> 'w benv \<Rightarrow> 'w dispatcher \<Rightarrow> int \<Rightarrow> ('w, unit go) state" where
  "dispatch_long_sleep f b d n =
     (case NewSleepJob b (seconds n) of
        Inl err \<Rightarrow> do { f_log f ''--long-sleep: build job: %v'' [AStr err]; State_Monad.return (Ret ()) }
      | Inr job \<Rightarrow> do {
          r \<leftarrow> d job;
          (case r of
             Panicked m \<Rightarrow> State_Monad.return (Panicked m)
           | Ret (_, Some err) \<Rightarrow> do {
               f_log f ''--long-sleep: dispatch: %v'' [AStr err]; State_Monad.return (Ret ()) }
           | Ret (_, None) \<Rightarrow> do {
               f_log f ''--long-sleep: dispatched one %ds sleep job; SIGKILL me within that window to orphan it'' [AInt n];
               State_Monad.return (Ret ()) }) })"

definition dispatch_seed :: "'w framework \<Rightarrow> 'w benv \<Rightarrow> 'w dispatcher \<Rightarrow> ('w, unit go) state" where
  "dispatch_seed f b d = do {
     r \<leftarrow> SeedAll b (Some d);
     (case r of
        Panicked m \<Rightarrow> State_Monad.return (Panicked m)
      | Ret (Some err) \<Rightarrow> do {
          f_log f ''--seed-jobs: SeedAll reported errors: %v'' [AStr err]; State_Monad.return (Ret ()) }
      | Ret None \<Rightarrow> do { f_log f ''--seed-jobs: all test jobs dispatched'' []; State_Monad.return (Ret ()) }) }"

text \<open>Where \<open>main\<close> stands before its call of \<open>Stress\<close>: exited with a message, panicked, or
  ready with the queue and the configuration of the run, if one was asked for.\<close>

datatype 'w main_state = MainFatal string | MainPanic string | MainReady "'w queue" "stressConfig option"

definition main_dispatch :: "'w framework \<Rightarrow> 'w benv \<Rightarrow> 'w queue \<Rightarrow> flags \<Rightarrow> ('w, 'w main_state) state" where
  "main_dispatch f b q fl = do {
     let d = queue_dispatcher (f_errtext f) (b_env b) q;
     r1 \<leftarrow> (if 0 < fl_longSleep fl then dispatch_long_sleep f b d (fl_longSleep fl) else State_Monad.return (Ret ()));
     (case r1 of
        Panicked m \<Rightarrow> State_Monad.return (MainPanic m)
      | Ret _ \<Rightarrow> do {
          r2 \<leftarrow> (if fl_seedJobs fl then dispatch_seed f b d else State_Monad.return (Ret ()));
          State_Monad.return
            (case r2 of
               Panicked m \<Rightarrow> MainPanic m
             | Ret _ \<Rightarrow> MainReady q
                 (if 0 < fl_stressN fl
                  then Some \<lparr>c_Count = fl_stressN fl, c_Concurrency = fl_stressC fl, c_Mode = fl_stressMode fl\<rparr>
                  else None)) }) }"

definition main_before :: "'w framework \<Rightarrow> 'w benv \<Rightarrow> flags \<Rightarrow> ('w, 'w main_state) state" where
  "main_before f b fl = do {
     e0 \<leftarrow> f_Load f ''.env.queuebench'';
     (case e0 of
        Some err \<Rightarrow> f_log f ''queuebench: warning: .env.queuebench not loaded: %v (continuing with existing environment)'' [AStr err]
      | None \<Rightarrow> State_Monad.return ());
     r \<leftarrow> bootstrapApplication f;
     (case r of
        Inl err \<Rightarrow> State_Monad.return (MainFatal err)
      | Inr a \<Rightarrow> do {
          e1 \<leftarrow> f_Start f a;
          (case e1 of
             Some err \<Rightarrow> State_Monad.return (MainFatal (''queuebench: failed to start rpc: '' @ err))
           | None \<Rightarrow> do {
               s \<leftarrow> lookupQueueService f;
               (case s of
                  None \<Rightarrow> State_Monad.return (MainFatal
                    ''queuebench: queue service not available; is the adele-queue provider registered?'')
                | Some q \<Rightarrow> do {
                    let (es, q1) = RegisterAll b q;
                    f_putQueue f q1;
                    log_register_errors f b es;
                    main_dispatch f b q1 fl }) }) }) }"

text \<open>The last message before \<open>main\<close> blocks for ever.\<close>

definition main_after :: "'w framework \<Rightarrow> string option \<Rightarrow> ('w, unit) state" where
  "main_after f err = do {
     (case err of
        Some m \<Rightarrow> f_log f ''--stress-jobs: Stress reported error: %v'' [AStr m]
      | None \<Rightarrow> State_Monad.return ());
     f_log f ''queuebench: dispatch complete; workers + reaper running. Ctrl-C to exit.'' [] }"

text \<open>\<open>main_run f b fl w w'\<close>: started in \<open>w\<close>, \<open>main\<close> reaches its final \<open>select\<close> in
  \<open>w'\<close>.\<close>

inductive main_run :: "'w framework \<Rightarrow> 'w benv \<Rightarrow> flags \<Rightarrow> 'w \<Rightarrow> 'w \<Rightarrow> bool" for f b fl where
  no_stress: "run_state (main_before f b fl) w = (MainReady q None, w1) \<Longrightarrow>
    run_state (main_after f None) w1 = ((), w2) \<Longrightarrow> main_run f b fl w w2"
| refused: "run_state (main_before f b fl) w = (MainReady q (Some cfg), w1) \<Longrightarrow>
    run_state (Stress_begin b (Some (queue_dispatcher (f_errtext f) (b_env b) q)) cfg) w1 = (Inl err, w2) \<Longrightarrow>
    run_state (main_after f (Some err)) w2 = ((), w3) \<Longrightarrow> main_run f b fl w w3"
| stressed: "run_state (main_before f b fl) w = (MainReady q (Some cfg), w1) \<Longrightarrow>
    run_state (Stress_begin b (Some (queue_dispatcher (f_errtext f) (b_env b) q)) cfg) w1 = (Inr s0, w2) \<Longrightarrow>
    (\<lambda>c c'. \<exists>l. sstep b (queue_dispatcher (f_errtext f) (b_env b) q) c l c')\<^sup>*\<^sup>* (s0, w2) (s, w3) \<Longrightarrow>
    t_main s = Returned \<Longrightarrow> run_state (main_after f None) w3 = ((), w4) \<Longrightarrow> main_run f b fl w w4"

section \<open>Shutting down\<close>

text \<open>The goroutine that waits for a signal, from the moment the signal \<open>s\<close> arrives; the queue
  of the harness is a redis queue.\<close>

definition listenForShutdown :: "'w framework \<Rightarrow> app \<Rightarrow> string \<Rightarrow> ('w, unit) state" where
  "listenForShutdown f a s = do {
     f_log f ''queuebench: received signal '' [AStr s];
     e \<leftarrow> f_Stop f a;
     (case e of Some err \<Rightarrow> f_log f ''queuebench: rpc stop: %v'' [AStr err] | None \<Rightarrow> State_Monad.return ());
     svc \<leftarrow> lookupQueueService f;
     (case svc of
        None \<Rightarrow> State_Monad.return ()
      | Some q \<Rightarrow> do {
          let (q1, flag) = Close_redis q False;
          f_putQueue f q1;
          f_SetShutdown f flag;
          f_Wait f });
     f_log f ''queuebench: goodbye'' [] }"

section \<open>The harness starts\<close>

text \<open>The queue the harness configures.\<close>

definition harness_queue_ok :: "'w benv \<Rightarrow> 'w queue \<Rightarrow> bool" where
  "harness_queue_ok b q \<longleftrightarrow> wf_queue q \<and> q_Backend q = ''redis'' \<and> q_WorkerCount q = 4 \<and> q_MaxAttempts q = 5
     \<and> set (q_QueueChannels q) = {''job'', ''email''} \<and> q_QueueChannelDefault q = ''job''
     \<and> q_LockTimeout q = 10 \<and> q_ReaperInterval q = 5
     \<and> (\<forall>(name, fn) \<in> set (handler_table b). lookup_handler q name = Some \<lparr>plain = Some fn, ctx = None\<rparr>)"

lemma harness_build:
  assumes "buildQueue (Some a) (configure_map harness_config zero_configuration) = Ret q"
  shows "wf_queue q" and "q_Backend q = ''redis''" and "q_WorkerCount q = 4" and "q_MaxAttempts q = 5"
    and "set (q_QueueChannels q) = {''job'', ''email''}" and "q_QueueChannelDefault q = ''job''"
    and "q_LockTimeout q = 10" and "q_ReaperInterval q = 5" and "lookup_handler q = Map.empty"
proof -
  let ?c = "configure_map harness_config zero_configuration"
  have "wf_config ?c"
    by (simp add: wf_config_def configure_map_def harness_config_def as_string_def as_int_def)
  then have id: "setConfigDefaults ?c = ?c" by (rule setConfigDefaults_id)
  have c: "c_Backend ?c = ''redis''" "c_WorkerCount ?c = 4" "c_MaxAttempts ?c = 5" "c_QueueChannels ?c = [''job'', ''email'']"
    "c_QueueChannelDefault ?c = ''job''" "c_LockTimeout ?c = 10" "c_ReaperInterval ?c = 5"
    by (simp_all add: configure_map_def harness_config_def as_string_def as_int_def as_strings_def)
  note f = buildQueue_fields [OF assms, unfolded id c]
  show "q_Backend q = ''redis''" "q_WorkerCount q = 4" "q_MaxAttempts q = 5" "q_QueueChannelDefault q = ''job''"
    "q_LockTimeout q = 10" "q_ReaperInterval q = 5"
    by (fact f)+
  show "wf_queue q" by (rule buildQueue_wf [OF assms])
  show "set (q_QueueChannels q) = {''job'', ''email''}" using f(8) by auto
  show "lookup_handler q = Map.empty" using f(9) by (simp add: lookup_handler_def fun_eq_iff)
qed

lemma buildQueue_pool:
  assumes "buildQueue (Some a) cfg = Ret q" and "a_Cache a = Some (RedisCache (Some (True, pre)))"
    and "q_Backend q = ''redis''"
  shows "q_Pool q"
proof -
  have "c_Backend (setConfigDefaults cfg) = ''redis''" using buildQueue_fields(1) [OF assms(1)] assms(3) by simp
  with assms(1,2) show ?thesis
    by (auto simp: buildQueue_def resolve_redis_def Let_def split: if_splits)
qed

lemma harness_registered:
  assumes "buildQueue (Some a) (configure_map harness_config zero_configuration) = Ret q"
    and "RegisterAll b q = (es, q1)"
  shows "es = []" and "harness_queue_ok b q1"
proof -
  have es: "es = fst (RegisterAll b q)" and q1: "q1 = snd (RegisterAll b q)" using assms(2) by simp_all
  note h = harness_build [OF assms(1)]
  show "es = []" by (simp add: es RegisterAll_effect h(9))
  have "lookup_handler q1 name = Some \<lparr>plain = Some fn, ctx = None\<rparr>" if "(name, fn) \<in> set (handler_table b)" for name fn
  proof -
    have "map_of (map (\<lambda>(name, fn). (name, \<lparr>plain = Some fn, ctx = None\<rparr>)) (handler_table b)) name
        = Some \<lparr>plain = Some fn, ctx = None\<rparr>"
      using that handler_table_names(2) [of b]
      by (intro map_of_is_SomeI) (auto simp: comp_def case_prod_unfold intro: rev_image_eqI)
    then show ?thesis by (simp add: q1 RegisterAll_effect h(9) map_add_def)
  qed
  moreover have "wf_queue q1" unfolding q1 RegisterAll_def by (rule register_loop_wf [OF h(1)])
  ultimately show "harness_queue_ok b q1"
    using h by (auto simp: harness_queue_ok_def q1 RegisterAll_fields)
qed

lemma main_dispatch_ready:
  assumes "q_Backend q = ''redis''" and "q_Pool q"
  shows "wp (main_dispatch f b q fl) (\<lambda>r _. r = MainReady q (if 0 < fl_stressN fl
     then Some \<lparr>c_Count = fl_stressN fl, c_Concurrency = fl_stressC fl, c_Mode = fl_stressMode fl\<rparr> else None)) w"
proof -
  let ?d = "queue_dispatcher (f_errtext f) (b_env b) q"
  have d: "returns (?d job)" for job by (rule queue_dispatcher_returns [OF assms])
  have "returns (dispatch_long_sleep f b ?d n)" for n
    unfolding dispatch_long_sleep_def
    by (auto split: sum.split option.split intro!: returns_bind_go [OF d] returns_seq)
  then have r1: "returns (if 0 < fl_longSleep fl then dispatch_long_sleep f b ?d (fl_longSleep fl) else State_Monad.return (Ret ()))"
    by simp
  have "returns (dispatch_seed f b ?d)"
    unfolding dispatch_seed_def
    by (auto split: option.split intro!: returns_bind_go [OF SeedAll_returns [OF d]] returns_seq)
  then have r2: "returns (if fl_seedJobs fl then dispatch_seed f b ?d else State_Monad.return (Ret ()))" by simp
  show ?thesis
    unfolding main_dispatch_def Let_def wp_bind
    by (rule wp_mono [OF r1 [unfolded returns_def, rule_format]], elim exE, simp only: go.case wp_bind wp_return,
        rule wp_mono [OF r2 [unfolded returns_def, rule_format]], elim exE) simp
qed

text \<open>
  The documented behaviour of the framework that the harness relies on: \<open>New\<close> succeeds with an
  application that has a redis cache, \<open>LoadProviders\<close> configures the queue's provider with the map
  set for it and registers it with the application, and the rpc server starts.
\<close>

locale harness =
  fixes f :: "'w framework" and a :: app
    and os :: "'v os" and tmpl :: "string + string" and parse :: "string \<Rightarrow> string + configuration"
  assumes getwd: "wp (f_Getwd f) (\<lambda>r _. \<exists>p. r = Inr p) w"
    and app_new: "wp (f_New f path) (\<lambda>r _. r = Inr a) w"
    and redis_cache: "\<exists>pre. a_Cache a = Some (RedisCache (Some (True, pre)))"
    and load: "wp (f_LoadProviders f [''queue'' \<mapsto> harness_config] a) (\<lambda>r w'. r = None \<and>
      (\<exists>p. Register os tmpl parse (Configure new_provider harness_config) (Some (Some a)) = State_Monad.return (Ret (None, p))
         \<and> find_service (f_providers f w') = Service p)) w"
    and start: "wp (f_Start f a) (\<lambda>r w'. r = None \<and> f_providers f w' = f_providers f w) w"
begin

lemma registered_queue:
  fixes p :: "'w serviceProvider"
  assumes "Register os tmpl parse (Configure new_provider harness_config) (Some (Some a)) = State_Monad.return (Ret (None, p))"
  obtains q where "Service p = Some q" and "buildQueue (Some a) (configure_map harness_config zero_configuration) = Ret q"
proof -
  let ?p = "Configure new_provider harness_config :: 'w serviceProvider"
  have c: "p_config ?p = configure_map harness_config zero_configuration" "p_hasConfig ?p"
    by (simp_all add: Configure_def new_provider_def)
  have "makeslice_ok (c_HighWaterMark (setConfigDefaults (p_config ?p)))"
    unfolding c(1) by (simp add: configure_map_def harness_config_def as_int_def setConfigDefaults_def default_int_def makeslice_ok_def)
  from Register_configured [OF c(2) this, of "Some a" os tmpl parse] obtain q where
    q: "buildQueue (Some a) (p_config ?p) = Ret q"
      "Register os tmpl parse ?p (Some (Some a)) = State_Monad.return (Ret (None, ?p\<lparr>p_service := Some q\<rparr>))" by blast
  from arg_cong [OF trans [OF sym [OF assms] q(2)], of "\<lambda>m. fst (run_state m undefined)"]
  have "p = ?p\<lparr>p_service := Some q\<rparr>" by simp
  with q(1) c(1) show ?thesis by (intro that [of q]) (simp_all add: Service_def)
qed

lemma bootstrap_ok:
  "wp (bootstrapApplication f) (\<lambda>r w'. r = Inr a \<and> (\<exists>q. find_service (f_providers f w') = Some q
     \<and> buildQueue (Some a) (configure_map harness_config zero_configuration) = Ret q)) w"
  unfolding bootstrapApplication_def wp_bind
  by (rule wp_mono [OF getwd], elim exE, simp add: wp_bind, rule wp_mono [OF app_new], simp add: wp_bind,
      rule wp_mono [OF load], auto simp: wp_return elim: registered_queue)

lemma main_ready:
  "wp (main_before f b fl) (\<lambda>r _. \<exists>q. harness_queue_ok b q \<and> q_Pool q \<and> r = MainReady q (if 0 < fl_stressN fl
     then Some \<lparr>c_Count = fl_stressN fl, c_Concurrency = fl_stressC fl, c_Mode = fl_stressMode fl\<rparr> else None)) w"
  unfolding main_before_def wp_bind
proof (rule wpI, rule wpI, rule wp_mono [OF bootstrap_ok], elim conjE exE, goal_cases)
  case (1 e0 w0 u w1 r w2 q)
  show ?case
    unfolding 1 sum.case wp_bind
  proof (rule wp_mono [OF start], goal_cases)
    case (1 e1 w3)
    obtain es q1 where reg: "RegisterAll b q = (es, q1)" by (cases "RegisterAll b q")
    obtain pre where pre: "a_Cache a = Some (RedisCache (Some (True, pre)))" using redis_cache by blast
    note ok = harness_registered [OF \<open>buildQueue _ _ = Ret q\<close> reg]
    have q1: "q_Backend q1 = ''redis''" "q_Pool q1"
      using ok(2) buildQueue_pool [OF \<open>buildQueue _ _ = Ret q\<close> pre harness_build(2)] \<open>buildQueue _ _ = Ret q\<close> RegisterAll_fields(2) [of b q] reg
      by (simp_all add: harness_queue_ok_def)
    have "find_service (f_providers f w3) = Some q" using 1 \<open>find_service (f_providers f w2) = Some q\<close> by simp
    then have look: "wp (lookupQueueService f) Q w3 \<longleftrightarrow> Q (Some q) w3" for Q
      by (simp add: lookupQueueService_def wp_def)
    show ?case
      using 1 unfolding look option.case Let_def reg prod.case wp_bind ok(1) log_register_errors.simps wp_return
      by (simp only: option.case wp_bind look) (simp only: Let_def reg prod.case wp_bind ok(1) log_register_errors.simps wp_return,
        rule wpI, rule wp_mono [OF main_dispatch_ready [OF q1]], use ok q1 in auto)
  qed
qed

text \<open>So \<open>main\<close> gets to its final \<open>select\<close>, with or without a stress run.\<close>

lemma main_completes:
  assumes "in_int64 (fl_stressN fl)"
  shows "\<exists>w'. main_run f b fl w w'"
proof -
  obtain r w1 where r: "run_state (main_before f b fl) w = (r, w1)" by fastforce
  with wpD [OF main_ready] obtain q where q: "harness_queue_ok b q" "q_Pool q"
    and ready: "r = MainReady q (if 0 < fl_stressN fl
     then Some \<lparr>c_Count = fl_stressN fl, c_Concurrency = fl_stressC fl, c_Mode = fl_stressMode fl\<rparr> else None)"
    by blast
  have after: "\<exists>w'. run_state (main_after f e) w = ((), w')" for e w
    by (cases "run_state (main_after f e) w") auto
  show ?thesis
  proof (cases "0 < fl_stressN fl")
    case False
    with after [of None w1] r ready show ?thesis by (auto intro: main_run.no_stress)
  next
    case True
    let ?d = "queue_dispatcher (f_errtext f) (b_env b) q"
    let ?cfg = "\<lparr>c_Count = fl_stressN fl, c_Concurrency = fl_stressC fl, c_Mode = fl_stressMode fl\<rparr>"
    have d: "returns (?d job)" for job
      using q by (intro queue_dispatcher_returns) (simp_all add: harness_queue_ok_def)
    obtain g t w2 where s0: "run_state (Stress_begin b (Some ?d) ?cfg) w1 = (Inr (stress_init (stress_defaults ?cfg) g t), w2)"
      (is "_ = (Inr ?s0, _)") using True by (rule_tac Stress_begin_starts [of ?cfg b ?d w1]) auto
    have fine: "\<not> t_crashed ?s0" by (simp add: stress_init_def)
    obtain s w3 where "(\<lambda>c c'. \<exists>l. sstep b ?d c l c')\<^sup>*\<^sup>* (?s0, w2) (s, w3)" and "t_main s = Returned"
      using stress_completes [of ?cfg ?s0 ?d b w2, OF sinv_start [OF s0] _ d fine] assms by auto
    with after [of None w3] True r ready s0 show ?thesis by (auto intro: main_run.stressed)
  qed
qed

end

end
