(* ===== verification/Redis_Lifecycle.thy ===== *)
theory Redis_Lifecycle
  imports Reaper
begin

text \<open>
  The life of a job on the redis backend as an abstract state machine, and the proof that the
  scanner and the reaper implement it.

  The abstract state of a job is the set of its phases (pending, locked, completed, failed), each
  with the retry counter of the copy stored there; \<open>life\<close> has one rule per transition the
  queue makes. \<open>phases\<close> reads the abstract state off the hashes of redis. The refinement is
  \<open>scan_key_evolves\<close> and \<open>reap_key_evolves\<close>: whatever redis answers, handling one key is a
  sequence of \<open>life\<close> steps of the job that owns the key, and no step of any other job. What
  holds of every run of the abstract machine (\<open>life_shape\<close>, \<open>life_pending_bound\<close>,
  \<open>life_final\<close>) then holds of every interleaving of workers and reaper, key by key.
\<close>

section \<open>The abstract machine\<close>

datatype phase = Pending | Locked | Completed | Failed

type_synonym life_state = "phase \<rightharpoonup> int"

inductive life :: "int \<Rightarrow> life_state \<Rightarrow> life_state \<Rightarrow> bool" for maxAttempts where
  claim: "A Pending = Some n \<Longrightarrow> life maxAttempts A (A(Pending := None, Locked \<mapsto> n))"
| unlock: "A Pending \<noteq> None \<Longrightarrow> life maxAttempts A (A(Locked := None))"
| complete: "A Locked = Some n \<Longrightarrow> A Pending = None \<Longrightarrow>
    life maxAttempts A (A(Locked := None, Completed \<mapsto> n))"
| retry: "A Locked = Some n \<Longrightarrow> A Pending = None \<Longrightarrow> n < maxAttempts \<Longrightarrow>
    life maxAttempts A (A(Pending \<mapsto> wrap64 (n + 1)))"
| fail: "A Locked = Some n \<Longrightarrow> A Pending = None \<Longrightarrow>
    life maxAttempts A (A(Locked := None, Failed \<mapsto> n))"
| requeue: "A Locked = Some n \<Longrightarrow> A Pending = None \<Longrightarrow> wrap64 (n + 1) < maxAttempts \<Longrightarrow>
    life maxAttempts A (A(Locked := None, Pending \<mapsto> wrap64 (n + 1)))"
| expire_fail: "A Locked = Some n \<Longrightarrow> A Pending = None \<Longrightarrow>
    life maxAttempts A (A(Locked := None, Failed \<mapsto> wrap64 (n + 1)))"
| mark: "A Locked = Some n \<Longrightarrow> A Pending = None \<Longrightarrow>
    life maxAttempts A (A(Locked \<mapsto> wrap64 (n + 1)))"

inductive_simps life_from: "life maxAttempts A B"

text \<open>The states a job that was dispatched once can be in: waiting, claimed, claimed with its retry
  already waiting, or finished in one of two ways.\<close>

definition life_shapes :: "phase set set" where
  "life_shapes = {{Pending}, {Locked}, {Locked, Pending}, {Completed}, {Failed}}"

lemma life_shape_step:
  assumes "life M A B" and "dom A \<in> life_shapes"
  shows "dom B \<in> life_shapes"
proof -
  have P: "A Pending = None \<longleftrightarrow> Pending \<notin> dom A" and L: "A Locked = None \<longleftrightarrow> Locked \<notin> dom A" by auto
  from assms(1) show ?thesis
  proof cases
    case (claim n)
    with assms(2) have "dom A = {Pending} \<or> dom A = {Locked, Pending}" using P by (auto simp: life_shapes_def)
    with claim show ?thesis by (auto simp: life_shapes_def)
  next
    case unlock
    with assms(2) have "dom A = {Pending} \<or> dom A = {Locked, Pending}" using P by (auto simp: life_shapes_def)
    with unlock show ?thesis by (auto simp: life_shapes_def)
  qed (use assms(2) P L in \<open>auto simp: life_shapes_def\<close>)
qed

lemma life_shape:
  assumes "(life M)\<^sup>*\<^sup>* A B" and "dom A \<in> life_shapes"
  shows "dom B \<in> life_shapes"
  using assms by (induction rule: rtranclp_induct) (auto intro: life_shape_step)

text \<open>A finished job takes no more steps.\<close>

lemma life_final:
  assumes "(life M)\<^sup>*\<^sup>* A B" and "A Pending = None" and "A Locked = None"
  shows "B = A"
  using assms
proof (induction rule: rtranclp_induct)
  case base
  then show ?case by simp
next
  case (step B C)
  from step.hyps(2) step.IH step.prems show ?case by (auto elim!: life.cases)
qed

text \<open>A waiting job was retried at most \<open>maxAttempts\<close> times.\<close>

lemma life_pending_bound:
  assumes "(life M)\<^sup>*\<^sup>* A B" and "\<And>n. A Pending = Some n \<Longrightarrow> n \<le> b" and "M \<le> b" and "in_int64 M"
    and "\<And>n. A Locked = Some n \<Longrightarrow> in_int64 n" and "\<And>n. A Pending = Some n \<Longrightarrow> in_int64 n"
  shows "(\<forall>n. B Pending = Some n \<longrightarrow> n \<le> b \<and> in_int64 n) \<and> (\<forall>n. B Locked = Some n \<longrightarrow> in_int64 n)"
  using assms
proof (induction rule: rtranclp_induct)
  case base
  then show ?case by simp
next
  case (step B C)
  have wrap: "wrap64 (n + 1) \<le> b" if "n < M" "in_int64 n" for n
  proof -
    from that assms(4) have "in_int64 (n + 1)" by (auto simp: in_int64_def)
    with that assms(3) show ?thesis by simp
  qed
  from step.hyps(2) step.IH [OF step.prems] assms(3) wrap show ?case
    by (auto elim!: life.cases simp: wrap64_in_range split: if_splits)
qed

section \<open>The abstraction\<close>

fun phase_key :: "phase \<Rightarrow> string \<Rightarrow> string \<Rightarrow> string" where
  "phase_key Pending queue i = sprintf formatPending [queue, i]"
| "phase_key Locked queue i = sprintf formatLocked [queue, i]"
| "phase_key Completed queue i = sprintf formatComplete [queue, i]"
| "phase_key Failed queue i = sprintf formatFailed [queue, i]"

definition phases :: "(string \<rightharpoonup> 'w job) \<Rightarrow> string \<Rightarrow> string \<Rightarrow> life_state" where
  "phases m queue i = (\<lambda>st. map_option j_RetryCounter (m (phase_key st queue i)))"

lemma phase_key_eq [simp]: "phase_key st queue i = phase_key st' queue i \<longleftrightarrow> st = st'"
  by (cases st; cases st') simp_all

lemma phases_upd:
  "phases (m(phase_key st queue i := x)) queue i = (phases m queue i)(st := map_option j_RetryCounter x)"
  by (simp add: phases_def fun_eq_iff)

lemmas phases_upds [simp] =
  phases_upd [of _ Pending, simplified] phases_upd [of _ Locked, simplified]
  phases_upd [of _ Completed, simplified] phases_upd [of _ Failed, simplified]

text \<open>Writing a locked job again without touching its counter is no abstract step.\<close>

lemma phases_rewrite_locked:
  assumes "m (sprintf formatLocked [queue, i]) = Some j" and "j_RetryCounter j' = j_RetryCounter j"
  shows "phases (m(sprintf formatLocked [queue, i] \<mapsto> j')) queue i = phases m queue i"
proof -
  have "phases m queue i Locked = Some (j_RetryCounter j)" by (simp add: phases_def assms(1))
  then show ?thesis by (simp add: assms(2) fun_upd_idem)
qed

lemma phases_at:
  "phases m queue i Pending = map_option j_RetryCounter (m (sprintf formatPending [queue, i]))"
  "phases m queue i Locked = map_option j_RetryCounter (m (sprintf formatLocked [queue, i]))"
  by (simp_all add: phases_def)

text \<open>Steps of one job: the other keys are as before.\<close>

definition same_elsewhere :: "string \<Rightarrow> string \<Rightarrow> (string \<rightharpoonup> 'w job) \<Rightarrow> (string \<rightharpoonup> 'w job) \<Rightarrow> bool" where
  "same_elsewhere queue i m m' \<longleftrightarrow> (\<forall>k. k \<notin> job_keys queue i \<longrightarrow> m' k = m k)"

definition evolves ::
  "int \<Rightarrow> string \<Rightarrow> string \<Rightarrow> (string \<rightharpoonup> 'w job) \<Rightarrow> (string \<rightharpoonup> 'w job) \<Rightarrow> bool" where
  "evolves M queue i m m' \<longleftrightarrow>
     same_elsewhere queue i m m' \<and> (life M)\<^sup>*\<^sup>* (phases m queue i) (phases m' queue i)"

text \<open>A claimed job that is put returned: what a closed gate does.\<close>

definition put_back :: "string \<Rightarrow> string \<Rightarrow> (string \<rightharpoonup> 'w job) \<Rightarrow> (string \<rightharpoonup> 'w job) \<Rightarrow> bool" where
  "put_back queue i m m' \<longleftrightarrow> same_elsewhere queue i m m'
     \<and> phases m' queue i = (phases m queue i)(Locked := None, Pending := phases m queue i Locked)"

lemma same_elsewhere_refl [simp]: "same_elsewhere queue i m m"
  by (simp add: same_elsewhere_def)

lemma same_elsewhere_trans:
  "same_elsewhere queue i m m' \<Longrightarrow> same_elsewhere queue i m' m'' \<Longrightarrow> same_elsewhere queue i m m''"
  by (simp add: same_elsewhere_def)

lemma same_elsewhere_upd:
  "k \<in> job_keys queue i \<Longrightarrow> same_elsewhere queue i m (m'(k := x)) \<longleftrightarrow> same_elsewhere queue i m m'"
  by (auto simp: same_elsewhere_def)

lemmas same_elsewhere_upds [simp] =
  same_elsewhere_upd [OF job_keys_mem(1)] same_elsewhere_upd [OF job_keys_mem(2)]
  same_elsewhere_upd [OF job_keys_mem(3)] same_elsewhere_upd [OF job_keys_mem(4)]

lemma evolves_refl [simp]: "evolves M queue i m m"
  by (simp add: evolves_def)

lemma evolves_trans: "evolves M queue i m m' \<Longrightarrow> evolves M queue i m' m'' \<Longrightarrow> evolves M queue i m m''"
  by (auto simp: evolves_def intro: same_elsewhere_trans)

lemma evolves_step:
  "evolves M queue i m m1 \<Longrightarrow> same_elsewhere queue i m1 m2
     \<Longrightarrow> life M (phases m1 queue i) (phases m2 queue i) \<Longrightarrow> evolves M queue i m m2"
  by (auto simp: evolves_def intro: same_elsewhere_trans)

lemma evolves_stutter:
  "evolves M queue i m m1 \<Longrightarrow> same_elsewhere queue i m1 m2
     \<Longrightarrow> phases m2 queue i = phases m1 queue i \<Longrightarrow> evolves M queue i m m2"
  by (auto simp: evolves_def intro: same_elsewhere_trans)

section \<open>The worker implements the machine\<close>

context redis_server
begin

lemma redis_complete_evolves:
  assumes "evolves M queue i m (ks w)" and "ks w (sprintf formatPending [queue, i]) = None"
    and "ks w (sprintf formatLocked [queue, i]) = Some j" and "j_RetryCounter job = j_RetryCounter j"
  shows "wp (redis_complete e queue job i) (\<lambda>_ w'. evolves M queue i m (ks w')) w"
proof (rule wp_mono [OF redis_complete_ks], unfold Let_def, elim exE disjE, goal_cases)
  case (2 u w' now)
  then show ?case
    using assms by (auto intro!: evolves_stutter [OF assms(1)] phases_rewrite_locked simp del: phases_upds simp: redis_view_def)
next
  case (3 u w' now)
  then show ?case
    using assms by (auto intro!: evolves_step [OF assms(1)] life.complete simp: redis_view_def phases_at)
qed (use assms in simp)

lemma redis_retry_evolves:
  assumes "evolves M queue i m (ks w)" and "ks w (sprintf formatPending [queue, i]) = None"
    and "ks w (sprintf formatLocked [queue, i]) = Some j" and "j_RetryCounter job = j_RetryCounter j"
    and "j_RetryCounter job < M"
  shows "wp (redis_retry e queue job i) (\<lambda>_ w'. evolves M queue i m (ks w')) w"
proof (rule wp_mono [OF redis_retry_ks], unfold Let_def, elim exE disjE, goal_cases)
  case (2 u w' gate now)
  then show ?case
    using assms by (auto intro!: evolves_step [OF assms(1)] life.retry simp: redis_view_def phases_at)
qed (use assms in simp)

lemma redis_fail_evolves:
  assumes "evolves M queue i m (ks w)" and "ks w (sprintf formatPending [queue, i]) = None"
    and "ks w (sprintf formatLocked [queue, i]) = Some j" and "j_RetryCounter job = j_RetryCounter j"
  shows "wp (redis_fail e q queue job i rpcError) (\<lambda>_ w'. evolves M queue i m (ks w')) w"
proof (rule wp_mono [OF redis_fail_ks], unfold Let_def, elim exE disjE, goal_cases)
  case (2 u w' now)
  then show ?case
    using assms by (auto intro!: evolves_stutter [OF assms(1)] phases_rewrite_locked simp del: phases_upds simp: redis_view_def)
next
  case (3 u w' now)
  then show ?case
    using assms by (auto intro!: evolves_step [OF assms(1)] life.fail simp: redis_view_def phases_at)
qed (use assms in simp)

end

context redis_job
begin

lemma handleRedisJob_evolves:
  assumes "ks w (sprintf formatPending [queue, i]) = None"
    and "ks w (sprintf formatLocked [queue, i]) = Some j" and "j_RetryCounter job = j_RetryCounter j"
    and "j_ID job = i"
  shows "wp (handleRedisJob e q queue job i) (\<lambda>_ w'. evolves (q_MaxAttempts q) queue i (ks w) (ks w')) w"
  unfolding handleRedisJob_def wp_bind assms(4)
proof (rule wp_mono [OF hset_Status], goal_cases)
  case (1 rerr w1)
  obtain r err where rerr: "rerr = (r, err)" by (cases rerr)
  show ?case
  proof (cases err)
    case None
    let ?j1 = "j\<lparr>j_Status := statusActive\<rparr>"
    from 1 rerr None assms(2) have ks1: "ks w1 = (ks w)(sprintf formatLocked [queue, i] \<mapsto> ?j1)" by simp
    have ev: "evolves (q_MaxAttempts q) queue i (ks w) (ks w1)"
      unfolding ks1 by (rule evolves_stutter [OF evolves_refl _ phases_rewrite_locked [of "ks w" queue i j]]) (simp_all add: assms(2))
    have "wp (redis_call e q job) (\<lambda>(res, err, j'). wp (if res = 0 then redis_complete e queue j' i
              else if res = 1 then
                (if j_Retry j' \<and> j_RetryCounter j' < q_MaxAttempts q
                 then redis_retry e queue j' i else redis_fail e q queue j' i err)
              else State_Monad.return ()) (\<lambda>_ w'. evolves (q_MaxAttempts q) queue i (ks w) (ks w'))) w1"
    proof (rule wp_mono [OF redis_call_ks], goal_cases)
      case (1 res w2)
      obtain n err2 j' where res: "res = (n, err2, j')" by (cases res) auto
      with 1 have ks2: "ks w2 = ks w1" and rc: "j_RetryCounter j' = j_RetryCounter ?j1"
        using assms(3) by auto
      have P: "ks w2 (sprintf formatPending [queue, i]) = None"
        and L: "ks w2 (sprintf formatLocked [queue, i]) = Some ?j1" using ks1 ks2 assms(1) by auto
      have ev2: "evolves (q_MaxAttempts q) queue i (ks w) (ks w2)" using ev ks2 by simp
      note out = redis_complete_evolves [OF ev2 P L rc] redis_retry_evolves [OF ev2 P L rc]
        redis_fail_evolves [OF ev2 P L rc]
      show ?case using out ev2 by (simp add: res wp_return)
    qed
    then show ?thesis by (simp add: rerr None wp_bind case_prod_unfold)
  next
    case (Some x)
    with 1 rerr show ?thesis by (simp add: wp_return)
  qed
qed

lemma run_claimed_evolves:
  assumes "ks w (sprintf formatPending [queue, i]) = None"
    and "ks w (sprintf formatLocked [queue, i]) = Some j" and "j_ID j = i"
  shows "wp (run_claimed e q queue i)
     (\<lambda>_ w'. evolves (q_MaxAttempts q) queue i (ks w) (ks w') \<or> put_back queue i (ks w) (ks w')) w"
proof -
  have stay: "evolves (q_MaxAttempts q) queue i (ks w) (ks w')"
    if "ks w' = (ks w)(sprintf formatLocked [queue, i] \<mapsto> j\<lparr>j_LockedAt := s\<rparr>)" for s w'
    by (rule evolves_stutter [OF evolves_refl])
      (use that phases_rewrite_locked [of "ks w" queue i j "j\<lparr>j_LockedAt := s\<rparr>"] assms(2) in \<open>auto simp del: phases_upds\<close>)
  show ?thesis
  proof (rule run_claimed_wp [OF assms(2)], goal_cases)
    case (1 fl s w')
    then show ?case using stay by blast
  next
    case (2 fl s w')
    then show ?case using assms(2) by (auto simp: put_back_def phases_at)
  next
    case (3 s w')
    have "wp (handleRedisJob e q queue (j\<lparr>j_LockedAt := s\<rparr>) i)
        (\<lambda>_ w''. evolves (q_MaxAttempts q) queue i (ks w') (ks w'')) w'"
      by (rule handleRedisJob_evolves [of w' queue i "j\<lparr>j_LockedAt := s\<rparr>"]) (use 3 assms in auto)
    then show ?case by (rule wp_mono) (use evolves_trans [OF stay [OF 3]] in blast)
  qed
qed

end

section \<open>Refinement of one key\<close>

text \<open>The store evolves: every job makes steps of its own machine.\<close>

definition all_evolve :: "int \<Rightarrow> (string \<rightharpoonup> 'w job) \<Rightarrow> (string \<rightharpoonup> 'w job) \<Rightarrow> bool" where
  "all_evolve M m m' \<longleftrightarrow> (\<forall>queue i. clean_name queue \<longrightarrow> clean_name i
     \<longrightarrow> (life M)\<^sup>*\<^sup>* (phases m queue i) (phases m' queue i))"

lemma all_evolve_refl [simp]: "all_evolve M m m"
  by (simp add: all_evolve_def)

lemma all_evolve_trans: "all_evolve M m m' \<Longrightarrow> all_evolve M m' m'' \<Longrightarrow> all_evolve M m m''"
  unfolding all_evolve_def by (meson rtranclp_trans)

lemma phase_key_mem [simp]: "phase_key st queue i \<in> job_keys queue i"
  by (cases st) simp_all

lemma evolves_all:
  assumes "evolves M queue i m m'" and "clean_name queue" and "clean_name i"
  shows "all_evolve M m m'"
  unfolding all_evolve_def
proof (intro allI impI)
  fix queue' i'
  assume c: "clean_name queue'" "clean_name i'"
  show "(life M)\<^sup>*\<^sup>* (phases m queue' i') (phases m' queue' i')"
  proof (cases "queue' = queue \<and> i' = i")
    case True
    then show ?thesis using assms(1) by (simp add: evolves_def)
  next
    case False
    have "phase_key st queue' i' \<notin> job_keys queue i" for st
      using job_keys_parts [OF c phase_key_mem] job_keys_parts [OF assms(2,3)] False by fastforce
    then have "phases m' queue' i' = phases m queue' i'"
      using assms(1) by (simp add: evolves_def same_elsewhere_def phases_def)
    then show ?thesis by simp
  qed
qed

context redis_job
begin

lemma scan_key_evolves:
  assumes "jobs_ok G (ks w)"
  shows "wp (scan_key e q r) (\<lambda>_ w'. all_evolve (q_MaxAttempts q) (ks w) (ks w')) w"
proof (rule scan_key_wp, goal_cases)
  case (1 fl w')
  then show ?case by simp
next
  case (2 queue i j w1)
  note P = 2(3) and ks1 = 2(4)
  from jobs_okD [OF assms 2(1,2) job_keys_mem(2) P] have j: "j_ID j = i" by simp
  have ev: "evolves (q_MaxAttempts q) queue i (ks w) (ks w1)"
    by (rule evolves_step [OF evolves_refl]) (auto simp: ks1 phases_at P intro!: life.claim)
  have returned: "evolves (q_MaxAttempts q) queue i (ks w) (ks w')" if "put_back queue i (ks w1) (ks w')" for w'
  proof (rule evolves_step [OF evolves_refl])
    show "same_elsewhere queue i (ks w) (ks w')"
      using that same_elsewhere_trans [of queue i "ks w" "ks w1" "ks w'"] by (simp add: put_back_def ks1)
    have "phases (ks w') queue i = (phases (ks w) queue i)(Locked := None)"
      using that P by (auto simp: put_back_def ks1 phases_at fun_eq_iff)
    then show "life (q_MaxAttempts q) (phases (ks w) queue i) (phases (ks w') queue i)"
      by (simp add: life.unlock phases_at P)
  qed
  have "wp (run_claimed e q queue i) (\<lambda>_ w'. evolves (q_MaxAttempts q) queue i (ks w1) (ks w')
      \<or> put_back queue i (ks w1) (ks w')) w1"
    by (rule run_claimed_evolves) (use ks1 j in auto)
  then show ?case
    by (rule wp_mono) (use evolves_all [OF _ 2(1,2)] evolves_trans [OF ev] returned in blast)
qed

end

section \<open>The reaper implements the machine\<close>

context redis_server
begin

text \<open>Both transitions write the expired job over its lock and rename it; the rename may fail.\<close>

lemma hset_rename_evolves:
  assumes "ks w (sprintf formatPending [queue, i]) = None"
    and "ks w (sprintf formatLocked [queue, i]) = Some old"
    and "j_RetryCounter j = wrap64 (j_RetryCounter old + 1)"
    and "new = formatFailed \<or> new = formatPending \<and> j_RetryCounter j < M"
    and "\<And>rerr w'. evolves M queue i (ks w) (ks w') \<Longrightarrow> wp (k rerr) Q w'"
    and "\<And>err w'. evolves M queue i (ks w) (ks w') \<Longrightarrow> wp (k' err) Q w'"
  shows "wp (do {
     (r, err) \<leftarrow> e_Do e (''HSET'' # sprintf formatLocked [queue, i] # e_AddFlat e j);
     (if err \<noteq> None then k' err
      else do { rerr \<leftarrow> setRedisKey (Some e) queue i formatLocked new; k rerr }) }) Q w"
  unfolding wp_bind
proof (rule wp_mono [OF hset_job], goal_cases)
  case (1 rep w1)
  obtain r err where rep: "rep = (r, err)" by (cases rep)
  have rc: "j_RetryCounter (redis_view j) = wrap64 (j_RetryCounter old + 1)"
    by (simp add: redis_view_def assms(3))
  have Lp: "phases (ks w) queue i Locked = Some (j_RetryCounter old)"
    and Pp: "phases (ks w) queue i Pending = None" using assms(1,2) by (simp_all add: phases_at)
  show ?case
  proof (cases err)
    case None
    with 1 rep have ks1: "ks w1 = (ks w)(sprintf formatLocked [queue, i] \<mapsto> redis_view j)" by simp
    have mark: "evolves M queue i (ks w) (ks w1)"
      by (rule evolves_step [OF evolves_refl]) (simp_all add: ks1 rc life.mark [OF Lp Pp])
    have move: "evolves M queue i (ks w) ((ks w)(sprintf formatLocked [queue, i] := None, sprintf new [queue, i] \<mapsto> redis_view j))"
      using assms(4) life.expire_fail [OF Lp Pp] life.requeue [OF Lp Pp]
      by (elim disjE) (auto intro!: evolves_step [OF evolves_refl] simp: rc assms(3))
    have "new \<noteq> []" using assms(4) by (elim disjE conjE) simp_all
    then have "wp (setRedisKey (Some e) queue i formatLocked new) (\<lambda>_ w'. evolves M queue i (ks w) (ks w')) w1"
      by (intro wp_mono [OF setRedisKey_ks]) (use mark move in \<open>auto simp: ks1 split: if_splits\<close>)
    then show ?thesis
      unfolding rep prod.case None simp_thms if_False wp_bind by (rule wp_mono) (rule assms(5))
  next
    case (Some x)
    with 1 rep assms(6) show ?thesis by (simp add: wp_if)
  qed
qed

lemma requeueExpiredLock_evolves:
  assumes "ks w (sprintf formatPending [queue, i]) = None"
    and "ks w (sprintf formatLocked [queue, i]) = Some j"
  shows "wp (requeueExpiredLock e q queue i j timeout) (\<lambda>_ w'. evolves (q_MaxAttempts q) queue i (ks w) (ks w')) w"
proof -
  let ?Q = "\<lambda>_ w'. evolves (q_MaxAttempts q) queue i (ks w) (ks w')"
  have "wp (reap_requeue e queue i (expire j timeout)) ?Q w" if "j_RetryCounter (expire j timeout) < q_MaxAttempts q"
    unfolding reap_requeue_def wp_bind Let_def
  proof (rule wp_mono [OF now_ks], goal_cases)
    case (1 now w1)
    show ?case
      unfolding wp_bind [symmetric] 1 [symmetric]
      by (rule hset_rename_evolves [where M = "q_MaxAttempts q" and old = j])
        (use assms 1 that in \<open>auto simp: wp_return expire_def\<close>)
  qed
  moreover have "wp (reap_permafail e q queue i (expire j timeout)) ?Q w"
    unfolding reap_permafail_def wp_bind Let_def
  proof (rule wp_mono [OF now_utc_ks], rule wp_mono [OF now_ks], rule wp_mono [OF now_ks], goal_cases)
    case (1 now w1 c w2 u w3)
    then have ks3: "ks w3 = ks w" by simp
    show ?case
      unfolding wp_bind [symmetric] ks3 [symmetric]
      by (rule hset_rename_evolves [where M = "q_MaxAttempts q" and old = j])
        (use assms ks3 in \<open>auto simp: wp_return wp_bind expire_def split: option.split intro!: wp_mono [OF insert_ks]\<close>)
  qed
  ultimately show ?thesis by (auto simp: requeueExpiredLock_def Let_def)
qed

lemma reap_expired_evolves:
  assumes "ks w (sprintf formatLocked [queue, i]) = Some job"
  shows "wp (reap_expired e q queue i job t) (\<lambda>_ w'. evolves (q_MaxAttempts q) queue i (ks w) (ks w')) w"
  unfolding reap_expired_def wp_bind
proof (rule wp_mono [OF exists], goal_cases)
  case (1 rep w1)
  show ?case
  proof (cases "e_Int e rep")
    case (Inl err)
    then show ?thesis using 1 by (simp add: wp_return)
  next
    case (Inr n)
    with 1 have n: "n = (if ks w (sprintf formatPending [queue, i]) = None then 0 else 1)" by blast
    show ?thesis
    proof (cases "ks w (sprintf formatPending [queue, i])")
      case None
      then have "wp (requeueExpiredLock e q queue i job (lock_timeout q job))
          (\<lambda>_ w'. evolves (q_MaxAttempts q) queue i (ks w) (ks w')) w1"
        using requeueExpiredLock_evolves [of w1 queue i job] assms 1 by simp
      then show ?thesis using Inr n None by (simp add: wp_bind wp_return case_prod_unfold)
    next
      case (Some j2)
      have "evolves (q_MaxAttempts q) queue i (ks w) ((ks w)(sprintf formatLocked [queue, i] := None))"
        by (rule evolves_step [OF evolves_refl]) (simp_all add: life.unlock phases_at Some)
      then have "wp (e_Do e [''DEL'', sprintf formatLocked [queue, i]])
          (\<lambda>_ w'. evolves (q_MaxAttempts q) queue i (ks w) (ks w')) w1"
        by - (rule wp_mono [OF del], use 1 in \<open>auto split: if_splits\<close>)
      then show ?thesis using Inr n Some by (simp add: wp_bind wp_return case_prod_unfold)
    qed
  qed
qed

lemma reap_key_evolves: "wp (reap_key e q t r) (\<lambda>_ w'. all_evolve (q_MaxAttempts q) (ks w) (ks w')) w"
proof (rule reap_key_wp, goal_cases)
  case (1 t w')
  then show ?case by simp
next
  case (2 queue i job w')
  have "wp (reap_expired e q queue i job (t\<lparr>scanned := scanned t + 1\<rparr>))
      (\<lambda>_ w''. evolves (q_MaxAttempts q) queue i (ks w') (ks w'')) w'"
    by (rule reap_expired_evolves) (simp add: 2)
  then show ?case unfolding 2(4) by (rule wp_mono) (erule evolves_all [OF _ 2(1,2)])
qed

end

section \<open>Any interleaving\<close>

text \<open>One key handled by some scanning worker, or by the reaper, whatever page it came from: the
  granularity at which the goroutines of a process (and of other processes with the same handlers)
  are interleaved here.\<close>

inductive key_step :: "'w env \<Rightarrow> 'w queue \<Rightarrow> 'w \<Rightarrow> 'w \<Rightarrow> bool" for e q where
  scanned: "run_state (scan_key e q r) w = (fl, w') \<Longrightarrow> key_step e q w w'"
| reaped: "run_state (reap_key e q t r) w = (t', w') \<Longrightarrow> key_step e q w w'"

context redis_job
begin

lemma key_step_evolves:
  assumes "key_step e q w w'" and "jobs_ok G (ks w)"
  shows "jobs_ok G (ks w')" and "all_evolve (q_MaxAttempts q) (ks w) (ks w')"
proof -
  from assms(1) have "no_loss G (ks w) (ks w') \<and> all_evolve (q_MaxAttempts q) (ks w) (ks w')"
  proof cases
    case (scanned r fl)
    then show ?thesis using wpD [OF scan_key_no_loss] wpD [OF scan_key_evolves] assms(2) by metis
  next
    case (reaped t r t')
    then show ?thesis using wpD [OF reap_key_no_loss] wpD [OF reap_key_evolves] assms(2) by metis
  qed
  then show "jobs_ok G (ks w')" and "all_evolve (q_MaxAttempts q) (ks w) (ks w')"
    by (simp_all add: no_loss_def)
qed

lemma key_steps_evolve:
  assumes "(key_step e q)\<^sup>*\<^sup>* w w'" and "jobs_ok G (ks w)"
  shows "jobs_ok G (ks w') \<and> all_evolve (q_MaxAttempts q) (ks w) (ks w')"
  using assms
proof (induction rule: rtranclp_induct)
  case base
  then show ?case by simp
next
  case (step w1 w2)
  then show ?case using key_step_evolves [OF step.hyps(2)] all_evolve_trans by blast
qed

text \<open>What the machine's invariants say of a job that starts as pending.\<close>

lemma key_steps_job:
  assumes "(key_step e q)\<^sup>*\<^sup>* w w'" and "jobs_ok G (ks w)" and "clean_name queue" and "clean_name i"
    and "dom (phases (ks w) queue i) \<in> life_shapes"
  shows "dom (phases (ks w') queue i) \<in> life_shapes"
    and "(life (q_MaxAttempts q))\<^sup>*\<^sup>* (phases (ks w) queue i) (phases (ks w') queue i)"
proof -
  show steps: "(life (q_MaxAttempts q))\<^sup>*\<^sup>* (phases (ks w) queue i) (phases (ks w') queue i)"
    using key_steps_evolve [OF assms(1,2)] assms(3,4) by (simp add: all_evolve_def)
  show "dom (phases (ks w') queue i) \<in> life_shapes" by (rule life_shape [OF steps assms(5)])
qed

end

section \<open>Claiming is exclusive\<close>

context redis_live
begin

text \<open>Two claims of one pending key: the first renames it, the second finds no such key and changes
  nothing.\<close>

lemma claim_exclusive:
  assumes "ks w (sprintf formatPending [queue, i]) = Some j"
  shows "wp (do {
       first \<leftarrow> setRedisKey (Some e) queue i formatPending formatLocked;
       second \<leftarrow> setRedisKey (Some e) queue i formatPending formatLocked;
       State_Monad.return (first, second) })
     (\<lambda>(first, second) w'. first = None \<and> second \<noteq> None
        \<and> ks w' = (ks w)(sprintf formatPending [queue, i] := None, sprintf formatLocked [queue, i] \<mapsto> j)) w"
  unfolding wp_bind
proof (rule wp_mono [OF setRedisKey_live [OF _ _ assms]], simp_all, goal_cases)
  case (1 w1)
  have "wp (setRedisKey (Some e) queue i formatPending formatLocked) (\<lambda>r w'. r \<noteq> None \<and> ks w' = ks w1) w1"
    using 1 unfolding setRedisKey_def
    by (simp add: wp_bind Let_def)
      (rule wp_mono [OF wp_conj [OF rename rename_missing]], auto simp: wp_return split: if_splits)
  then show ?case by (rule wp_mono) (use 1 in \<open>auto simp: wp_return\<close>)
qed

end

end
