(* ===== verification/Redis_Reference.thy ===== *)
theory Redis_Reference
  imports Reaper Dispatching "HOL-Library.AList"
begin

text \<open>
  A reference redis: an executable keyspace of hashes with the commands the queue uses
  (\<open>HSET\<close>, \<open>HGETALL\<close>, \<open>RENAME\<close>, \<open>EXISTS\<close>, \<open>DEL\<close>, \<open>SCAN\<close> with a
  \<open>MATCH\<close> pattern), the client library's flattening of a job into field/value arguments and
  back, a clock that stands still, a table of rows and a counter for ids. The world may be extended
  by what handlers touch (the benchmark's state); the commands leave the extension alone. It satisfies the laws of
  \<open>redis_server\<close> and \<open>redis_live\<close>, so those laws are consistent, and the definitions of the
  development run on it.

  \<open>HSET\<close> answers an integer, \<open>RENAME\<close> a status, a missing source is the error
  \<open>ERR no such key\<close>, a command of another shape is an error, and \<open>SCAN\<close> returns everything
  in one page.
\<close>

section \<open>State and commands\<close>

type_synonym hash = "(string \<times> string) list"

record ref_world =
  w_keys :: "(string \<times> hash) list"
  w_rows :: "(string \<times> string list) list"
  w_ids :: nat
  w_shutdown :: bool

fun pairs_of :: "string list \<Rightarrow> hash" where
  "pairs_of (f # v # r) = (f, v) # pairs_of r"
| "pairs_of _ = []"

definition hset :: "string list \<Rightarrow> hash \<Rightarrow> hash" where
  "hset fvs h = fold (\<lambda>(f, v). AList.update f v) (pairs_of fvs) h"

text \<open>Glob patterns with stars only.\<close>

fun glob :: "string \<Rightarrow> string \<Rightarrow> bool" where
  "glob [] s = (s = [])"
| "glob (p # ps) s =
     (if p = CHR ''*''
      then glob ps s \<or> (case s of [] \<Rightarrow> False | _ # cs \<Rightarrow> glob (p # ps) cs)
      else (case s of [] \<Rightarrow> False | c # cs \<Rightarrow> c = p \<and> glob ps cs))"

definition hash_of :: "'a ref_world_scheme \<Rightarrow> string \<Rightarrow> hash" where
  "hash_of w k = (case map_of (w_keys w) k of None \<Rightarrow> [] | Some h \<Rightarrow> h)"

definition ref_hset :: "string \<Rightarrow> string list \<Rightarrow> 'a ref_world_scheme \<Rightarrow> (reply \<times> string option) \<times> 'a ref_world_scheme" where
  "ref_hset k fvs w =
     (if fvs = [] \<or> odd (length fvs)
      then ((RNil, Some ''ERR wrong number of arguments for 'hset' command''), w)
      else ((RInt (int (length fvs div 2)), None),
            w\<lparr>w_keys := AList.update k (hset fvs (hash_of w k)) (w_keys w)\<rparr>))"

definition ref_rename :: "string \<Rightarrow> string \<Rightarrow> 'a ref_world_scheme \<Rightarrow> (reply \<times> string option) \<times> 'a ref_world_scheme" where
  "ref_rename k k' w =
     (case map_of (w_keys w) k of
        None \<Rightarrow> ((RNil, Some ''ERR no such key''), w)
      | Some h \<Rightarrow> ((RStatus ''OK'', None),
                    w\<lparr>w_keys := AList.update k' h (AList.delete k (w_keys w))\<rparr>))"

definition ref_do :: "string list \<Rightarrow> ('a ref_world_scheme, reply \<times> string option) state" where
  "ref_do args = State (\<lambda>w.
     (case args of
        [] \<Rightarrow> ((RNil, Some ''ERR unknown command''), w)
      | c # as \<Rightarrow>
          if c = ''HSET'' then
            (case as of k # fvs \<Rightarrow> ref_hset k fvs w
             | [] \<Rightarrow> ((RNil, Some ''ERR wrong number of arguments for 'hset' command''), w))
          else if c = ''HGETALL'' then
            ((RArr (concat (map (\<lambda>(f, v). [RBulk f, RBulk v]) (hash_of w (hd (as @ [[]]))))), None), w)
          else if c = ''RENAME'' then
            (case as of [k, k'] \<Rightarrow> ref_rename k k' w
             | _ \<Rightarrow> ((RNil, Some ''ERR wrong number of arguments for 'rename' command''), w))
          else if c = ''EXISTS'' then
            ((RInt (if map_of (w_keys w) (hd (as @ [[]])) = None then 0 else 1), None), w)
          else if c = ''DEL'' then
            ((RInt (if map_of (w_keys w) (hd (as @ [[]])) = None then 0 else 1), None),
             w\<lparr>w_keys := AList.delete (hd (as @ [[]])) (w_keys w)\<rparr>)
          else if c = ''SCAN'' then
            ((RArr [RBulk ''0'', RArr (map RBulk (filter (glob (as ! 2)) (map fst (w_keys w))))], None), w)
          else ((RNil, Some ''ERR unknown command''), w)))"

section \<open>The client library\<close>

definition int_of_dec :: "string \<Rightarrow> int" where
  "int_of_dec s = (case s of c # r \<Rightarrow> if c = CHR ''-'' then - int (digits_val 0 r) else int (digits_val 0 s) | [] \<Rightarrow> 0)"

lemma int_of_dec_itoa [simp]: "int_of_dec (itoa n) = n"
proof (cases "n < 0")
  case False
  obtain c r where cr: "nat_digits (nat n) = c # r" by (cases "nat_digits (nat n)") auto
  from nat_digits_no_sign [OF cr] digits_val_nat_digits [of "nat n"] False show ?thesis
    by (simp add: itoa_def int_of_dec_def cr)
qed (simp add: itoa_def int_of_dec_def digits_val_nat_digits)

definition bool_arg :: "bool \<Rightarrow> string" where
  "bool_arg b = (if b then ''1'' else ''0'')"

lemma bool_arg_1 [simp]: "bool_arg b = ''1'' \<longleftrightarrow> b"
  by (simp add: bool_arg_def)

definition add_flat :: "'w job \<Rightarrow> string list" where
  "add_flat j =
     [''ID'', j_ID j, ''Name'', j_Name j, ''Payload'', payload_bytes (j_Payload j),
      ''Retry'', bool_arg (j_Retry j), ''RetryInSeconds'', itoa (j_RetryInSeconds j),
      ''RetryCounter'', itoa (j_RetryCounter j), ''ReservedAt'', j_ReservedAt j,
      ''RetryAfter'', j_RetryAfter j, ''DispatchAt'', j_DispatchAt j,
      ''CompletedAt'', j_CompletedAt j, ''FailedAt'', j_FailedAt j, ''LockedAt'', j_LockedAt j,
      ''LockFor'', itoa (j_LockFor j), ''Queue'', j_Queue j, ''Exception'', j_Exception j,
      ''Status'', j_Status j]"

definition read_job :: "(string \<rightharpoonup> string) \<Rightarrow> 'w job" where
  "read_job m =
     (let get = (\<lambda>f. case m f of None \<Rightarrow> [] | Some v \<Rightarrow> v); num = (\<lambda>f. int_of_dec (get f)) in
      \<lparr>j_ID = get ''ID'', j_Handler = None, j_Name = get ''Name'', j_Payload = m ''Payload'',
       j_Retry = (get ''Retry'' = ''1''), j_RetryInSeconds = num ''RetryInSeconds'',
       j_RetryCounter = num ''RetryCounter'', j_ReservedAt = get ''ReservedAt'',
       j_RetryAfter = get ''RetryAfter'', j_DispatchAt = get ''DispatchAt'',
       j_CompletedAt = get ''CompletedAt'', j_FailedAt = get ''FailedAt'',
       j_LockedAt = get ''LockedAt'', j_LockFor = num ''LockFor'', j_Queue = get ''Queue'',
       j_CreatedAt = zero_time, j_UpdatedAt = zero_time, j_Exception = get ''Exception'',
       j_Status = get ''Status''\<rparr>)"

fun bulk_pairs :: "reply list \<Rightarrow> hash" where
  "bulk_pairs (RBulk f # RBulk v # r) = (f, v) # bulk_pairs r"
| "bulk_pairs _ = []"

definition ref_env :: "time \<Rightarrow> 'a ref_world_scheme env" where
  "ref_env now =
     \<lparr>e_Do = ref_do, e_AddFlat = add_flat,
      e_ScanStruct = (\<lambda>rs. Inr (read_job (map_of (bulk_pairs rs)))),
      e_Values = (\<lambda>(r, err). case err of Some m \<Rightarrow> Inl m
                    | None \<Rightarrow> (case r of RArr rs \<Rightarrow> Inr rs | _ \<Rightarrow> Inl ''redigo: unexpected type for Values'')),
      e_Int = (\<lambda>(r, err). case err of Some m \<Rightarrow> Inl m
                 | None \<Rightarrow> (case r of RInt n \<Rightarrow> Inr n | _ \<Rightarrow> Inl ''redigo: unexpected type for Int'')),
      e_String = (\<lambda>r. case r of RBulk b \<Rightarrow> Inr b | RStatus s \<Rightarrow> Inr s
                        | _ \<Rightarrow> Inl ''redigo: unexpected type for String''),
      e_Strings = (\<lambda>r. case r of RArr rs \<Rightarrow> Inr (map (\<lambda>x. case x of RBulk b \<Rightarrow> b | _ \<Rightarrow> []) rs)
                         | _ \<Rightarrow> Inl ''redigo: unexpected type for Strings''),
      e_connErr = (\<lambda>w. None),
      e_Insert = (\<lambda>tbl j. State (\<lambda>w. (None, w\<lparr>w_rows := w_rows w @ [(tbl, add_flat j)]\<rparr>))),
      e_All = (\<lambda>tbl w. Inr (map (\<lambda>(t, fs). read_job (map_of (pairs_of fs))) (filter (\<lambda>(t, fs). t = tbl) (w_rows w)))),
      e_Now = State_Monad.return now, e_Local = (\<lambda>t. 0), e_Sleep = (\<lambda>d. State_Monad.return ()),
      e_UUID = State (\<lambda>w. (''job-'' @ itoa (int (w_ids w)), w\<lparr>w_ids := Suc (w_ids w)\<rparr>)),
      e_shutdown = w_shutdown, e_ulow = (\<lambda>s. s), e_uquote = (\<lambda>s. s)\<rparr>"

definition ref_ks :: "'a ref_world_scheme \<Rightarrow> string \<rightharpoonup> 'a ref_world_scheme job" where
  "ref_ks w k = map_option (\<lambda>h. read_job (map_of h)) (map_of (w_keys w) k)"

section \<open>The laws\<close>

lemma map_of_hset: "map_of (fold (\<lambda>(f, v). AList.update f v) kvs h) = map_of h ++ map_of (rev kvs)"
  by (induction kvs arbitrary: h) (auto simp: update_conv' map_add_def fun_eq_iff split: option.splits)

lemma map_of_hset_single [simp]: "map_of (hset [f, v] h) = (map_of h)(f \<mapsto> v)"
  by (simp add: hset_def update_conv')

lemma read_job_add_flat: "read_job (map_of (hset (add_flat j) h)) = redis_view j"
proof -
  have "map_of (hset (add_flat j) h) f = map_of (rev (pairs_of (add_flat j))) f"
    if "map_of (rev (pairs_of (add_flat j))) f \<noteq> None" for f
    using that by (auto simp: hset_def map_of_hset map_add_def split: option.splits)
  then show ?thesis
    by (cases j) (simp add: read_job_def add_flat_def redis_view_def Let_def)
qed

lemma read_job_LockedAt: "read_job (m(''LockedAt'' \<mapsto> v)) = (read_job m)\<lparr>j_LockedAt := v\<rparr>"
  by (simp add: read_job_def Let_def)

lemma read_job_Status: "read_job (m(''Status'' \<mapsto> v)) = (read_job m)\<lparr>j_Status := v\<rparr>"
  by (simp add: read_job_def Let_def)

lemma read_job_empty: "read_job Map.empty = zero_job"
  by (simp add: read_job_def zero_job_def Let_def int_of_dec_def)

lemma bulk_pairs_concat: "bulk_pairs (concat (map (\<lambda>(f, v). [RBulk f, RBulk v]) h)) = h"
  by (induction h) auto

lemma ref_hash: "read_job (map_of (hash_of w k)) = job_or_zero (ref_ks w k)"
  by (simp add: hash_of_def ref_ks_def job_or_zero_def read_job_empty split: option.splits)

lemma ref_ks_update: "ref_ks (w\<lparr>w_keys := AList.update k h (w_keys w)\<rparr>) = (ref_ks w)(k \<mapsto> read_job (map_of h))"
  by (auto simp: ref_ks_def update_conv' fun_eq_iff)

lemma add_flat_length [simp]: "add_flat j \<noteq> []" "even (length (add_flat j))"
  by (simp_all add: add_flat_def)

lemma ref_ks_other [simp]:
  "ref_ks (w\<lparr>w_rows := r\<rparr>) = ref_ks w" "ref_ks (w\<lparr>w_ids := n\<rparr>) = ref_ks w"
  "ref_ks (w\<lparr>w_shutdown := b\<rparr>) = ref_ks w"
  by (simp_all add: ref_ks_def fun_eq_iff)

lemma ref_ks_rename:
  "map_of (w_keys w) k = Some h \<Longrightarrow>
     ref_ks (w\<lparr>w_keys := AList.update k' h (AList.delete k (w_keys w))\<rparr>) = (ref_ks w)(k := None, k' := ref_ks w k)"
  by (auto simp: ref_ks_def update_conv' delete_conv' fun_eq_iff)

lemmas ref_defs = ref_env_def ref_do_def ref_hset_def ref_rename_def wp_def

lemma ref_redis_server: "redis_server (ref_env now) ref_ks"
proof (unfold_locales, goal_cases)
  case (1 k j w)
  show ?case by (simp add: ref_defs ref_ks_update read_job_add_flat)
next
  case (2 k v w)
  show ?case by (simp add: ref_defs ref_ks_update read_job_LockedAt ref_hash)
next
  case (3 k v w)
  show ?case by (simp add: ref_defs ref_ks_update read_job_Status ref_hash)
next
  case (4 k k' w)
  show ?case
    by (cases "map_of (w_keys w) k") (simp_all add: ref_defs ref_ks_rename, simp add: ref_ks_def)
next
  case (5 k w)
  show ?case by (simp add: ref_defs bulk_pairs_concat ref_hash)
next
  case (6 k w)
  show ?case by (simp add: ref_defs ref_ks_def)
next
  case (7 k w)
  show ?case by (simp add: ref_defs ref_ks_def delete_conv' fun_eq_iff)
next
  case (8 args w)
  show ?case by (simp add: ref_defs)
next
  case (9 w)
  show ?case by (simp add: ref_defs)
next
  case (10 d w)
  show ?case by (simp add: ref_defs)
next
  case (11 tbl j w)
  show ?case by (simp add: ref_defs)
qed

interpretation ref_redis: redis_live "ref_env now" ref_ks for now
proof (intro redis_live.intro ref_redis_server, unfold_locales, goal_cases)
  case (1 k j w)
  show ?case by (simp add: ref_defs)
next
  case (2 k v w)
  show ?case by (simp add: ref_defs)
next
  case (3 k v w)
  show ?case by (simp add: ref_defs)
next
  case (4 w k k')
  then show ?case by (auto simp: ref_defs ref_ks_def)
next
  case (5 w k k')
  have "str_contains (''ERR '' @ ''no such key'') ''no such key''"
    by (rule str_contains_append) (simp add: str_contains_def)
  with 5 show ?case by (simp add: ref_defs ref_ks_def)
next
  case (6 k w)
  show ?case by (simp add: ref_defs)
next
  case (7 k w)
  show ?case by (simp add: ref_defs)
next
  case (8 k w)
  show ?case by (simp add: ref_defs)
qed

section \<open>A queue and a job on the reference redis\<close>

text \<open>A queue with a handler that succeeds, one that returns an error and one that panics.\<close>

definition ref_queue :: "ref_world queue" where
  "ref_queue =
     \<lparr>q_Backend = ''redis'', q_Debug = False, q_FailedJobs = [], q_Pool = True, q_Prefix = [],
      q_ScanInterval = 1, q_WorkerCount = 1, q_MaxAttempts = 3, q_HighWaterMark = 100,
      q_QueueChannels = [''default'', ''emails''], q_QueueChannelDefault = ''default'', q_DB = True,
      q_LockTimeout = 300, q_ReaperInterval = 30,
      q_handlers = Some [''ok'' \<mapsto> \<lparr>plain = Some (\<lambda>p. State_Monad.return HOk), ctx = None\<rparr>,
                         ''bad'' \<mapsto> \<lparr>plain = Some (\<lambda>p. State_Monad.return (HErr ''boom'')), ctx = None\<rparr>,
                         ''loud'' \<mapsto> \<lparr>plain = None, ctx = Some (\<lambda>done p. State_Monad.return (HPanic ''oh no''))\<rparr>],
      q_pendingCount = 0, q_ctxDone = False, q_hasCancel = True\<rparr>"

interpretation ref_jobs: redis_job_live "ref_env now" ref_ks ref_queue for now
  by unfold_locales
    (auto simp: ref_queue_def lookup_handler_def call_registered_def wp_return split: if_splits)

text \<open>A job of channel \<open>emails\<close>, stored under one key, at noon of 1 January 2024. Its gate opened
  a second before.\<close>

definition ref_noon :: time where
  "ref_noon = 1704110400 * second"

definition ref_job :: "string \<Rightarrow> ref_world job" where
  "ref_job name = zero_job\<lparr>j_ID := ''job-1'', j_Name := name, j_Payload := Some ''hello'', j_Retry := True,
     j_RetryAfter := ''2024-01-01T11:59:59Z'', j_Queue := ''emails'', j_Status := statusPending\<rparr>"

definition ref_store :: "string \<Rightarrow> ref_world job \<Rightarrow> ref_world" where
  "ref_store k j = \<lparr>w_keys = [(k, pairs_of (add_flat j))], w_rows = [], w_ids = 7, w_shutdown = False\<rparr>"

lemma read_job_pairs: "read_job (map_of (pairs_of (add_flat j))) = redis_view j"
proof -
  have "map_of (pairs_of (add_flat j)) = map_of (hset (add_flat j) [])"
    by (simp add: hset_def map_of_hset add_flat_def fun_upd_twist)
  then show ?thesis by (simp add: read_job_add_flat)
qed

lemma ref_ks_store: "ref_ks (ref_store k j) = [k \<mapsto> redis_view j]"
  by (auto simp: ref_ks_def ref_store_def fun_eq_iff read_job_pairs)

lemma ref_store_ok:
  assumes "clean_name queue" and "clean_name i" and "k \<in> job_keys queue i" and "j_ID j = i"
  shows "jobs_ok (\<lambda>queue i. ident j) (ref_ks (ref_store k j))"
proof -
  have "queue' = queue \<and> i' = i"
    if "clean_name queue'" "clean_name i'" "k \<in> job_keys queue' i'" for queue' i'
    using job_keys_parts [OF that] job_keys_parts [OF assms(1-3)] by simp
  with assms(4) show ?thesis
    by (auto simp: jobs_ok_def ref_ks_store redis_view_def split: if_splits) (auto simp: ident_def)
qed

section \<open>Scanning the reference redis\<close>

text \<open>It answers in one page, so every cursor loop ends with one call.\<close>

lemma atoi_0: "atoi ''0'' = (0, None)"
proof -
  have "itoa 0 = ''0''" by code_simp
  then show ?thesis using atoi_itoa [of 0] by (simp add: in_int64_def)
qed

lemma ref_scan_ends: "scan_ends (ref_env now) (\<lambda>_. 0)"
  by (simp add: scan_ends_def ref_env_def ref_do_def scan_page_def reply_list_def reply_bytes_def atoi_0)

lemma ref_depth_ends: "depth_ends (ref_env now) (\<lambda>_. 0)"
  by (simp add: depth_ends_def ref_env_def ref_do_def depth_page_def)

definition pending_keys :: "'a ref_world_scheme \<Rightarrow> string \<Rightarrow> nat" where
  "pending_keys w c = length (filter (glob (''queues:'' @ c @ '':pending:*'')) (map fst (w_keys w)))"

lemma ref_depth_channel:
  "run_state (depth_channel (Suc n) (ref_env now) c ''0'' acc) w = (Some (Inr (wrap64 (acc + int (pending_keys w c)))), w)"
  by (simp add: ref_env_def ref_do_def depth_page_def pending_keys_def)

text \<open>The reading of the pattern: a star at the end matches every continuation.\<close>

lemma glob_star: "glob ''*'' s"
  by (induction s) auto

lemma glob_prefix: "CHR ''*'' \<notin> set p \<Longrightarrow> glob (p @ ''*'') s \<longleftrightarrow> (\<exists>r. s = p @ r)"
proof (induction p arbitrary: s)
  case Nil
  then show ?case by (auto simp: glob_star simp del: glob.simps)
next
  case (Cons c p)
  then show ?case by (cases s) auto
qed

end
