(* ===== verification/Example_States.thy ===== *)
theory Example_States
  imports Provider Redis_Reference
begin

text \<open>
  Concrete queues, jobs and stores on the reference redis, with the facts about them that the examples
  of the root theory use: each property there is applied once to a concrete state.
\<close>

text \<open>A queue on the memory backend, for the examples.\<close>

definition mem_queue :: "ref_world queue" where
  "mem_queue = ref_queue\<lparr>q_Backend := ''memory'', q_Pool := False\<rparr>"

definition ref_empty :: ref_world where
  "ref_empty = \<lparr>w_keys = [], w_rows = [], w_ids = 7, w_shutdown = False\<rparr>"

lemma mem_queue_fields [simp]:
  "q_Backend mem_queue = ''memory''" "q_pendingCount mem_queue = 0" "q_WorkerCount mem_queue = 1"
  "q_MaxAttempts mem_queue = 3" "q_HighWaterMark mem_queue = 100" "q_FailedJobs mem_queue = []"
  by (simp_all add: mem_queue_def ref_queue_def)

lemma mem_queue_wf: "wf_queue mem_queue"
  by (simp add: wf_queue_def wf_failed_def wf_registry_def one_shape_def mem_queue_def ref_queue_def)

text \<open>A dispatched job that no worker has taken yet.\<close>

lemma mem_dispatched:
  "\<exists>s. reachable (ref_env ref_noon) mem_queue s \<and> \<not> m_crashed s \<and> \<not> m_closed s \<and> in_flight s = 1
     \<and> (\<exists>j. m_sending s = {#j#}) \<and> m_idle s = 1"
proof -
  let ?e = "ref_env ref_noon" and ?s = "Listen (init_msys mem_queue ref_empty)"
  obtain res q' snt w' where run: "run_state (Dispatch ?e (m_q ?s) (ref_job ''ok'')) (m_world ?s) = ((res, q', snt), w')"
    by (metis prod.exhaust)
  have "clock_shows ?e (\<lambda>t. t = ref_noon)" by (simp add: clock_shows_def ref_env_def)
  from wpD [OF Dispatch_memory [OF _ this] run] have "\<exists>j. snt = SentNow j"
    by (auto simp: Listen_def init_msys_def memory_outcome_def due_in_def ref_job_def zero_job_def Let_def)
  then obtain j where snt: "snt = SentNow j" by blast
  have "reachable ?e mem_queue (after_dispatch q' snt w' ?s)"
    by (rule reachable.step [OF reachable.start mstep.dispatch [OF _ _ run]])
      (simp_all add: Listen_def init_msys_def typed_job_def ref_job_def zero_job_def in_int64_def)
  then show ?thesis
    by (rule_tac x = "after_dispatch q' snt w' ?s" in exI)
      (simp add: snt after_dispatch_def start_send_def Listen_def init_msys_def in_flight_def)
qed

lemma mem_queue_handlers:
  "runnable mem_queue (ref_job ''bad'')" "invoke_handler mem_queue (ref_job ''bad'') = State_Monad.return (HErr ''boom'')"
  by (simp_all add: runnable_def hasRegisteredHandler_def lookup_handler_def mem_queue_def ref_queue_def
      invoke_handler_def ref_job_def)

lemma ref_parse_later: "parse_rfc3339 ''2024-01-01T12:00:05Z'' = Some (ref_noon + 5 * second)"
  by code_simp

abbreviation ref_locked :: "string \<Rightarrow> ref_world" where
  "ref_locked name \<equiv> ref_store ''queues:emails:locked:job-1'' (ref_job name)"

lemma ref_keys:
  "sprintf formatLocked [''emails'', ''job-1''] = ''queues:emails:locked:job-1''"
  "sprintf formatPending [''emails'', ''job-1''] = ''queues:emails:pending:job-1''"
  "sprintf formatComplete [''emails'', ''job-1''] = ''queues:emails:completed:job-1''"
  "sprintf formatFailed [''emails'', ''job-1''] = ''queues:emails:failed:job-1''"
  by (simp_all add: sprintf_keys)

lemma ref_job_fields [simp]:
  "j_ID (ref_job name) = ''job-1''" "j_Retry (ref_job name)" "j_RetryCounter (ref_job name) = 0"
  "j_Name (ref_job name) = name" "redis_view (ref_job name) = ref_job name" "j_LockFor (ref_job name) = 0"
  "j_RetryAfter (ref_job name) = ''2024-01-01T11:59:59Z''"
  by (simp_all add: ref_job_def zero_job_def redis_view_def)

lemma ref_yields:
  "j_Name j = ''ok'' \<Longrightarrow> handler_yields ref_queue j (\<lambda>r. r = HOk)"
  "j_Name j = ''bad'' \<or> j_Name j = ''loud'' \<Longrightarrow> handler_yields ref_queue j (\<lambda>r. r \<noteq> HOk)"
  by (auto simp: handler_yields_def lookup_handler_def ref_queue_def call_registered_def)

lemma ref_lookup_None: "lookup_handler ref_queue ''lost'' = None"
  by (simp add: lookup_handler_def ref_queue_def)

lemma ref_queue_fields [simp]:
  "q_MaxAttempts ref_queue = 3" "q_LockTimeout ref_queue = 300" "q_Backend ref_queue = ''redis''" "q_Pool ref_queue"
  "q_QueueChannels ref_queue = [''default'', ''emails'']" "q_QueueChannelDefault ref_queue = ''default''"
  by (simp_all add: ref_queue_def)

abbreviation ref_pending :: "string \<Rightarrow> ref_world" where
  "ref_pending name \<equiv> ref_store ''queues:emails:pending:job-1'' (ref_job name)"

lemma ref_clean [simp]: "clean_name ''emails''" "clean_name ''job-1''"
  by (simp_all add: clean_name_def)

lemma ref_stores_ok:
  "jobs_ok (\<lambda>queue i. ident (ref_job name)) (ref_ks (ref_pending name))"
  "jobs_ok (\<lambda>queue i. ident (ref_job name)) (ref_ks (ref_locked name))"
  by (rule ref_store_ok [of "''emails''" "''job-1''"]; simp add: job_keys_def ref_keys)+

lemma ref_parse: "parse_rfc3339 ''2024-01-01T11:59:59Z'' = Some (ref_noon - second)"
  by code_simp

lemma ref_clock: "clock_shows (ref_env now) P \<longleftrightarrow> P now"
  by (simp add: clock_shows_def ref_env_def)

lemma ref_parse_bad: "parse_rfc3339 ''tomorrow'' = None"
  by code_simp

definition zero_stats :: reaper_stats where
  "zero_stats = \<lparr>Ticks = 0, ScannedKeys = 0, Requeued = 0, Permafailed = 0, SkippedRecent = 0,
     SkippedDupePending = 0, Errors = 0\<rparr>"

text \<open>A lock taken at 11:50, ten minutes before the clock of the examples.\<close>

definition ref_lock :: "ref_world job" where
  "ref_lock = (ref_job ''ok'')\<lparr>j_LockedAt := ''2024-01-01T11:50:00Z''\<rparr>"

lemma ref_parse_lock: "parse_rfc3339 ''2024-01-01T11:50:00Z'' = Some (ref_noon - 600 * second)"
  by code_simp

lemma ref_lock_fields [simp]:
  "redis_view ref_lock = ref_lock" "j_Retry ref_lock" "j_RetryCounter ref_lock = 0" "j_LockFor ref_lock = 0"
  "locked_since ref_lock = Some (ref_noon - 600 * second)"
  by (simp_all add: ref_lock_def redis_view_def ref_job_def zero_job_def locked_since_def ref_parse_lock)

abbreviation ref_stale :: ref_world where
  "ref_stale \<equiv> ref_store ''queues:emails:locked:job-1'' ref_lock"

definition ref_leaked :: ref_world where
  "ref_leaked = ref_stale\<lparr>w_keys := w_keys ref_stale @ w_keys (ref_pending ''ok'')\<rparr>"

lemma ref_ks_leaked:
  "ref_ks ref_leaked = [''queues:emails:pending:job-1'' \<mapsto> ref_job ''ok'', ''queues:emails:locked:job-1'' \<mapsto> ref_lock]"
  by (auto simp: fun_eq_iff ref_ks_def ref_leaked_def ref_store_def read_job_pairs)

lemma ref_rfc3339: "rfc3339_ok 0 (ref_noon + 500000000)"
  by code_simp

lemma ref_uuid: "wp (e_UUID (ref_env now)) (\<lambda>i w'. ref_ks w' = ref_ks w \<and> i = ''job-'' @ itoa (int (w_ids w))) w"
  by (simp add: ref_env_def wp_def)

lemma ref_id_clean: "clean_name (''job-'' @ itoa (int n))"
proof -
  have "is_digit c" if "c \<in> set (itoa (int n))" for c
    using that nat_digits_digits [of c n] by (simp add: itoa_def)
  moreover have "\<not> is_digit (CHR '':'')" by code_simp
  ultimately show ?thesis by (auto simp: clean_name_def)
qed

end
