(* ===== verification/Bench_World.thy ===== *)
theory Bench_World
  imports Queuebench Redis_Lifecycle Example_States
begin

text \<open>
  A concrete world for the benchmark: the reference redis with the package's state beside it, dice
  that always show the same face, and a framework whose \<open>LoadProviders\<close> has registered the
  queue's provider. It satisfies the contracts of \<open>bench_state\<close>, \<open>bench_redis\<close> and
  \<open>harness\<close>, so the benchmark's definitions run on it and their hypotheses are consistent.
\<close>

record bench_world = ref_world +
  w_bench :: bench

text \<open>Of the floating-point numbers only the one the seed jobs use has a text of its own.\<close>

definition ref_json :: json_lib where
  "ref_json = \<lparr>fl_format = (\<lambda>x. if x = Fin (1 / 2) then ''0.5'' else ''0''),
     fl_parse = (\<lambda>s. Some (if s = ''0.5'' then Fin (1 / 2) else Fin 0)), time_error = (\<lambda>s. s)\<rparr>"

definition bench_env :: "time \<Rightarrow> bench_world benv" where
  "bench_env now =
     \<lparr>b_env = ref_env now, b_json = ref_json, b_get = w_bench, b_put = (\<lambda>s w. w\<lparr>w_bench := s\<rparr>),
      b_Float64 = State_Monad.return (Fin (1 / 4)), b_IntN = (\<lambda>n. State_Monad.return (n - 1)),
      b_NumGoroutine = State_Monad.return 9\<rparr>"

lemma ref_json_half: "float_ok ref_json (Fin (1 / 2))"
proof -
  have "num_ok ''0.5''" by code_simp
  then show ?thesis by (simp add: float_ok_def ref_json_def)
qed

interpretation bench: bench_state "bench_env now" for now
  by unfold_locales (simp_all add: bench_env_def ref_env_def wp_def)

section \<open>The harness\<close>

definition bench_app :: app where
  "bench_app = \<lparr>a_Log = True, a_Cache = Some (RedisCache (Some (True, ''qb''))), a_DB = True, a_RootPath = ''/srv''\<rparr>"

definition harness_queue :: "'w queue" where
  "harness_queue = (case buildQueue (Some bench_app) (configure_map harness_config zero_configuration) of Ret q \<Rightarrow> q)"

lemma harness_queue: "buildQueue (Some bench_app) (configure_map harness_config zero_configuration) = Ret harness_queue"
proof -
  have "makeslice_ok (c_HighWaterMark (setConfigDefaults (configure_map harness_config zero_configuration)))"
    by (simp add: configure_map_def harness_config_def as_int_def setConfigDefaults_def default_int_def makeslice_ok_def)
  then show ?thesis
    using buildQueue_panics [of "Some bench_app" "configure_map harness_config zero_configuration"]
    by (auto simp: harness_queue_def split: go.split)
qed

definition bench_framework :: "'w framework" where
  "bench_framework =
     \<lparr>f_Load = (\<lambda>_. State_Monad.return (Some ''open .env.queuebench: no such file or directory'')),
      f_Getwd = State_Monad.return (Inr ''/srv''), f_New = (\<lambda>_. State_Monad.return (Inr bench_app)),
      f_LoadProviders = (\<lambda>m a. State_Monad.return None),
      f_providers = (\<lambda>w. [OtherProvider ''cache'',
        QueueProvider ((Configure new_provider harness_config)\<lparr>p_service := Some harness_queue\<rparr>)]),
      f_putQueue = (\<lambda>q. State_Monad.return ()), f_Start = (\<lambda>a. State_Monad.return None),
      f_Stop = (\<lambda>a. State_Monad.return None), f_SetShutdown = (\<lambda>c. State_Monad.return ()),
      f_Wait = State_Monad.return (), f_log = (\<lambda>fmt args. State_Monad.return ()), f_errtext = (\<lambda>err. ''dispatch error'')\<rparr>"

interpretation bench_harness: harness "bench_framework :: bench_world framework" bench_app os tmpl parse for os tmpl parse
proof (unfold_locales, goal_cases)
  case (4 w)
  let ?p = "Configure new_provider harness_config :: bench_world serviceProvider"
  have c: "p_config ?p = configure_map harness_config zero_configuration" "p_hasConfig ?p"
    by (simp_all add: Configure_def new_provider_def)
  then have "Register os tmpl parse ?p (Some (Some bench_app)) = State_Monad.return (Ret (None, ?p\<lparr>p_service := Some harness_queue\<rparr>))"
    by (simp add: Register_def NewWithConfig_def register_with_def harness_queue)
  then show ?case
    by (auto simp: bench_framework_def wp_return Name_def Service_def)
qed (simp_all add: bench_framework_def bench_app_def wp_return)

section \<open>Seeding the reference redis\<close>

definition bench_queue :: "time \<Rightarrow> bench_world queue" where
  "bench_queue now = snd (RegisterAll (bench_env now) harness_queue)"

lemma bench_queue_ok: "harness_queue_ok (bench_env now) (bench_queue now)" "q_Pool (bench_queue now)"
proof -
  obtain es q1 where reg: "RegisterAll (bench_env now) harness_queue = (es, q1)" by fastforce
  from harness_registered(2) [OF harness_queue reg] show "harness_queue_ok (bench_env now) (bench_queue now)"
    by (simp add: bench_queue_def reg)
  have "q_Pool (harness_queue :: bench_world queue)"
    by (rule buildQueue_pool [OF harness_queue _ harness_build(2) [OF harness_queue]]) (simp add: bench_app_def)
  then show "q_Pool (bench_queue now)" by (simp add: bench_queue_def RegisterAll_fields)
qed

definition ids_given :: "'a ref_world_scheme \<Rightarrow> string set" where
  "ids_given w = (\<lambda>n. ''job-'' @ itoa (int n)) ` {..<w_ids w}"

lemma ref_do_ids: "w_ids (snd (run_state (ref_do args) w)) = w_ids w"
  by (auto simp: ref_do_def ref_hset_def ref_rename_def split: list.split option.split)

lemma itoa_nat_inj: "itoa (int m) = itoa (int n) \<Longrightarrow> m = n"
  by (metis int_of_dec_itoa of_nat_eq_iff)

interpretation bench_seed: bench_redis "bench_env ref_noon" ref_ks "bench_queue ref_noon" ids_given errtext for errtext
proof (intro bench_redis.intro, goal_cases)
  case 1
  show ?case using ref_redis_server by (simp add: bench_env_def)
next
  case 2
  have env: "b_env (bench_env ref_noon) = ref_env ref_noon" by (simp add: bench_env_def)
  note ok = bench_queue_ok [of ref_noon]
  have channel: "redis_channel (ref_env ref_noon) (bench_queue ref_noon) ''job'' = ''job''"
  proof -
    have "RedisKeyspaceFormater (\<lambda>s. s) ''job'' = ''job''" by code_simp
    with ok(1) show ?thesis by (simp add: redis_channel_def harness_queue_ok_def ref_env_def)
  qed
  have "rfc3339_ok 0 ref_noon" by code_simp
  note clock = this
  show ?case
  proof (unfold_locales, goal_cases)
    case (4 w)
    have "''job-'' @ itoa (int (w_ids w)) \<notin> ids_given w" by (auto simp: ids_given_def dest: itoa_nat_inj)
    then show ?case by (simp add: env ref_env_def wp_def ids_given_def lessThan_Suc)
  next
    case (5 args w)
    show ?case using ref_do_ids [of args w] by (simp add: env ref_env_def wp_snd ids_given_def)
  qed (use ok channel clock in \<open>simp_all add: env harness_queue_ok_def\<close>,
      simp_all add: bench_env_def ref_env_def wp_def ids_given_def fun_eq_iff ref_ks_def)
qed

section \<open>States for the examples\<close>

definition bench_start :: bench_world where
  "bench_start = \<lparr>w_keys = [], w_rows = [], w_ids = 7, w_shutdown = False,
     w_bench = \<lparr>flakyAttempts = Map.empty, alwaysErrorAttempts = 0, printed = []\<rparr>\<rparr>"

lemma bench_env_fields [simp]:
  "b_env (bench_env now) = ref_env now" "b_get (bench_env now) = w_bench" "b_json (bench_env now) = ref_json"
  by (simp_all add: bench_env_def)

lemma bench_start_fields [simp]:
  "flakyAttempts (w_bench bench_start) = Map.empty" "alwaysErrorAttempts (w_bench bench_start) = 0"
  "printed (w_bench bench_start) = []" "w_keys bench_start = []" "ref_ks bench_start = Map.empty"
  by (simp_all add: bench_start_def ref_ks_def fun_eq_iff)

lemma bench_runs_own:
  "(name, h) \<in> set (handler_table (bench_env now)) \<Longrightarrow> runs_own (bench_queue now) name h"
  using bench_queue_ok(1) [of now] by (fastforce simp: harness_queue_ok_def runs_own_def)

lemma bench_queue_attempts [simp]: "q_MaxAttempts (bench_queue now) = 5"
  using bench_queue_ok(1) [of now] by (simp add: harness_queue_ok_def)

text \<open>One visit of the scanner, for the examples.\<close>

lemma ref_pending_phases: "phases (ref_ks (ref_pending name)) ''emails'' ''job-1'' = [Pending \<mapsto> 0]"
proof
  fix st show "phases (ref_ks (ref_pending name)) ''emails'' ''job-1'' st = [Pending \<mapsto> 0] st"
    by (cases st) (simp_all add: phases_def ref_ks_store ref_keys)
qed

lemma ref_scan_step:
  "\<exists>w'. (key_step (ref_env ref_noon) ref_queue)\<^sup>*\<^sup>* (ref_pending ''ok'') w' \<and> w' \<noteq> ref_pending ''ok''"
proof -
  let ?e = "ref_env ref_noon" and ?w = "ref_pending ''ok''" and ?k = "RBulk ''queues:emails:pending:job-1''"
  obtain fl w' where run: "run_state (scan_key ?e ref_queue ?k) ?w = (fl, w')" by fastforce
  then have steps: "(key_step ?e ref_queue)\<^sup>*\<^sup>* ?w w'" by (blast intro: key_step.scanned)
  have "wp (scan_key ?e ref_queue ?k) (\<lambda>fl w'. ref_ks w' ''queues:emails:pending:job-1'' = None) ?w"
    using redis_job_live.scan_key_success [OF ref_jobs.redis_job_live_axioms, of "''emails''" "''job-1''" ?w
        "ref_job ''ok''" "ref_noon - second" ref_noon]
    by (simp add: ref_keys ref_ks_store ref_parse ref_clock ref_yields(1) second_def) (erule wp_mono, auto)
  from wpD [OF this run] have "w' \<noteq> ?w" by (auto simp: ref_ks_store)
  with steps show ?thesis by blast
qed

text \<open>A small stress run against the reference redis.\<close>

definition bench_dispatcher :: "bench_world dispatcher" where
  "bench_dispatcher = queue_dispatcher (\<lambda>err. ''dispatch error'') (ref_env ref_noon) (bench_queue ref_noon)"

definition bench_stress :: "string \<Rightarrow> stressConfig" where
  "bench_stress mode = \<lparr>c_Count = 3, c_Concurrency = 2, c_Mode = mode\<rparr>"

lemma bench_dispatcher_returns: "returns (bench_dispatcher job)"
  unfolding bench_dispatcher_def using bench_queue_ok [of ref_noon]
  by (intro queue_dispatcher_returns) (simp_all add: harness_queue_ok_def)

lemma bench_stress_starts:
  "\<exists>s w. sreach (bench_env ref_noon) bench_dispatcher (bench_stress mode) (s, w) \<and> t_main s = Loop 0 \<and> \<not> t_crashed s"
proof -
  obtain g t w where "run_state (Stress_begin (bench_env ref_noon) (Some bench_dispatcher) (bench_stress mode)) bench_start
      = (Inr (stress_init (stress_defaults (bench_stress mode)) g t), w)"
    by (rule Stress_begin_starts [of "bench_stress mode"]) (auto simp: bench_stress_def)
  from sreach.start [OF this] show ?thesis by (auto simp: stress_init_def)
qed

lemma bench_stress_returns:
  "\<exists>s w. sreach (bench_env ref_noon) bench_dispatcher (bench_stress mode) (s, w) \<and> t_main s = Returned"
proof -
  obtain s w where run: "sreach (bench_env ref_noon) bench_dispatcher (bench_stress mode) (s, w)" "\<not> t_crashed s"
    using bench_stress_starts by blast
  have count: "in_int64 (c_Count (bench_stress mode))" by (simp add: bench_stress_def in_int64_def)
  have "sinv (bench_stress mode) s" using sreach_sinv [OF run(1) count] by simp
  from stress_completes [OF this count _ run(2), of bench_dispatcher "bench_env ref_noon" w] bench_dispatcher_returns
  obtain s' w' where "(\<lambda>c c'. \<exists>l. sstep (bench_env ref_noon) bench_dispatcher c l c')\<^sup>*\<^sup>* (s, w) (s', w')"
    "t_main s' = Returned" by blast
  with sreach_steps [OF run(1)] show ?thesis by blast
qed

end
