(* ===== verification/Spec2Isabelle.thy ===== *)
theory Spec2Isabelle
  imports Bench_World
begin

text \<open>
  Verification of the job queue \<open>adele-queue\<close>.

  \<^bold>\<open>The program.\<close> The package \<open>api\<close> is a job queue with two backends. A queue is
  constructed from a configuration (\<open>New\<close>, \<open>NewWithConfig\<close>, \<open>buildQueue\<close>), the
  application registers handlers by name, dispatches jobs, and starts workers with \<open>Listen\<close>. On
  the memory backend jobs travel over an unbuffered channel to worker goroutines; failed jobs are sent
  again by goroutines that sleep first. On the redis backend each job is a hash whose key says its
  state (pending, locked, completed, failed); workers scan for pending keys, claim one by renaming it,
  check its retry gate, run the handler and move the hash on; a reaper looks for locks that are too
  old. A framework provider (\<open>provider.go\<close>) configures, constructs and starts the queue. The
  command \<open>cmd/queuebench\<close> starts a queue through that provider and drives it with the jobs of
  \<open>internal/bench/benchjobs\<close>: fifteen sample handlers with their constructors, a seeder that
  dispatches one of each, and a stress run that dispatches many from a bounded number of goroutines.

  \<^bold>\<open>The theories.\<close>
  \<^item> \<open>Go_Prelude\<close>, \<open>Go_Strings\<close>, \<open>Go_Time\<close>, \<open>Go_Json\<close>: the language and the standard
    library as far as the code uses them: 64-bit integers, \<open>strings\<close>, \<open>strconv\<close>,
    \<open>fmt\<close>, RFC 3339 times and durations, JSON of a byte slice.
  \<^item> \<open>Json_Text\<close>, \<open>Json_Value\<close>, \<open>Json_Decode\<close>, \<open>Json_Round_Trip\<close>: \<open>encoding/json\<close>
    for the types the code uses: UTF-8 and string escapes, syntax trees with printer and parser, Go types
    and values with \<open>Marshal\<close> and \<open>Unmarshal\<close>, and that decoding inverts encoding.
  \<^item> \<open>Queue_Types\<close>: the structs of \<open>api/types.go\<close> as records, the environment (redis client,
    database, clock, UUIDs, the shutdown flag) as a record of functions over a world type, and weakest
    preconditions for the state monad that code acting on the world lives in.
  \<^item> \<open>Queue_Config\<close>: \<open>setConfigDefaults\<close>, \<open>loadConfig\<close>, \<open>buildQueue\<close>, the constructors,
    the invariants \<open>wf_config\<close> and \<open>wf_queue\<close>.
  \<^item> \<open>Handler_Registry\<close>: \<open>RegisterHandler\<close>, \<open>RegisterHandlerCtx\<close>,
    \<open>hasRegisteredHandler\<close>; the contract of registration is a locale with two interpretations.
  \<^item> \<open>Memory_Backend\<close>: \<open>api/memory.go\<close>, \<open>runHandler\<close> and the worker's loop body.
  \<^item> \<open>Redis_Keys\<close>, \<open>Redis_Server\<close>, \<open>Redis_Backend\<close>: the key formats; the laws of the redis
    commands the code relies on, as the locales \<open>redis_server\<close> (what a successful and a failed
    command does) and \<open>redis_live\<close> (when commands succeed); \<open>getRedisValue\<close>,
    \<open>setRedisKey\<close> and \<open>handleRedisJob\<close>.
  \<^item> \<open>Redis_Scanner\<close>: \<open>cursorScanRedisDb\<close>, with its recursion as an explicit call depth.
  \<^item> \<open>Reaper\<close>: \<open>api/reaper.go\<close> and the redis branch of \<open>Close\<close>.
  \<^item> \<open>Redis_Lifecycle\<close>: the abstract life of a job (\<open>life\<close>, on the set of keys that hold it and
    its counters) and the proof that workers and reaper, interleaved key by key, implement it.
  \<^item> \<open>Dispatching\<close>: \<open>Dispatch\<close>, \<open>DispatchIn\<close>, \<open>Depth\<close>. \<open>Job_Json\<close>: the JSON of a
    \<open>Job\<close> and \<open>UnmarshalPayload\<close>.
  \<^item> \<open>Memory_System\<close>: the goroutines of the memory backend as a labelled step relation, with
    \<open>Listen\<close>, the workers, timers, blocked senders and \<open>Close\<close>.
  \<^item> \<open>Provider\<close>: \<open>provider.go\<close>.
  \<^item> \<open>Bench_Jobs\<close>, \<open>Bench_Behaviour\<close>: the benchmark's payloads, handlers and constructors, and
    what the handlers do when a worker runs them. \<open>Bench_Registry\<close>: \<open>registry.go\<close>.
    \<open>Bench_Stress\<close>: \<open>stress.go\<close>, its goroutines as a labelled step relation. \<open>Queuebench\<close>:
    \<open>main.go\<close>, with the framework as a record of functions.
  \<^item> \<open>Redis_Reference\<close>: an executable redis with the commands used; it interprets the redis
    locales, so their laws are consistent. \<open>Example_States\<close>: queues, jobs and stores on it.
    \<open>Bench_World\<close>: the benchmark's state beside it, and a framework; it interprets the locales of
    the benchmark.

  \<^bold>\<open>What is shown.\<close> C1 to C7: the memory backend under every interleaving (the counter behind
  \<open>Depth\<close>, draining, termination, well-formedness), one job through its retries, one worker pass,
  the crash after \<open>Close\<close>. C8 to C10: redis workers and the reaper, interleaved, follow the
  abstract life of a job; its invariants; claims are exclusive. C11 and C12: \<open>handleRedisJob\<close> loses
  no job under any reply of redis, and the failure of a job. C13 to C18: the scanner and \<open>Close\<close>.
  C19 to C22: the reaper. C23 and C24: dispatching, and a job from dispatch to completion. C25 and C26:
  registry and construction. C27 to C29: gates, keys and the JSON of a job round-trip. C30 to C34: what
  the benchmark's handlers compute and how often they run, and that its jobs have the types their
  handlers read. C35 and C36: registering and seeding them. C37 to C39: the stress run under every
  interleaving. C40: the command. Theorems without a number complete the picture of a component (the
  other outcomes of a claimed job, a young and a leaked lock, ticks and \<open>Depth\<close> return, defaults,
  the provider). Each theorem with a hypothesis is followed by an instance on a concrete state.

  \<^bold>\<open>Conventions.\<close> Go's \<open>int\<close> and \<open>time.Duration\<close> are \<open>int\<close> with \<open>wrap64\<close> where
  an operation may overflow; \<open>pendingCount\<close> and the busy loop's accumulator are \<open>64 word\<close>; a nil
  slice, map or function is \<open>None\<close>; errors and panics are values of sum types or datatypes. Fuel
  appears in three places: \<open>scan_run\<close> counts the iterations of a loop that never ends by itself, so
  its theorems hold for every fuel; \<open>reap_pages\<close> and \<open>depth_channel\<close> bound the \<open>SCAN\<close>
  calls of one pass, and \<open>reaper_tick_returns\<close> and \<open>depth_returns\<close> show that one more than
  the server's remaining pages is enough. The interleaving of redis workers and the reaper is by key: a
  worker's visit of a key and the reaper's visit of a key are the steps of \<open>key_step\<close>.

  \<^bold>\<open>Not modelled.\<close> Logging in \<open>api\<close>. The text of library errors the code only wraps, and of
  floating-point numbers (a parameter with the round trip as its law). Interleavings of redis commands
  inside one visit of a key: a visit is one step, and C10 covers the race of two claims, no more. The rows
  written to the database are calls of the environment with no law about what
  they store. Signals: \<open>listenForShutdown\<close> is the code after the signal has arrived. The re-exports
  of the package \<open>queue\<close> (\<open>queue.go\<close>) are names for definitions of \<open>api\<close>.
\<close>

section \<open>The memory backend\<close>





text \<open>C3: no internal run goes on for ever: each internal step of a queue that does not crash
  decreases the work left, so at most \<open>work s\<close> of them follow a state \<open>s\<close>, retries included.\<close>

theorem memory_work_decreases:
  assumes "reachable e q0 s" and "q_Backend q0 = ''memory''" and "q_pendingCount q0 = 0"
    and "in_int64 (q_MaxAttempts q0)" and "mstep e s l s'" and "l \<in> {Wake, Receive, Run, Finish}"
    and "\<not> m_crashed s'"
  shows "work s' < work s"
  using work_decreases [OF assms(5) _ reachable_minv [OF assms(1-3)] assms(4,7)] assms(6)
  by (simp add: internal_def)

theorem memory_work_decreases_witness:
  "\<exists>s s'. reachable (ref_env ref_noon) mem_queue s \<and> in_flight s = 1 \<and> mstep (ref_env ref_noon) s Receive s' \<and> work s' < work s"
proof -
  let ?e = "ref_env ref_noon"
  obtain s j where s: "reachable ?e mem_queue s" "\<not> m_crashed s" "\<not> m_closed s" "in_flight s = 1"
      "m_sending s = {#j#}" "m_idle s = 1"
    using mem_dispatched by blast
  have st: "mstep ?e s Receive (s\<lparr>m_sending := m_sending s - {#j#}, m_busy := add_mset j (m_busy s), m_idle := m_idle s - 1\<rparr>)"
    by (rule mstep.receive) (use s in simp_all)
  show ?thesis
    using memory_work_decreases [OF s(1) _ _ _ st] s(1,2,4) st by (auto simp: in_int64_def)
qed

text \<open>C4: every reachable state of a well-formed queue is well formed: the failure cache holds at most
  \<open>HighWaterMark\<close> ids, the registry binds every name to one handler shape, the configuration still
  satisfies the bounds set at construction, and no worker is lost.\<close>

theorem memory_reachable_wf:
  assumes "reachable e q0 s" and "q_Backend q0 = ''memory''" and "q_pendingCount q0 = 0" and "wf_queue q0"
  shows "wf_queue (m_q s) \<and> int (length (q_FailedJobs (m_q s))) \<le> q_HighWaterMark (m_q s)
    \<and> m_idle s + size (m_busy s) + m_finishing s + m_exited s = nat (q_WorkerCount q0)"
  using reachable_minv [OF assms(1-3)] assms(4) by (auto simp: minv_def workers_def wf_queue_def wf_failed_def)

theorem memory_reachable_wf_witness:
  "\<exists>s. reachable (ref_env ref_noon) mem_queue s \<and> in_flight s = 1 \<and> wf_queue (m_q s)
     \<and> m_idle s + size (m_busy s) + m_finishing s + m_exited s = 1"
proof -
  obtain s where s: "reachable (ref_env ref_noon) mem_queue s" "in_flight s = 1"
    using mem_dispatched by blast
  then show ?thesis
    using memory_reachable_wf [OF s(1) _ _ mem_queue_wf] by auto
qed

text \<open>C5: a retriable job whose handler always fails is run \<open>MaxAttempts + 1\<close> times when it starts
  with its retry counter at zero (in general once more than the attempts its counter leaves), and its id
  is in the failure cache afterwards.\<close>

theorem always_failing_job_runs:
  assumes "in_int64 (q_MaxAttempts q)" and "in_int64 (j_RetryCounter job)" and "j_Retry job"
    and "j_RetryCounter job \<le> q_MaxAttempts q" and "runnable q job"
    and "\<forall>w. fst (run_state (invoke_handler q job) w) \<noteq> HOk"
  shows "\<exists>n q' w'. process_job e q job w = Some (n, q', w')
    \<and> int n = q_MaxAttempts q - j_RetryCounter job + 1 \<and> j_ID job \<in> set (q_FailedJobs q')"
  using process_job_always_fails [OF assms(1-5)] assms(6) by (simp add: always_fails_def)

theorem always_failing_job_runs_witness:
  "\<exists>q' w'. process_job (ref_env ref_noon) mem_queue (ref_job ''bad'') ref_empty = Some (4, q', w')
     \<and> ''job-1'' \<in> set (q_FailedJobs q')"
  using always_failing_job_runs [of mem_queue "ref_job ''bad''" "ref_env ref_noon" ref_empty] mem_queue_handlers
  by (auto simp: in_int64_def ref_job_def zero_job_def)

text \<open>Following one job through its retries always ends, after at most one run more than the
  attempts its counter leaves, with the queue's configuration and handlers unchanged and its counter
  one lower: every increment for a retry is paired with a decrement.\<close>

theorem process_job_returns:
  assumes "in_int64 (q_MaxAttempts q)" and "in_int64 (j_RetryCounter job)"
  shows "\<exists>n q' w'. process_job e q job w = Some (n, q', w')
    \<and> int n \<le> 1 + max 0 (q_MaxAttempts q - j_RetryCounter job)
    \<and> q_handlers q' = q_handlers q \<and> q_pendingCount q' = q_pendingCount q - 1"
  using process_job_total [OF assms, of e w] setup_ofD(2) by fast

theorem process_job_returns_witness:
  "\<exists>n q' w'. process_job (ref_env ref_noon) mem_queue (ref_job ''loud'') ref_empty = Some (n, q', w')
     \<and> n \<le> 4 \<and> q_pendingCount q' = - 1"
  using process_job_returns [of mem_queue "ref_job ''loud''" "ref_env ref_noon" ref_empty]
  by (auto simp: in_int64_def ref_job_def zero_job_def)





section \<open>The redis backend: the life of a job\<close>







section \<open>The redis backend: one claimed job\<close>



text \<open>When redis answers and the handler succeeds, the job moves from locked to completed with its
  completion time stamped, its exception cleared and its status complete; nothing else changes.\<close>

theorem redis_job_success:
  assumes "redis_job_live e ks q" and "ks w (sprintf formatLocked [queue, i]) = Some j0" and "j_ID job = i"
    and "handler_yields q job (\<lambda>r. r = HOk)"
  shows "wp (handleRedisJob e q queue job i)
     (\<lambda>_ w'. \<exists>t. ks w' = (ks w)(sprintf formatLocked [queue, i] := None,
        sprintf formatComplete [queue, i] \<mapsto> completed_job job t)) w"
  by (rule redis_job_live.handleRedisJob_success [OF assms])

theorem redis_job_success_witness:
  "wp (handleRedisJob (ref_env ref_noon) ref_queue ''emails'' (ref_job ''ok'') ''job-1'')
     (\<lambda>_ w'. \<exists>t. ref_ks w' = [''queues:emails:completed:job-1'' \<mapsto> completed_job (ref_job ''ok'') t])
     (ref_locked ''ok'')"
proof -
  have "wp (handleRedisJob (ref_env ref_noon) ref_queue ''emails'' (ref_job ''ok'') ''job-1'')
     (\<lambda>_ w'. \<exists>t. ref_ks w' = (ref_ks (ref_locked ''ok''))(sprintf formatLocked [''emails'', ''job-1''] := None,
        sprintf formatComplete [''emails'', ''job-1''] \<mapsto> completed_job (ref_job ''ok'') t)) (ref_locked ''ok'')"
    by (rule redis_job_success) (simp_all add: ref_jobs.redis_job_live_axioms ref_ks_store ref_keys ref_yields(1))
  then show ?thesis by (rule wp_mono) (auto simp: ref_ks_store ref_keys)
qed

text \<open>When redis answers and a retriable job with attempts left fails, it is pending again with its
  counter one up and a gate in its \<open>RetryAfter\<close>. The locked copy stays, marked active; clearing it is
  left to the reaper.\<close>

theorem redis_job_retry:
  assumes "redis_job_live e ks q" and "ks w (sprintf formatLocked [queue, i]) = Some j0" and "j_ID job = i"
    and "handler_yields q job (\<lambda>r. r \<noteq> HOk)" and "j_Retry job" and "j_RetryCounter job < q_MaxAttempts q"
  shows "wp (handleRedisJob e q queue job i)
     (\<lambda>_ w'. \<exists>t0 t. ks w' = (ks w)(sprintf formatLocked [queue, i] \<mapsto> j0\<lparr>j_Status := statusActive\<rparr>,
        sprintf formatPending [queue, i] \<mapsto> retried_job job (gate_at e job t0) t)) w"
  by (rule redis_job_live.handleRedisJob_retry [OF assms])

theorem redis_job_retry_witness:
  "wp (handleRedisJob (ref_env ref_noon) ref_queue ''emails'' (ref_job ''bad'') ''job-1'')
     (\<lambda>_ w'. ref_ks w' ''queues:emails:locked:job-1'' \<noteq> None
        \<and> (\<exists>j. ref_ks w' ''queues:emails:pending:job-1'' = Some j \<and> j_RetryCounter j = 1)) (ref_locked ''bad'')"
proof -
  have c: "j_RetryCounter (retried_job (ref_job ''bad'') g t) = 1" for g t
    by (simp add: retried_job_def redis_view_def wrap64_def)
  show ?thesis
    by (rule wp_mono [OF redis_job_retry [OF ref_jobs.redis_job_live_axioms, where ?j0.0 = "ref_job ''bad''"]])
      (auto simp: ref_ks_store ref_keys ref_yields(2)
        c)
qed



text \<open>A job whose name has no registered handler is failed at once, whatever its retry flag and
  counter, with an exception that names it.\<close>

theorem redis_job_unregistered:
  assumes "redis_job_live e ks q" and "ks w (sprintf formatLocked [queue, i]) = Some j0" and "j_ID job = i"
    and "lookup_handler q (j_Name job) = None"
  shows "wp (handleRedisJob e q queue job i)
     (\<lambda>_ w'. \<exists>t. ks w' = (ks w)(sprintf formatLocked [queue, i] := None,
        sprintf formatFailed [queue, i] \<mapsto> failed_job (job\<lparr>j_Retry := False\<rparr>)
          (Some (''no handler registered for '' @ go_quote (e_uquote e) (j_Name job))) t)) w"
  by (rule redis_job_live.handleRedisJob_unregistered [OF assms])

theorem redis_job_unregistered_witness:
  "wp (handleRedisJob (ref_env ref_noon) ref_queue ''emails'' (ref_job ''lost'') ''job-1'')
     (\<lambda>_ w'. ref_ks w' ''queues:emails:locked:job-1'' = None \<and> ref_ks w' ''queues:emails:failed:job-1'' \<noteq> None)
     (ref_locked ''lost'')"
  by (rule wp_mono [OF redis_job_unregistered [OF ref_jobs.redis_job_live_axioms, where ?j0.0 = "ref_job ''lost''"]])
    (auto simp: ref_ks_store ref_keys ref_lookup_None)

section \<open>The redis backend: scanning\<close>

text \<open>C13: a scanning worker loses no job: started on a store where every hash is the job its key names,
  after any number of iterations of its loop, over any replies of redis, the store still has that
  property and every job that was stored is stored.\<close>

theorem scanner_no_loss:
  assumes "redis_job e ks q" and "jobs_ok G (ks w)"
  shows "wp (cursorScanRedisDb n e q) (\<lambda>_ w'. no_loss G (ks w) (ks w')) w"
  unfolding cursorScanRedisDb_def by (rule redis_job.scan_run_no_loss [OF assms])

theorem scanner_no_loss_witness:
  "wp (cursorScanRedisDb 3 (ref_env ref_noon) ref_queue)
     (\<lambda>_ w'. no_loss (\<lambda>queue i. ident (ref_job ''bad'')) (ref_ks (ref_pending ''bad'')) (ref_ks w')) (ref_pending ''bad'')"
  by (rule scanner_no_loss [OF ref_jobs.redis_job_axioms ref_stores_ok(1)])

text \<open>A pending job whose gate has opened and whose handler succeeds is completed by one visit of
  the scanner: its pending and locked keys are gone, the completed key holds it, nothing else
  changed, and the scan goes on.\<close>

theorem scan_completes_ready_job:
  assumes "redis_job_live e ks q" and "clean_name queue" and "clean_name i"
    and "ks w (sprintf formatPending [queue, i]) = Some j" and "parse_rfc3339 (j_RetryAfter j) = Some t"
    and "clock_shows e (\<lambda>now. t < now)" and "j_ID j = i"
    and "\<And>s. handler_yields q (j\<lparr>j_LockedAt := s\<rparr>) (\<lambda>r. r = HOk)"
  shows "wp (scan_key e q (RBulk (sprintf formatPending [queue, i])))
     (\<lambda>fl w'. fl = NextKey \<and> (\<exists>s t'. ks w' = (ks w)(sprintf formatPending [queue, i] := None,
        sprintf formatLocked [queue, i] := None,
        sprintf formatComplete [queue, i] \<mapsto> completed_job (j\<lparr>j_LockedAt := s\<rparr>) t'))) w"
  by (rule redis_job_live.scan_key_success [OF assms])

theorem scan_completes_ready_job_witness:
  "wp (scan_key (ref_env ref_noon) ref_queue (RBulk ''queues:emails:pending:job-1''))
     (\<lambda>fl w'. fl = NextKey \<and> dom (ref_ks w') = {''queues:emails:completed:job-1''}) (ref_pending ''ok'')"
  using scan_completes_ready_job [OF ref_jobs.redis_job_live_axioms, of "''emails''" "''job-1''" "ref_pending ''ok''"
      "ref_job ''ok''" "ref_noon - second" ref_noon]
  by (simp add: ref_keys ref_ks_store ref_parse ref_clock ref_yields(1) second_def)
    (erule wp_mono, auto split: if_splits)

text \<open>C14: a pending job whose gate is still closed is put back: after the visit it is pending again,
  unchanged but for its lock time, and its handler has not been called.\<close>

theorem scan_returns_gated_job:
  assumes "redis_job_live e ks q" and "clean_name queue" and "clean_name i"
    and "ks w (sprintf formatPending [queue, i]) = Some j" and "parse_rfc3339 (j_RetryAfter j) = Some t"
    and "clock_shows e (\<lambda>now. now \<le> t)"
  shows "wp (scan_key e q (RBulk (sprintf formatPending [queue, i])))
     (\<lambda>fl w'. fl = NextKey \<and> (\<exists>s. ks w' = (ks w)(sprintf formatLocked [queue, i] := None,
        sprintf formatPending [queue, i] \<mapsto> j\<lparr>j_LockedAt := s\<rparr>))) w"
  by (rule redis_job_live.scan_key_gated [OF assms])

theorem scan_returns_gated_job_witness:
  "wp (scan_key (ref_env (ref_noon - 2 * second)) ref_queue (RBulk ''queues:emails:pending:job-1''))
     (\<lambda>fl w'. fl = NextKey \<and> dom (ref_ks w') = {''queues:emails:pending:job-1''}) (ref_pending ''ok'')"
  using scan_returns_gated_job [OF ref_jobs.redis_job_live_axioms, of "''emails''" "''job-1''" "ref_pending ''ok''"
      "ref_job ''ok''" "ref_noon - second" "ref_noon - 2 * second"]
  by (simp add: ref_keys ref_ks_store ref_parse ref_clock second_def)
    (erule wp_mono, auto split: if_splits)

text \<open>C15: a pending job whose \<open>RetryAfter\<close> is not an RFC 3339 time ends the scanning call: the job is
  left locked and the scanner returns, as redis dispatch accepts such a \<open>DispatchAt\<close>.\<close>

theorem scan_stops_at_bad_gate:
  assumes "redis_job_live e ks q" and "clean_name queue" and "clean_name i"
    and "ks w (sprintf formatPending [queue, i]) = Some j" and "parse_rfc3339 (j_RetryAfter j) = None"
  shows "wp (scan_key e q (RBulk (sprintf formatPending [queue, i])))
     (\<lambda>fl w'. fl = LeaveScan \<and> (\<exists>s. ks w' = (ks w)(sprintf formatPending [queue, i] := None,
        sprintf formatLocked [queue, i] \<mapsto> j\<lparr>j_LockedAt := s\<rparr>))) w"
  by (rule redis_job_live.scan_key_unparseable [OF assms])

theorem scan_stops_at_bad_gate_witness:
  "wp (scan_key (ref_env ref_noon) ref_queue (RBulk ''queues:emails:pending:job-1''))
     (\<lambda>fl w'. fl = LeaveScan \<and> dom (ref_ks w') = {''queues:emails:locked:job-1''})
     (ref_store ''queues:emails:pending:job-1'' ((ref_job ''ok'')\<lparr>j_RetryAfter := ''tomorrow''\<rparr>))"
  using scan_stops_at_bad_gate [OF ref_jobs.redis_job_live_axioms, of "''emails''" "''job-1''"
      "ref_store ''queues:emails:pending:job-1'' ((ref_job ''ok'')\<lparr>j_RetryAfter := ''tomorrow''\<rparr>)"
      "redis_view ((ref_job ''ok'')\<lparr>j_RetryAfter := ''tomorrow''\<rparr>)" ref_noon]
  by (simp add: ref_keys ref_ks_store redis_view_def ref_parse_bad)
    (erule wp_mono, auto split: if_splits)



text \<open>C17: on an idle server the scanner's call depth grows by one with every iteration of its loop: it
  calls itself at the end of each sweep and never returns.\<close>

theorem scanner_depth_grows:
  assumes "idle_server e idle" and "idle w"
  shows "wp (cursorScanRedisDb n e q) (\<lambda>s _. s = Scanning (n + 1) 0) w"
  unfolding cursorScanRedisDb_def
  by (rule wp_mono [OF scan_run_idle [OF assms]]) simp

theorem scanner_depth_grows_witness:
  "wp (cursorScanRedisDb 1000 (ref_env ref_noon) ref_queue) (\<lambda>s _. s = Scanning 1001 0) ref_empty"
proof -
  have "idle_server (ref_env ref_noon) (\<lambda>w. w = ref_empty)"
    by (simp add: idle_server_def ref_env_def ref_do_def ref_empty_def wp_def)
  from scanner_depth_grows [OF this, of ref_empty 1000] show ?thesis by simp
qed

text \<open>C18: \<open>Close\<close> on redis stops everything: it cancels the lifecycle context and sets the shutdown
  flag; a worker at any call depth then ends after that many checks of the flag, and the reaper exits at
  its next check, neither touching redis again.\<close>

theorem redis_close_stops:
  assumes "e_shutdown e w = snd (Close_redis q flag)" and "1 \<le> d" and "d \<le> n"
  shows "wp (scan_run n e q (Scanning d c)) (\<lambda>s w'. s = ScanEnded \<and> w' = w) w
    \<and> wp (reaper_loop (Suc m) k e q stats) (\<lambda>r w'. r = ReaperExited stats \<and> w' = w) w
    \<and> (q_hasCancel q \<longrightarrow> q_ctxDone (fst (Close_redis q flag)))"
proof -
  from assms(1) have "e_shutdown e w" by (simp add: Close_redis_def)
  from scan_run_shutdown [OF this assms(2,3)] reaper_loop_shutdown [OF this] show ?thesis
    by (simp add: Close_redis_def cancel_lifecycle_def)
qed

theorem redis_close_stops_witness:
  "wp (scan_run 9 (ref_env ref_noon) ref_queue (Scanning 5 0)) (\<lambda>s w'. s = ScanEnded)
     (ref_empty\<lparr>w_shutdown := True\<rparr>)"
  by (rule wp_mono [OF conjunct1 [OF redis_close_stops [where flag = False and stats = "undefined" and m = 0 and k = 0]]])
    (simp_all add: ref_env_def Close_redis_def)

section \<open>The redis backend: the reaper\<close>

text \<open>C19: a tick of the reaper loses no job, whatever redis answers: it deletes a locked hash only when
  the job is also pending, and moves it otherwise.\<close>

theorem reaper_tick_no_loss:
  assumes "redis_server e ks" and "jobs_ok G (ks w)"
  shows "wp (runReaperTick n e q stats) (\<lambda>_ w'. no_loss G (ks w) (ks w')) w"
  by (rule redis_server.runReaperTick_no_loss [OF assms])

theorem reaper_tick_no_loss_witness:
  "wp (runReaperTick 1 (ref_env ref_noon) ref_queue zero_stats)
     (\<lambda>_ w'. no_loss (\<lambda>queue i. ident (ref_job ''ok'')) (ref_ks (ref_locked ''ok'')) (ref_ks w')) (ref_locked ''ok'')"
  by (rule reaper_tick_no_loss [OF ref_redis_server ref_stores_ok(2)])

text \<open>The reaper leaves a lock alone while its age is below the job's \<open>LockFor\<close>, or the queue's
  \<open>LockTimeout\<close> when that is not set; it counts it as recent.\<close>

theorem reaper_keeps_recent_lock:
  assumes "redis_live e ks" and "clean_name queue" and "clean_name i"
    and "ks w (sprintf formatLocked [queue, i]) = Some j" and "locked_since j = Some since"
    and "clock_shows e (\<lambda>now. time_sub now since < seconds (lock_timeout q j))"
  shows "wp (reap_key e q t (RBulk (sprintf formatLocked [queue, i])))
     (\<lambda>t' w'. ks w' = ks w \<and> t' = t\<lparr>scanned := scanned t + 1, recent := recent t + 1\<rparr>) w"
  by (rule redis_live.reap_key_recent [OF assms])

theorem reaper_keeps_recent_lock_witness:
  "wp (reap_key (ref_env (ref_noon - 400 * second)) ref_queue zero_tally (RBulk ''queues:emails:locked:job-1''))
     (\<lambda>t' w'. ref_ks w' = ref_ks ref_stale \<and> recent t' = 1) ref_stale"
  using reaper_keeps_recent_lock [OF ref_redis.redis_live_axioms, of "''emails''" "''job-1''" ref_stale ref_lock
      "ref_noon - 600 * second" "ref_noon - 400 * second" ref_queue zero_tally]
  by (simp add: ref_keys ref_ks_store ref_clock lock_timeout_def seconds_exact time_sub_def second_def zero_tally_def)
    (erule wp_mono, simp)

text \<open>An expired lock of a job that is pending as well (a retry left the locked copy behind) is
  deleted, the pending job is not touched, and the counters record a duplicate.\<close>

theorem reaper_clears_leaked_lock:
  assumes "redis_live e ks" and "clean_name queue" and "clean_name i"
    and "ks w (sprintf formatLocked [queue, i]) = Some j" and "locked_since j = Some since"
    and "clock_shows e (\<lambda>now. \<not> time_sub now since < seconds (lock_timeout q j))"
    and "ks w (sprintf formatPending [queue, i]) \<noteq> None"
  shows "wp (reap_key e q t (RBulk (sprintf formatLocked [queue, i])))
     (\<lambda>t' w'. ks w' = (ks w)(sprintf formatLocked [queue, i] := None)
        \<and> t' = t\<lparr>scanned := scanned t + 1, dupes := dupes t + 1\<rparr>) w"
  by (rule redis_live.reap_key_dupe [OF assms])

theorem reaper_clears_leaked_lock_witness:
  "wp (reap_key (ref_env ref_noon) ref_queue zero_tally (RBulk ''queues:emails:locked:job-1''))
     (\<lambda>t' w'. ref_ks w' = [''queues:emails:pending:job-1'' \<mapsto> ref_job ''ok''] \<and> dupes t' = 1) ref_leaked"
  using reaper_clears_leaked_lock [OF ref_redis.redis_live_axioms, of "''emails''" "''job-1''" ref_leaked ref_lock
      "ref_noon - 600 * second" ref_noon ref_queue zero_tally]
  by (simp add: ref_keys ref_ks_leaked ref_clock lock_timeout_def seconds_exact time_sub_def second_def zero_tally_def)
    (erule wp_mono, auto simp: fun_upd_twist)

text \<open>C20: an expired lock of a retriable job with attempts left goes back to pending: counter one up,
  exception naming the timeout, a gate of five seconds per attempt, its lock time cleared.\<close>

theorem reaper_requeues_expired_lock:
  assumes "redis_live e ks" and "clean_name queue" and "clean_name i"
    and "ks w (sprintf formatLocked [queue, i]) = Some j" and "locked_since j = Some since"
    and "clock_shows e (\<lambda>now. \<not> time_sub now since < seconds (lock_timeout q j))"
    and "ks w (sprintf formatPending [queue, i]) = None"
    and "j_Retry j" and "wrap64 (j_RetryCounter j + 1) < q_MaxAttempts q"
  shows "wp (reap_key e q t (RBulk (sprintf formatLocked [queue, i])))
     (\<lambda>t' w'. (\<exists>now. ks w' = (ks w)(sprintf formatLocked [queue, i] := None,
          sprintf formatPending [queue, i] \<mapsto> requeued_job e j (lock_timeout q j) now))
        \<and> t' = t\<lparr>scanned := scanned t + 1, requeued := requeued t + 1\<rparr>) w"
  by (rule redis_live.reap_key_requeue [OF assms])

theorem reaper_requeues_expired_lock_witness:
  "wp (reap_key (ref_env ref_noon) ref_queue zero_tally (RBulk ''queues:emails:locked:job-1''))
     (\<lambda>t' w'. dom (ref_ks w') = {''queues:emails:pending:job-1''} \<and> requeued t' = 1) ref_stale"
  using reaper_requeues_expired_lock [OF ref_redis.redis_live_axioms, of "''emails''" "''job-1''" ref_stale ref_lock
      "ref_noon - 600 * second" ref_noon ref_queue zero_tally]
  by (simp add: ref_keys ref_ks_store ref_clock lock_timeout_def seconds_exact time_sub_def second_def zero_tally_def wrap64_def)
    (erule wp_mono, auto split: if_splits)

text \<open>C21: an expired lock of a job that is not retriable or has used up its attempts goes to failed, with
  the timeout as its exception.\<close>

theorem reaper_fails_expired_lock:
  assumes "redis_live e ks" and "clean_name queue" and "clean_name i"
    and "ks w (sprintf formatLocked [queue, i]) = Some j" and "locked_since j = Some since"
    and "clock_shows e (\<lambda>now. \<not> time_sub now since < seconds (lock_timeout q j))"
    and "ks w (sprintf formatPending [queue, i]) = None"
    and "\<not> (j_Retry j \<and> wrap64 (j_RetryCounter j + 1) < q_MaxAttempts q)"
  shows "wp (reap_key e q t (RBulk (sprintf formatLocked [queue, i])))
     (\<lambda>t' w'. (\<exists>now. ks w' = (ks w)(sprintf formatLocked [queue, i] := None,
          sprintf formatFailed [queue, i] \<mapsto> expired_job j (lock_timeout q j) now))
        \<and> t' = t\<lparr>scanned := scanned t + 1, failed := failed t + 1\<rparr>) w"
  by (rule redis_live.reap_key_permafail [OF assms])

theorem reaper_fails_expired_lock_witness:
  "wp (reap_key (ref_env ref_noon) (ref_queue\<lparr>q_MaxAttempts := 1\<rparr>) zero_tally (RBulk ''queues:emails:locked:job-1''))
     (\<lambda>t' w'. dom (ref_ks w') = {''queues:emails:failed:job-1''} \<and> failed t' = 1) ref_stale"
  using reaper_fails_expired_lock [OF ref_redis.redis_live_axioms, of "''emails''" "''job-1''" ref_stale ref_lock
      "ref_noon - 600 * second" ref_noon "ref_queue\<lparr>q_MaxAttempts := 1\<rparr>" zero_tally]
  by (simp add: ref_keys ref_ks_store ref_clock lock_timeout_def seconds_exact time_sub_def second_def zero_tally_def wrap64_def)
    (erule wp_mono, auto split: if_splits)

text \<open>C22: the reaper and the worker count attempts differently: a retriable job with one attempt left is
  retried by \<open>handleRedisJob\<close> when its handler fails, and failed for good by the reaper when its lock
  expires.\<close>

theorem reaper_one_attempt_short:
  assumes "redis_job_live e ks q" and "ks w (sprintf formatLocked [queue, i]) = Some job" and "j_ID job = i"
    and "handler_yields q job (\<lambda>r. r \<noteq> HOk)" and "j_Retry job"
    and "j_RetryCounter job + 1 = q_MaxAttempts q" and "in_int64 (q_MaxAttempts q)"
  shows "wp (handleRedisJob e q queue job i) (\<lambda>_ w'. ks w' (sprintf formatPending [queue, i]) \<noteq> None) w
    \<and> wp (requeueExpiredLock e q queue i job timeout)
        (\<lambda>r w'. fst r = ReapPermafailed \<and> ks w' (sprintf formatFailed [queue, i]) \<noteq> None) w"
proof -
  have live: "redis_live e ks" using assms(1) by (rule redis_job_live.axioms(2))
  have "wrap64 (j_RetryCounter job + 1) = q_MaxAttempts q" using assms(6,7) by (simp add: wrap64_id)
  then have "\<not> (j_Retry job \<and> wrap64 (j_RetryCounter job + 1) < q_MaxAttempts q)" by simp
  note fail = redis_live.requeueExpiredLock_permafail [OF live this]
  show ?thesis
    using assms(6)
    by (intro conjI wp_mono [OF redis_job_live.handleRedisJob_retry [OF assms(1-5)]] wp_mono [OF fail]) auto
qed

theorem reaper_one_attempt_short_witness:
  "wp (handleRedisJob (ref_env ref_noon) (ref_queue\<lparr>q_MaxAttempts := 1\<rparr>) ''emails'' (ref_job ''bad'') ''job-1'')
     (\<lambda>_ w'. ref_ks w' ''queues:emails:pending:job-1'' \<noteq> None) (ref_locked ''bad'')
   \<and> wp (requeueExpiredLock (ref_env ref_noon) (ref_queue\<lparr>q_MaxAttempts := 1\<rparr>) ''emails'' ''job-1'' (ref_job ''bad'') 300)
     (\<lambda>r w'. fst r = ReapPermafailed \<and> ref_ks w' ''queues:emails:failed:job-1'' \<noteq> None) (ref_locked ''bad'')"
proof -
  have live: "redis_job_live (ref_env ref_noon) ref_ks (ref_queue\<lparr>q_MaxAttempts := 1\<rparr>)"
    by unfold_locales
      (auto simp: ref_queue_def lookup_handler_def call_registered_def wp_return split: if_splits)
  have "handler_yields (ref_queue\<lparr>q_MaxAttempts := 1\<rparr>) (ref_job ''bad'') (\<lambda>r. r \<noteq> HOk)"
    by (auto simp: handler_yields_def lookup_handler_def ref_queue_def call_registered_def)
  with reaper_one_attempt_short [OF live, of "ref_locked ''bad''" "''emails''" "''job-1''" "ref_job ''bad''" 300]
  show ?thesis by (simp add: ref_keys ref_ks_store in_int64_def)
qed

text \<open>A tick returns when the server's cursors run down, and adds one to the tick counter and to each
  other counter what it counted, of which the outcomes together are at most the keys inspected.\<close>

theorem reaper_tick_returns:
  assumes "scan_ends e rank" and "rank 0 < n"
  shows "wp (runReaperTick n e q stats) (\<lambda>r _. \<exists>t. r = Some (add_tick t stats)
     \<and> 0 \<le> requeued t \<and> 0 \<le> failed t \<and> 0 \<le> recent t \<and> 0 \<le> dupes t
     \<and> requeued t + failed t + recent t + dupes t \<le> scanned t) w"
  by (rule wp_mono [OF runReaperTick_ends [OF assms]]) (auto simp: tally_ok_def)

theorem reaper_tick_returns_witness:
  "wp (runReaperTick 1 (ref_env ref_noon) ref_queue zero_stats) (\<lambda>r _. \<exists>s. r = Some s \<and> Ticks s = 1) ref_stale"
  by (rule wp_mono [OF reaper_tick_returns [OF ref_scan_ends]]) (auto simp: add_tick_def zero_stats_def)

section \<open>Dispatching\<close>

text \<open>C23: \<open>Dispatch\<close> on the memory backend: an unparseable \<open>DispatchAt\<close> returns an error and leaves the
  queue alone; a job due later is handed to a sleeping goroutine and not counted; any other job is
  counted and sent. The job sent is the caller's with a fresh id, the current time, its gate and status
  and, if it named none, the default channel.\<close>

theorem dispatch_memory_outcome:
  assumes "q_Backend q = ''memory''" and "clock_shows e P"
  shows "wp (Dispatch e q job) (\<lambda>r w'. \<exists>i t0 t. P t0 \<and> P t \<and>
     (let j = memory_job q i (format_rfc3339 0 t0) job in
      r = (case due_in job t of
             None \<Rightarrow> (Returns [] (Some (InvalidDispatchAt (j_DispatchAt job))), q, NotSent)
           | Some d \<Rightarrow> if d > 0 then (Returns i None, q, SentLater d j)
               else (Returns i None, q\<lparr>q_pendingCount := q_pendingCount q + 1\<rparr>, SentNow j)))) w"
  by (rule wp_mono [OF Dispatch_memory [OF assms]]) (simp add: memory_outcome_def Let_def)

theorem dispatch_memory_outcome_witness:
  "wp (Dispatch (ref_env ref_noon) mem_queue ((ref_job ''ok'')\<lparr>j_DispatchAt := ''tomorrow''\<rparr>))
     (\<lambda>r w'. r = (Returns [] (Some (InvalidDispatchAt ''tomorrow'')), mem_queue, NotSent)) ref_empty"
  by (rule wp_mono [OF dispatch_memory_outcome [where P = "\<lambda>t. t = ref_noon"]])
    (auto simp: ref_clock due_in_def ref_parse_bad)

text \<open>\<open>DispatchIn\<close> defers a job by at most the delay and by more than the delay less one second,
  since the target time is written in whole seconds; when nothing of the delay is left after rounding, it
  sends the job at once.\<close>

theorem dispatch_in_defers:
  assumes "q_Backend q = ''memory''" and "clock_shows e (\<lambda>t. t = now)" and "0 < delay"
    and "in_int64 delay" and "rfc3339_ok 0 (now + delay)"
  shows "wp (DispatchIn e q job delay) (\<lambda>(res, q', s) w'. \<exists>i j d. res = Returns i None \<and>
     delay - second < d \<and> d \<le> delay \<and>
     (if 0 < d then q' = q \<and> s = SentLater d j
      else q' = q\<lparr>q_pendingCount := q_pendingCount q + 1\<rparr> \<and> s = SentNow j)) w"
  by (rule DispatchIn_memory [OF assms])

theorem dispatch_in_defers_witness:
  "wp (DispatchIn (ref_env ref_noon) mem_queue (ref_job ''ok'') 500000000)
     (\<lambda>(res, q', s) w'. \<exists>i j d. res = Returns i None \<and> 500000000 - second < d \<and> d \<le> 500000000 \<and>
       (if 0 < d then q' = mem_queue \<and> s = SentLater d j
        else q' = mem_queue\<lparr>q_pendingCount := q_pendingCount mem_queue + 1\<rparr> \<and> s = SentNow j)) ref_empty"
  by (rule dispatch_in_defers [where now = ref_noon]) (simp_all add: ref_clock in_int64_def ref_rfc3339)

text \<open>\<open>Dispatch\<close> on the redis backend stores the job as pending under a channel of the queue, with
  everything but its handler and timestamps, and returns its id.\<close>

theorem dispatch_redis_stores:
  assumes "redis_live e ks" and "q_Backend q = ''redis''" and "q_Pool q"
    and "wp (e_UUID e) (\<lambda>i w'. ks w' = ks w) w" and "clock_shows e P"
    and "q_QueueChannelDefault q \<in> set (q_QueueChannels q)"
  shows "wp (Dispatch e q job) (\<lambda>r w'. \<exists>i t0 c. P t0 \<and> c \<in> set (q_QueueChannels q) \<and>
     r = (Returns i None, q, NotSent) \<and>
     ks w' = (ks w)(sprintf formatPending [c, i] \<mapsto>
       redis_view ((stamp_job i (format_rfc3339 0 t0) job)\<lparr>j_Queue := c\<rparr>))) w"
proof -
  have "wp (e_UUID e) (\<lambda>i w'. ks w' = ks w \<and> True) w" using assms(4) by simp
  from redis_live.Dispatch_redis [OF assms(1-3) this assms(5)] show ?thesis
    by (rule wp_mono) (use redis_channel_member [OF assms(6)] in \<open>unfold Let_def, blast\<close>)
qed

theorem dispatch_redis_stores_witness:
  "wp (Dispatch (ref_env ref_noon) ref_queue (ref_job ''ok''))
     (\<lambda>r w'. \<exists>i c. c \<in> {''default'', ''emails''} \<and> r = (Returns i None, ref_queue, NotSent)
        \<and> dom (ref_ks w') = {sprintf formatPending [c, i]}) ref_empty"
proof -
  have "ref_ks ref_empty = Map.empty" by (simp add: ref_ks_def ref_empty_def fun_eq_iff)
  then show ?thesis
    by (intro wp_mono [OF dispatch_redis_stores [OF ref_redis.redis_live_axioms, where P = "\<lambda>_. True"]])
      (auto simp: ref_clock wp_mono [OF ref_uuid] split: if_splits)
qed



text \<open>\<open>Depth\<close> on redis returns (a count or an error) whenever the server's cursors run down.\<close>

theorem depth_returns:
  assumes "depth_ends e rank" and "rank ''0'' < n"
  shows "wp (Depth n e q) (\<lambda>r _. \<exists>res. r = Some res) w"
  by (rule wp_mono [OF Depth_ends [OF assms]]) simp

theorem depth_returns_witness:
  "wp (Depth 1 (ref_env ref_noon) ref_queue) (\<lambda>r _. \<exists>res. r = Some res) (ref_pending ''ok'')"
  by (rule depth_returns [OF ref_depth_ends]) simp

section \<open>Handlers and configuration\<close>



text \<open>Registration, successful or not, keeps the queue well formed: every entry of the registry has
  a name and exactly one of the two handler shapes, so the worker's test for a handler is exactly that
  the name is bound.\<close>

theorem registry_invariant:
  assumes "wf_queue q"
  shows "wf_queue (snd (RegisterHandler q name f)) \<and> wf_queue (snd (RegisterHandlerCtx q name' g))
    \<and> (hasRegisteredHandler q n \<longleftrightarrow> lookup_handler q n \<noteq> None)"
  using plain_reg.reg_wf_queue [OF assms] ctx_reg.reg_wf_queue [OF assms] hasRegisteredHandler_iff [of q n] assms
  by (simp add: wf_queue_def)

theorem registry_invariant_witness:
  "wf_queue (snd (RegisterHandler mem_queue ''mail'' (Some (\<lambda>p. State_Monad.return HOk))))
     \<and> hasRegisteredHandler mem_queue ''loud''"
  using registry_invariant [OF mem_queue_wf, of "''mail''" "Some (\<lambda>p. State_Monad.return HOk)" "''x''" None "''loud''"]
  by (simp add: lookup_handler_def mem_queue_def ref_queue_def)

text \<open>The configuration defaults: the result always satisfies the bounds the rest of the code relies
  on (a known backend, a reaper interval of at least one second and below the lock timeout unless that
  is one second), a configuration that satisfies them is left alone, and so defaulting twice is
  defaulting once.\<close>

theorem config_defaults:
  "wf_config (setConfigDefaults c) \<and> (wf_config c \<longrightarrow> setConfigDefaults c = c)
   \<and> setConfigDefaults (setConfigDefaults c) = setConfigDefaults c"
  by (simp add: setConfigDefaults_id)

theorem config_defaults_witness:
  "setConfigDefaults (setConfigDefaults zero_configuration) = setConfigDefaults zero_configuration
   \<and> c_LockTimeout (setConfigDefaults zero_configuration) = 300"
  using config_defaults [of zero_configuration] by (simp add: setConfigDefaults_def zero_configuration_def default_pos_def)

text \<open>C26: \<open>buildQueue\<close> panics exactly when the high-water mark cannot be the capacity of a slice, and
  otherwise returns a well-formed queue with an empty registry, an empty failure cache, a zero counter
  and the default channel among its channels.\<close>

theorem build_queue_wf:
  "(\<exists>p. buildQueue a cfg = Panicked p) = (\<not> makeslice_ok (c_HighWaterMark (setConfigDefaults cfg)))
   \<and> (\<forall>q. buildQueue a cfg = Ret q \<longrightarrow> wf_queue q \<and> q_handlers q = Some Map.empty \<and> q_FailedJobs q = []
        \<and> q_pendingCount q = 0 \<and> q_QueueChannelDefault q \<in> set (q_QueueChannels q))"
  using buildQueue_panics [of a cfg] buildQueue_wf [of a cfg] buildQueue_fields [of a cfg]
  by (auto simp: wf_queue_def)

theorem build_queue_wf_witness:
  "\<exists>q :: ref_world queue. buildQueue None zero_configuration = Ret q \<and> wf_queue q"
proof -
  have "makeslice_ok (c_HighWaterMark (setConfigDefaults zero_configuration))"
    by (simp add: makeslice_ok_def setConfigDefaults_def zero_configuration_def default_int_def)
  then obtain q :: "ref_world queue" where "buildQueue None zero_configuration = Ret q"
    using build_queue_wf [of None zero_configuration] by (metis go.exhaust)
  then show ?thesis using build_queue_wf [of None zero_configuration] by blast
qed

section \<open>Formats\<close>

text \<open>C27: the gate a retry writes is a gate the scanner reads: it parses to the second it stands for,
  five seconds from now without an earlier gate and five seconds per retry so far with one, for every
  clock, zone and counter for which that time has a year of four digits.\<close>

theorem retry_gate_round_trip:
  assumes "clock_shows e (\<lambda>t. t = now)"
    and "gate = (if j_RetryAfter job = [] then now + 5 * second
                 else now + seconds (wrap64 (j_RetryCounter job * 5)))"
    and "rfc3339_ok (if j_RetryAfter job = [] then 0 else e_Local e gate) gate"
  shows "wp (retry_gate e job) (\<lambda>g _. parse_rfc3339 g = Some (gate div second * second)) w"
proof (cases "j_RetryAfter job = []")
  case True
  with assms(2,3) parse_format_rfc3339 [of 0 gate] show ?thesis
    unfolding retry_gate_def
    by (simp add: wp_bind wp_return) (rule wp_mono [OF clock_showsD [OF assms(1)]], simp)
next
  case False
  with assms(2,3) parse_format_rfc3339 [of "e_Local e gate" gate] show ?thesis
    unfolding retry_gate_def
    by (simp add: wp_bind wp_return Let_def) (rule wp_mono [OF clock_showsD [OF assms(1)]], simp)
qed

theorem retry_gate_round_trip_witness:
  "wp (retry_gate (ref_env ref_noon) ((ref_job ''bad'')\<lparr>j_RetryCounter := 2\<rparr>))
     (\<lambda>g _. parse_rfc3339 g = Some (ref_noon + 10 * second)) ref_empty"
proof -
  have "rfc3339_ok 0 (ref_noon + 10 * second)" by code_simp
  then have "wp (retry_gate (ref_env ref_noon) ((ref_job ''bad'')\<lparr>j_RetryCounter := 2\<rparr>))
     (\<lambda>g _. parse_rfc3339 g = Some ((ref_noon + 10 * second) div second * second)) ref_empty"
    by (intro retry_gate_round_trip [where now = ref_noon])
      (simp_all add: ref_clock seconds_exact wrap64_def, simp add: ref_env_def)
  then show ?thesis by (simp add: ref_noon_def second_def)
qed

text \<open>C28: the channel and the id of a key are read back from it when they contain no colon, for each of
  the four states, and the keys of different jobs are different.\<close>

theorem key_round_trip:
  assumes "clean_name queue" and "clean_name i" and "k \<in> job_keys queue i"
  shows "key_parts k = Some (queue, i)
    \<and> (\<forall>queue' i'. clean_name queue' \<longrightarrow> clean_name i' \<longrightarrow> k \<in> job_keys queue' i' \<longrightarrow> queue' = queue \<and> i' = i)"
  using job_keys_parts [OF assms] job_keys_parts by fastforce

theorem key_round_trip_witness:
  "key_parts ''queues:emails:locked:job-1'' = Some (''emails'', ''job-1'')"
  using key_round_trip [of "''emails''" "''job-1''" "''queues:emails:locked:job-1''"] by (simp add: job_keys_def ref_keys)

text \<open>The payload stored with a failed or completed job of the memory backend decodes to the payload
  of the job: the stored text is its base64 in JSON.\<close>

theorem stored_payload_round_trip:
  "map_option json_unmarshal_bytes (j_Payload (failed_record job)) = j_Payload job
   \<and> map_option json_unmarshal_bytes (j_Payload (completed_record job)) = j_Payload job"
  by (simp add: failed_record_def completed_record_def option.map_comp comp_def json_unmarshal_marshal option.map_ident)

text \<open>C29: \<open>UnmarshalPayload\<close> of the JSON of a job gives the job back, less the fields that are tagged
  \<open>json:"-"\<close>.\<close>

theorem unmarshal_payload_round_trip:
  assumes "json_job j"
  shows "\<exists>data. marshal L Job_type (job_val j) = Inr data \<and> UnmarshalPayload L data = Inr (json_view j)"
  by (rule UnmarshalPayload_marshal [OF assms])

theorem unmarshal_payload_round_trip_witness:
  "\<exists>data. marshal ref_json Job_type (job_val (ref_job ''ok'')) = Inr data
     \<and> UnmarshalPayload ref_json data = Inr ((ref_job ''ok'')\<lparr>j_Retry := False, j_RetryAfter := []\<rparr>)"
proof -
  have "json_job (ref_job ''ok'')" by code_simp
  moreover have "json_view (ref_job ''ok'') = (ref_job ''ok'')\<lparr>j_Retry := False, j_RetryAfter := []\<rparr>"
    by (simp add: json_view_def ref_job_def zero_job_def)
  ultimately show ?thesis using unmarshal_payload_round_trip [of "ref_job ''ok''" ref_json] by simp
qed

section \<open>The provider\<close>

text \<open>A provider that was configured registers a well-formed queue built from that configuration,
  reading no file, and its \<open>Boot\<close> starts the workers of the backend, with the reaper on redis.\<close>

theorem provider_start:
  assumes "p' = Configure p m" and "makeslice_ok (c_HighWaterMark (setConfigDefaults (p_config p')))"
  shows "\<exists>q. Register os tmpl yaml p' (Some a) = State_Monad.return (Ret (None, p'\<lparr>p_service := Some q\<rparr>))
    \<and> wf_queue q \<and> buildQueue a (configure_map m (p_config p)) = Ret q
    \<and> length (Boot (p'\<lparr>p_service := Some q\<rparr>))
      = nat (q_WorkerCount q) + (if q_Backend q = ''redis'' then 1 else 0)"
proof -
  have hc: "p_hasConfig p'" and pc: "p_config p' = configure_map m (p_config p)"
    by (simp_all add: assms(1) Configure_def)
  obtain q where q: "buildQueue a (p_config p') = Ret q"
    and r: "Register os tmpl yaml p' (Some a) = State_Monad.return (Ret (None, p'\<lparr>p_service := Some q\<rparr>))"
    by (rule Register_configured [OF hc assms(2)])
  from buildQueue_wf [OF q] q r show ?thesis
    by (auto simp: pc Boot_def listen_goroutines_def)
qed

theorem provider_start_witness:
  "\<exists>q :: ref_world queue. wf_queue q \<and> q_Backend q = ''redis''
     \<and> length (Boot ((Configure new_provider [''backend'' \<mapsto> DString ''redis''])\<lparr>p_service := Some q\<rparr>)) = 2"
proof -
  let ?p = "Configure new_provider [''backend'' \<mapsto> DString ''redis''] :: ref_world serviceProvider"
  have ok: "makeslice_ok (c_HighWaterMark (setConfigDefaults (p_config ?p)))"
    by (simp add: Configure_def new_provider_def configure_map_def zero_configuration_def as_int_def
        setConfigDefaults_def default_int_def makeslice_ok_def)
  obtain q :: "ref_world queue" where "wf_queue q"
    and q: "buildQueue None (configure_map [''backend'' \<mapsto> DString ''redis''] zero_configuration) = Ret q"
    and len: "length (Boot (?p\<lparr>p_service := Some q\<rparr>)) = nat (q_WorkerCount q) + (if q_Backend q = ''redis'' then 1 else 0)"
    using provider_start [OF refl ok, of undefined undefined undefined None]
    by (auto simp: new_provider_def)
  moreover from buildQueue_fields(1,2) [OF q] have "q_Backend q = ''redis''" "q_WorkerCount q = 1"
    by (simp_all add: setConfigDefaults_def configure_map_def zero_configuration_def as_string_def as_int_def default_int_def)
  ultimately show ?thesis by auto
qed

section \<open>The benchmark jobs\<close>

text \<open>C30: the job that fails \<open>k\<close> times and then succeeds, on the memory backend: for a new id it runs
  once more than the smaller of \<open>k\<close> and \<open>MaxAttempts\<close>, counts every attempt, and prints one line
  for each, a success only when \<open>k\<close> is within \<open>MaxAttempts\<close>.\<close>

theorem fail_then_succeed_runs:
  assumes "bench_state b" and "runs_own q ''flaky-fail-then-succeed'' (FailThenSucceedHandler b)"
    and "0 \<le> q_MaxAttempts q" and "in_int64 (q_MaxAttempts q + 1)" and "flakyAttempts (b_get b w) i = None"
    and "i \<noteq> []" and "valid_utf8 i" and "0 \<le> k" and "in_int64 k"
  shows "\<exists>j n q' w'. NewFailThenSucceedJob b i k = Inr j \<and> process_job (b_env b) q j w = Some (n, q', w')
    \<and> int n = min k (q_MaxAttempts q) + 1 \<and> flakyAttempts (b_get b w') i = Some (int n)
    \<and> printed (b_get b w') = printed (b_get b w) @ map (planned_line i k \<circ> int) [1..<Suc n]"
proof -
  from bench_state.fail_then_succeed_job [OF assms(1,6,7,9)] obtain raw where
    job: "NewFailThenSucceedJob b i k = Inr (bench_job ''flaky-fail-then-succeed'' (FailThenSucceedHandler b) True raw)"
    and act: "\<And>w. wp (FailThenSucceedHandler b (Some raw)) (\<lambda>r w'. b_get b w' = count_attempt i (planned_line i k) (b_get b w)
           \<and> (r = HOk \<longleftrightarrow> k < attempt_of (b_get b w) i)) w" by blast
  from bench_state.flaky_job_runs [of b q _ _ w i raw "planned_line i k" "\<lambda>n. k < n", OF assms(1-5) act]
  obtain n q' w' where n: "process_job (b_env b) q (bench_job ''flaky-fail-then-succeed'' (FailThenSucceedHandler b) True raw) w
      = Some (Suc n, q', w')"
    "b_get b w' = (b_get b w)\<lparr>flakyAttempts := (flakyAttempts (b_get b w))(i \<mapsto> int (Suc n)),
         printed := printed (b_get b w) @ map (planned_line i k \<circ> int) [1..<Suc (Suc n)]\<rparr>"
    "\<forall>m < n. \<not> k < int (Suc m)" "int n \<le> q_MaxAttempts q" "k < int (Suc n) \<or> int n = q_MaxAttempts q"
    by blast
  have "int n \<le> k" using n(3) assms(8) by (cases n) auto
  with n(4,5) have "int (Suc n) = min k (q_MaxAttempts q) + 1" by auto
  with n job show ?thesis
    by (intro exI [of _ "bench_job ''flaky-fail-then-succeed'' (FailThenSucceedHandler b) True raw"]
        exI [of _ "Suc n"] exI [of _ q'] exI [of _ w']) (simp del: upt_Suc)
qed

theorem fail_then_succeed_runs_witness:
  "\<exists>j q' w'. NewFailThenSucceedJob (bench_env ref_noon) ''flaky-1'' 2 = Inr j
     \<and> process_job (ref_env ref_noon) (bench_queue ref_noon) j bench_start = Some (3, q', w')
     \<and> flakyAttempts (w_bench w') ''flaky-1'' = Some 3 \<and> length (printed (w_bench w')) = 3"
proof -
  have "runs_own (bench_queue ref_noon) ''flaky-fail-then-succeed'' (FailThenSucceedHandler (bench_env ref_noon))"
    by (rule bench_runs_own) (simp add: handler_table_def)
  moreover have "valid_utf8 ''flaky-1''" by code_simp
  ultimately obtain j n q' w' where "NewFailThenSucceedJob (bench_env ref_noon) ''flaky-1'' 2 = Inr j"
    "process_job (ref_env ref_noon) (bench_queue ref_noon) j bench_start = Some (n, q', w')"
    "int n = 3" "flakyAttempts (w_bench w') ''flaky-1'' = Some (int n)"
    "printed (w_bench w') = map (planned_line ''flaky-1'' 2 \<circ> int) [1..<Suc n]"
    using fail_then_succeed_runs [OF bench.bench_state_axioms, of "bench_queue ref_noon" ref_noon bench_start "''flaky-1''" 2]
    by (auto simp: in_int64_def simp del: upt_Suc)
  moreover from this have "n = 3" by simp
  ultimately show ?thesis by auto
qed

text \<open>C31: the job that never succeeds, on the memory backend, runs \<open>MaxAttempts + 1\<close> times for a new id.
  From the fourth run on it prints that it gives up, whatever \<open>MaxAttempts\<close> is: its own bound is the
  constant 3.\<close>

theorem exhaust_retries_runs:
  assumes "bench_state b" and "runs_own q ''flaky-exhaust-retries'' (ExhaustRetriesHandler b)"
    and "0 \<le> q_MaxAttempts q" and "in_int64 (q_MaxAttempts q + 1)" and "flakyAttempts (b_get b w) i = None"
    and "i \<noteq> []" and "valid_utf8 i"
  shows "\<exists>j n q' w'. NewExhaustRetriesJob b i = Inr j \<and> process_job (b_env b) q j w = Some (n, q', w')
    \<and> int n = q_MaxAttempts q + 1 \<and> flakyAttempts (b_get b w') i = Some (int n)
    \<and> printed (b_get b w') = printed (b_get b w) @ map (exhaust_line i \<circ> int) [1..<Suc n]"
proof -
  from bench_state.exhaust_retries_job [OF assms(1,6,7)] obtain raw where
    job: "NewExhaustRetriesJob b i = Inr (bench_job ''flaky-exhaust-retries'' (ExhaustRetriesHandler b) True raw)"
    and act: "\<And>w. wp (ExhaustRetriesHandler b (Some raw)) (\<lambda>r w'. b_get b w' = count_attempt i (exhaust_line i) (b_get b w)
           \<and> r \<noteq> HOk) w" by blast
  have act': "wp (ExhaustRetriesHandler b (Some raw)) (\<lambda>r w'. b_get b w' = count_attempt i (exhaust_line i) (b_get b w)
           \<and> (r = HOk \<longleftrightarrow> False)) w" for w
    by (rule wp_mono [OF act]) simp
  from bench_state.flaky_job_runs [of b q _ _ w i raw "exhaust_line i" "\<lambda>_. False", OF assms(1-5) act']
  obtain n q' w' where n: "process_job (b_env b) q (bench_job ''flaky-exhaust-retries'' (ExhaustRetriesHandler b) True raw) w
      = Some (Suc n, q', w')"
    "b_get b w' = (b_get b w)\<lparr>flakyAttempts := (flakyAttempts (b_get b w))(i \<mapsto> int (Suc n)),
         printed := printed (b_get b w) @ map (exhaust_line i \<circ> int) [1..<Suc (Suc n)]\<rparr>"
    "int n = q_MaxAttempts q" by blast
  with job show ?thesis
    by (intro exI [of _ "bench_job ''flaky-exhaust-retries'' (ExhaustRetriesHandler b) True raw"]
        exI [of _ "Suc n"] exI [of _ q'] exI [of _ w']) (simp del: upt_Suc)
qed

theorem exhaust_retries_runs_witness:
  "\<exists>j q' w'. NewExhaustRetriesJob (bench_env ref_noon) ''flaky-3'' = Inr j
     \<and> process_job (ref_env ref_noon) (bench_queue ref_noon) j bench_start = Some (6, q', w')
     \<and> map fst (printed (w_bench w')) = replicate 3 (''exhaustRetries[%s]: attempt %d/%d'' @ nl) @ replicate 3 gave_up"
proof -
  have "runs_own (bench_queue ref_noon) ''flaky-exhaust-retries'' (ExhaustRetriesHandler (bench_env ref_noon))"
    by (rule bench_runs_own) (simp add: handler_table_def)
  moreover have "valid_utf8 ''flaky-3''" by code_simp
  ultimately obtain j n q' w' where run: "NewExhaustRetriesJob (bench_env ref_noon) ''flaky-3'' = Inr j"
    "process_job (ref_env ref_noon) (bench_queue ref_noon) j bench_start = Some (n, q', w')"
    "int n = 6" "printed (w_bench w') = map (exhaust_line ''flaky-3'' \<circ> int) [1..<Suc n]"
    using exhaust_retries_runs [OF bench.bench_state_axioms, of "bench_queue ref_noon" ref_noon bench_start "''flaky-3''"]
    by (auto simp: in_int64_def simp del: upt_Suc)
  then have "n = 6" by simp
  have "[1..<Suc 6] = [1, 2, 3, 4, 5, 6]" by code_simp
  with run \<open>n = 6\<close> show ?thesis
    by (auto simp: exhaust_line_def maxAttemptsForExhaust_def numeral_3_eq_3 simp del: upt_Suc)
qed

text \<open>C32: every dispatch of the always-failing job runs its handler \<open>MaxAttempts + 1\<close> times on the memory
  backend, and the package's counter of handler invocations grows by exactly that.\<close>

theorem always_error_invocations:
  assumes "bench_state b" and "runs_own q ''fail-error'' (AlwaysErrorHandler b)" and "0 \<le> q_MaxAttempts q"
    and "in_int64 (q_MaxAttempts q)" and "valid_utf8 m" and "0 \<le> alwaysErrorAttempts (b_get b w)"
    and "in_int64 (alwaysErrorAttempts (b_get b w) + q_MaxAttempts q + 1)"
  shows "\<exists>j n q' w'. NewAlwaysErrorJob b m = Inr j \<and> process_job (b_env b) q j w = Some (n, q', w')
    \<and> int n = q_MaxAttempts q + 1
    \<and> alwaysErrorAttempts (b_get b w') = alwaysErrorAttempts (b_get b w) + q_MaxAttempts q + 1"
  by (rule bench_state.always_error_runs [OF assms])

theorem always_error_invocations_witness:
  "\<exists>j n q' w'. NewAlwaysErrorJob (bench_env ref_noon) ''boom'' = Inr j
     \<and> process_job (ref_env ref_noon) (bench_queue ref_noon) j bench_start = Some (n, q', w')
     \<and> alwaysErrorAttempts (w_bench w') = 6"
proof -
  have "runs_own (bench_queue ref_noon) ''fail-error'' (AlwaysErrorHandler (bench_env ref_noon))"
    by (rule bench_runs_own) (simp add: handler_table_def)
  moreover have "valid_utf8 ''boom''" by code_simp
  ultimately show ?thesis
    using always_error_invocations [OF bench.bench_state_axioms, of "bench_queue ref_noon" ref_noon "''boom''" bench_start]
    by (auto simp: in_int64_def)
qed

text \<open>C33: the busy loop computes a polynomial in its multiplier: the sum of the terms
  \<open>k + 1013904223\<close>, each multiplied by the power of 1664525 for the iterations after it, modulo 2 to the
  64.\<close>

theorem busy_loop_polynomial:
  "busy_loop n 0 0 = (\<Sum>k < n. 1664525 ^ (n - 1 - k) * (of_nat k + 1013904223))"
  using busy_loop_sum [of n 0 0] by simp



text \<open>C35: \<open>RegisterAll\<close> binds every benchmark name that is free, keeps every binding there was, and reports
  exactly the names that were taken, in order: all fifteen when it is called again.\<close>

theorem register_all_effect:
  assumes "RegisterAll b q = (es, q1)"
  shows "es = map (\<lambda>(name, fn). (name, AlreadyRegistered name))
      (filter (\<lambda>(name, fn). lookup_handler q name \<noteq> None) (handler_table b))
    \<and> lookup_handler q1 =
      map_of (map (\<lambda>(name, fn). (name, \<lparr>plain = Some fn, ctx = None\<rparr>)) (handler_table b)) ++ lookup_handler q
    \<and> map fst (fst (RegisterAll b q1)) = map fst (handler_table b)"
proof -
  have es: "es = fst (RegisterAll b q)" and q1: "q1 = snd (RegisterAll b q)" using assms by simp_all
  have "lookup_handler q1 name \<noteq> None" if "(name, fn) \<in> set (handler_table b)" for name fn
  proof -
    have "(name, \<lparr>plain = Some fn, ctx = None\<rparr>) \<in> set (map (\<lambda>(name, fn). (name, \<lparr>plain = Some fn, ctx = None\<rparr>)) (handler_table b))"
      using that by force
    then have "name \<in> fst ` set (map (\<lambda>(name, fn). (name, \<lparr>plain = Some fn, ctx = None\<rparr>)) (handler_table b))"
      by (metis fst_conv image_eqI)
    then show ?thesis unfolding q1 RegisterAll_effect(2) map_add_None map_of_eq_None_iff by blast
  qed
  then have "filter (\<lambda>(name, fn). lookup_handler q1 name \<noteq> None) (handler_table b) = handler_table b"
    by (intro filter_True) auto
  then show ?thesis by (simp add: es RegisterAll_effect case_prod_unfold comp_def) (simp add: q1 RegisterAll_effect case_prod_unfold)
qed

theorem register_all_effect_witness:
  "\<exists>q1. RegisterAll (bench_env ref_noon) harness_queue = ([], q1) \<and> length (fst (RegisterAll (bench_env ref_noon) q1)) = 15"
proof -
  obtain es q1 where reg: "RegisterAll (bench_env ref_noon) harness_queue = (es, q1)" by fastforce
  have "lookup_handler (harness_queue :: bench_world queue) = Map.empty" by (rule harness_build(9) [OF harness_queue])
  moreover have "length (handler_table (bench_env ref_noon)) = 15" by (simp add: handler_table_def)
  moreover have "length (fst (RegisterAll (bench_env ref_noon) q1)) = length (handler_table (bench_env ref_noon))"
    using register_all_effect [OF reg] by (metis length_map)
  ultimately show ?thesis
    using register_all_effect [OF reg] reg by simp
qed

text \<open>C36: \<open>SeedAll\<close> on a redis queue, whatever redis answers: each of the fifteen jobs is stored as pending
  under a new id, or its name and error are in the error \<open>SeedAll\<close> returns; one failure hides no other job,
  and no stored job is touched. It returns nil exactly when all fifteen are stored.\<close>

theorem seed_all_accounts:
  assumes "bench_redis b ks q used" and "float_ok (b_json b) (Fin (1 / 2))" and "ids_used ks used w"
  shows "wp (SeedAll b (Some (queue_dispatcher errtext (b_env b) q))) (\<lambda>r w'. \<exists>rs. length rs = 15
     \<and> r = Ret (errors_Join (reported (seed_entries b) rs))
     \<and> adds (pending_names ks w) (stored seed_names rs) (pending_names ks w')
     \<and> (r = Ret None \<longleftrightarrow> length (stored seed_names rs) = 15)) w"
proof (rule wp_mono [OF bench_redis.redis_SeedAll [OF assms]], elim exE conjE, goal_cases)
  case (1 r w' rs)
  have "length (stored seed_names rs) + length (reported (seed_entries b) rs) = 15"
    using stored_reported [of seed_names rs "seed_entries b"] 1(1) by (simp add: seed_names_def seed_entries_def)
  with 1 show ?case by (intro exI [of _ rs]) auto
qed

theorem seed_all_accounts_witness:
  "wp (SeedAll (bench_env ref_noon) (Some (queue_dispatcher (\<lambda>_. ''dispatch error'') (ref_env ref_noon) (bench_queue ref_noon))))
     (\<lambda>r w'. r = Ret None \<longleftrightarrow> card (dom (pending_names ref_ks w')) = 15) bench_start"
proof -
  have empty: "pending_names ref_ks bench_start = Map.empty" by (simp add: pending_names_def fun_eq_iff)
  then have "ids_used ref_ks ids_given bench_start" by (simp add: ids_used_def)
  from seed_all_accounts [OF bench_seed.bench_redis_axioms _ this, of "\<lambda>_. ''dispatch error''"] ref_json_half
  have "wp (SeedAll (bench_env ref_noon) (Some (queue_dispatcher (\<lambda>_. ''dispatch error'') (ref_env ref_noon) (bench_queue ref_noon))))
    (\<lambda>r w'. \<exists>rs. adds Map.empty (stored seed_names rs) (pending_names ref_ks w')
       \<and> (r = Ret None \<longleftrightarrow> length (stored seed_names rs) = 15)) bench_start"
    by (auto simp: empty elim: wp_mono)
  then show ?thesis
    by (rule wp_mono) (auto simp: adds_def dom_map_of_conv_image_fst distinct_card simp flip: set_map)
qed

section \<open>The stress run\<close>

text \<open>C37: in every state of a stress run at most \<open>Concurrency\<close> dispatches are in progress (16 when it is
  not positive), and when the run returns every job is counted exactly once: as dispatched, as a
  dispatch error or as a construction error; the peak of goroutines is at least their number at the
  start.\<close>

theorem stress_accounts:
  assumes "sreach b d cfg (s, w)" and "in_int64 (c_Count cfg)"
  shows "int (dispatching s) \<le> (if c_Concurrency cfg \<le> 0 then 16 else c_Concurrency cfg)
    \<and> (t_main s = Returned \<longrightarrow>
         r_Dispatched (t_result s) + r_DispatchErrors (t_result s) + r_ConstructErrors (t_result s) = c_Count cfg
       \<and> 0 \<le> r_Dispatched (t_result s) \<and> 0 \<le> r_DispatchErrors (t_result s) \<and> 0 \<le> r_ConstructErrors (t_result s)
       \<and> r_StartGoroutines (t_result s) \<le> r_PeakGoroutines (t_result s))"
proof -
  have inv: "sinv cfg s" using sreach_sinv [OF assms] by simp
  moreover have "int (dispatching s) \<le> (if c_Concurrency cfg \<le> 0 then 16 else c_Concurrency cfg)"
    using dispatching_bound [OF inv] by (simp add: stress_defaults_def)
  ultimately show ?thesis by (auto simp: sinv_def accounted_def started_def)
qed

theorem stress_accounts_witness:
  "\<exists>s w. sreach (bench_env ref_noon) bench_dispatcher (bench_stress ''mixed'') (s, w) \<and> t_main s = Returned
     \<and> r_Dispatched (t_result s) + r_DispatchErrors (t_result s) + r_ConstructErrors (t_result s) = 3"
proof -
  obtain s w where run: "sreach (bench_env ref_noon) bench_dispatcher (bench_stress ''mixed'') (s, w)" "t_main s = Returned"
    using bench_stress_returns by blast
  with stress_accounts [OF run(1)] show ?thesis by (auto simp: bench_stress_def in_int64_def)
qed

text \<open>C38: a stress run ends. In every reachable state that has neither returned nor crashed some goroutine of
  the run can take a step, every such step reduces the work left, and when the dispatcher does not
  panic the run can be completed from there.\<close>

theorem stress_terminates:
  assumes "sreach b d cfg (s, w)" and "in_int64 (c_Count cfg)" and "\<not> t_crashed s"
  shows "(t_main s \<noteq> Returned \<longrightarrow> (\<exists>l s' w'. l \<in> {Main, Goroutine} \<and> sstep b d (s, w) l (s', w')))
    \<and> (\<forall>l s' w'. l \<in> {Main, Goroutine} \<and> sstep b d (s, w) l (s', w') \<and> \<not> t_crashed s' \<longrightarrow> srank s' < srank s)
    \<and> ((\<forall>job. returns (d job)) \<longrightarrow>
         (\<exists>s' w'. (\<lambda>c c'. \<exists>l. sstep b d c l c')\<^sup>*\<^sup>* (s, w) (s', w') \<and> t_main s' = Returned))"
proof -
  have inv: "sinv cfg s" using sreach_sinv [OF assms(1,2)] by simp
  with stress_progress [OF inv assms(3)] srank_step [OF _ _ _ inv] stress_completes [OF inv assms(2) _ assms(3)]
  show ?thesis by blast
qed

theorem stress_terminates_witness:
  "\<exists>s w s' w'. sreach (bench_env ref_noon) bench_dispatcher (bench_stress ''mixed'') (s, w) \<and> t_main s = Loop 0
     \<and> (\<lambda>c c'. \<exists>l. sstep (bench_env ref_noon) bench_dispatcher c l c')\<^sup>*\<^sup>* (s, w) (s', w') \<and> t_main s' = Returned"
proof -
  obtain s w where run: "sreach (bench_env ref_noon) bench_dispatcher (bench_stress ''mixed'') (s, w)" "t_main s = Loop 0" "\<not> t_crashed s"
    using bench_stress_starts by blast
  moreover have "in_int64 (c_Count (bench_stress ''mixed''))" by (simp add: bench_stress_def in_int64_def)
  ultimately show ?thesis using stress_terminates [OF run(1)] bench_dispatcher_returns by blast
qed

text \<open>C39: the mode of a stress run. With one of the three known modes, and dice that stay in their range,
  no construction fails; with any other mode nothing is dispatched and every one of the \<open>Count\<close> jobs is
  a construction error.\<close>

theorem stress_mode_outcome:
  assumes "sreach b d cfg (s, w)" and "in_int64 (c_Count cfg)"
  shows "(c_Mode cfg \<in> {'''', ''hello'', ''mixed'', ''fail''} \<and> dice_ok b \<longrightarrow> r_ConstructErrors (t_result s) = 0)
    \<and> (c_Mode cfg \<notin> {'''', ''hello'', ''mixed'', ''fail''} \<longrightarrow> dispatching s = 0 \<and> r_Dispatched (t_result s) = 0
         \<and> (t_main s = Returned \<longrightarrow> r_ConstructErrors (t_result s) = c_Count cfg))"
proof -
  have inv: "sinv cfg s" using sreach_sinv [OF assms] by simp
  then have mode: "c_Mode (t_cfg s) \<in> stress_modes \<longleftrightarrow> c_Mode cfg \<in> {'''', ''hello'', ''mixed'', ''fail''}"
    by (auto simp: sinv_def stress_defaults_def stress_modes_def StressModeHello_def StressModeMixed_def StressModeFail_def)
  have modes: "known_clean b s" "unknown_idle s" using sreach_modes [OF assms] by simp_all
  then have "dispatching s = 0" if "c_Mode cfg \<notin> {'''', ''hello'', ''mixed'', ''fail''}"
    using that mode by (auto simp: unknown_idle_def dispatching_def)
  with modes mode inv show ?thesis
    by (auto simp: known_clean_def unknown_idle_def sinv_def accounted_def started_def)
qed

theorem stress_mode_outcome_witness:
  "\<exists>s w. sreach (bench_env ref_noon) bench_dispatcher (bench_stress ''burst'') (s, w) \<and> t_main s = Returned
     \<and> r_ConstructErrors (t_result s) = 3"
proof -
  obtain s w where run: "sreach (bench_env ref_noon) bench_dispatcher (bench_stress ''burst'') (s, w)" "t_main s = Returned"
    using bench_stress_returns by blast
  with stress_mode_outcome [OF run(1)] show ?thesis by (auto simp: bench_stress_def in_int64_def)
qed

section \<open>The benchmark command\<close>



end
